(* ===== verification/Tus_Prelude.thy ===== *)
theory Tus_Prelude
  imports Main "HOL-Library.Word" "HOL-Library.Code_Target_Nat"
begin

text \<open>
  What every component of the development shares: the machine integers and byte strings of the
  Rust code, the reading of a fallible stateful Rust function as a state transformer that returns
  a sum, the combinators for \<open>?\<close> and sequencing with their rewrite rules, a small
  Hoare-style predicate over such transformers, and the lemma collections \<open>sm_simps\<close>,
  \<open>str_simps\<close> and \<open>valid_rules\<close>.
\<close>

section \<open>Integers and bytes\<close>

type_synonym u64 = "64 word"
type_synonym u32 = "32 word"
type_synonym bytes = "char list"

text \<open>
  Rust's \<open>u64::checked_add\<close>: \<open>None\<close> when the mathematical sum does not fit.
\<close>

definition checked_add :: "u64 \<Rightarrow> u64 \<Rightarrow> u64 option" where
  "checked_add a b = (if unat a + unat b < 2 ^ 64 then Some (a + b) else None)"

text \<open>\<open>buf.len() as u64\<close> of a byte buffer.\<close>

definition len_u64 :: "'a list \<Rightarrow> u64" where
  "len_u64 xs = word_of_nat (length xs)"

section \<open>Lemma collections\<close>

named_theorems sm_simps \<open>rewrite rules for the state-and-error combinators\<close>
named_theorems str_simps \<open>rewrite rules for the string functions of the standard library\<close>
named_theorems valid_rules \<open>introduction rules for the Hoare-style predicate\<close>

lemma checked_add_SomeD:
  assumes "checked_add a b = Some c"
  shows "c = a + b" and "unat c = unat a + unat b"
  using assms by (auto simp: checked_add_def unat_word_ariths split: if_splits)

lemma checked_add_Some_iff:
  "checked_add a b = Some c \<longleftrightarrow> unat a + unat b < 2 ^ 64 \<and> c = a + b"
  by (auto simp: checked_add_def)

lemma checked_add_zero [simp]: "checked_add a 0 = Some a"
proof -
  have "unat a < 2 ^ 64"
    using unsigned_less [of a] by simp
  then show ?thesis by (simp add: checked_add_def)
qed

lemma len_u64_Nil [simp]: "len_u64 [] = 0"
  by (simp add: len_u64_def)

lemma len_u64_append: "len_u64 (xs @ ys) = len_u64 xs + len_u64 ys"
  by (simp add: len_u64_def)

lemma unat_len_u64: "length xs < 2 ^ 64 \<Longrightarrow> unat (len_u64 xs) = length xs"
  by (simp add: len_u64_def unat_of_nat)

lemma unat_len_u64_le: "unat (len_u64 xs) \<le> length xs"
  by (simp add: len_u64_def unat_of_nat)

section \<open>Stateful operations that may fail\<close>

text \<open>
  A Rust operation on shared state returning \<open>Result<A, E>\<close> is a function from the state to
  the result and the state it leaves behind. An error does not roll the state back: the state
  reached when the error is raised is the one returned, as in the code.
\<close>

type_synonym ('s, 'e, 'a) sm = "'s \<Rightarrow> ('e + 'a) \<times> 's"

definition sm_return :: "'a \<Rightarrow> ('s, 'e, 'a) sm" where
  "sm_return x = (\<lambda>s. (Inr x, s))"

definition sm_fail :: "'e \<Rightarrow> ('s, 'e, 'a) sm" where
  "sm_fail e = (\<lambda>s. (Inl e, s))"

text \<open>\<open>let x = m?; k(x)\<close>\<close>

definition sm_bind :: "('s, 'e, 'a) sm \<Rightarrow> ('a \<Rightarrow> ('s, 'e, 'b) sm) \<Rightarrow> ('s, 'e, 'b) sm" where
  "sm_bind m k = (\<lambda>s. case m s of (Inl e, s') \<Rightarrow> (Inl e, s') | (Inr x, s') \<Rightarrow> k x s')"

text \<open>A pure \<open>Result\<close> used with \<open>?\<close> inside a stateful function.\<close>

definition sm_lift :: "'e + 'a \<Rightarrow> ('s, 'e, 'a) sm" where
  "sm_lift r = (\<lambda>s. (r, s))"

text \<open>\<open>if b { return Err(e) }\<close>\<close>

definition sm_guard :: "bool \<Rightarrow> 'e \<Rightarrow> ('s, 'e, unit) sm" where
  "sm_guard b e = (if b then sm_return () else sm_fail e)"

text \<open>\<open>if b { m?; }\<close>\<close>

definition sm_when :: "bool \<Rightarrow> ('s, 'e, unit) sm \<Rightarrow> ('s, 'e, unit) sm" where
  "sm_when b m = (if b then m else sm_return ())"

text \<open>\<open>for x in xs { body(x)?; }\<close>\<close>

fun sm_for :: "'a list \<Rightarrow> ('a \<Rightarrow> ('s, 'e, unit) sm) \<Rightarrow> ('s, 'e, unit) sm" where
  "sm_for [] f = sm_return ()"
| "sm_for (x # xs) f = sm_bind (f x) (\<lambda>_. sm_for xs f)"

text \<open>\<open>for x in xs { out.push(body(x)?); }\<close>\<close>

fun sm_map :: "('a \<Rightarrow> ('s, 'e, 'b) sm) \<Rightarrow> 'a list \<Rightarrow> ('s, 'e, 'b list) sm" where
  "sm_map f [] = sm_return []"
| "sm_map f (x # xs) = sm_bind (f x) (\<lambda>y. sm_bind (sm_map f xs) (\<lambda>ys. sm_return (y # ys)))"

text \<open>\<open>iter.collect::<Result<Vec<_>, _>>()\<close> of a pure fallible function.\<close>

fun map_result :: "('a \<Rightarrow> 'e + 'b) \<Rightarrow> 'a list \<Rightarrow> 'e + 'b list" where
  "map_result f [] = Inr []"
| "map_result f (x # xs) =
     (case f x of Inl e \<Rightarrow> Inl e
      | Inr y \<Rightarrow> (case map_result f xs of Inl e \<Rightarrow> Inl e | Inr ys \<Rightarrow> Inr (y # ys)))"

text \<open>\<open>let x = r?; k(x)\<close> on pure results.\<close>

definition res_bind :: "'e + 'a \<Rightarrow> ('a \<Rightarrow> 'e + 'b) \<Rightarrow> 'e + 'b" where
  "res_bind r k = (case r of Inl e \<Rightarrow> Inl e | Inr x \<Rightarrow> k x)"

lemma res_bind_simps [simp]:
  "res_bind (Inl e) k = Inl e"
  "res_bind (Inr x) k = k x"
  by (simp_all add: res_bind_def)

lemma res_bind_Inr_iff: "res_bind r k = Inr y \<longleftrightarrow> (\<exists>x. r = Inr x \<and> k x = Inr y)"
  by (cases r) auto

lemma sm_return_apply [sm_simps]: "sm_return x s = (Inr x, s)"
  by (simp add: sm_return_def)

lemma sm_fail_apply [sm_simps]: "sm_fail e s = (Inl e, s)"
  by (simp add: sm_fail_def)

lemma sm_lift_apply [sm_simps]: "sm_lift r s = (r, s)"
  by (simp add: sm_lift_def)

lemma sm_guard_apply [sm_simps]: "sm_guard b e s = (if b then Inr () else Inl e, s)"
  by (simp add: sm_guard_def sm_return_def sm_fail_def)

lemma sm_bind_Inr [sm_simps]: "m s = (Inr x, s') \<Longrightarrow> sm_bind m k s = k x s'"
  by (simp add: sm_bind_def)

lemma sm_bind_Inl [sm_simps]: "m s = (Inl e, s') \<Longrightarrow> sm_bind m k s = (Inl e, s')"
  by (simp add: sm_bind_def)

lemma sm_bind_lift [sm_simps]:
  "sm_bind (sm_lift r) k s = (case r of Inl e \<Rightarrow> (Inl e, s) | Inr x \<Rightarrow> k x s)"
  by (simp add: sm_bind_def sm_lift_def split: sum.split)

lemma sm_bind_return [sm_simps]: "sm_bind (sm_return x) k s = k x s"
  by (simp add: sm_bind_def sm_return_def)

lemma sm_bind_fail [sm_simps]: "sm_bind (sm_fail e) k s = (Inl e, s)"
  by (simp add: sm_bind_def sm_fail_def)

lemma sm_bind_guard [sm_simps]:
  "sm_bind (sm_guard b e) k s = (if b then k () s else (Inl e, s))"
  by (simp add: sm_bind_def sm_guard_def sm_return_def sm_fail_def)

lemma sm_when_simps [sm_simps]:
  "sm_when True m = m"
  "sm_when False m = sm_return ()"
  by (simp_all add: sm_when_def)

lemma sm_bind_assoc:
  "sm_bind (sm_bind m f) g = sm_bind m (\<lambda>x. sm_bind (f x) g)"
  by (rule ext) (simp add: sm_bind_def split: prod.splits sum.splits)

lemma sm_bind_Inr_iff:
  "sm_bind m k s = (Inr y, s'') \<longleftrightarrow> (\<exists>x s'. m s = (Inr x, s') \<and> k x s' = (Inr y, s''))"
  by (auto simp: sm_bind_def split: prod.splits sum.splits)

lemma sm_bind_Inl_iff:
  "sm_bind m k s = (Inl e, s'') \<longleftrightarrow>
     m s = (Inl e, s'') \<or> (\<exists>x s'. m s = (Inr x, s') \<and> k x s' = (Inl e, s''))"
  by (auto simp: sm_bind_def split: prod.splits sum.splits)

lemma sm_bind_InrE:
  assumes "sm_bind m k s = (Inr y, s'')"
  obtains x s' where "m s = (Inr x, s')" and "k x s' = (Inr y, s'')"
  using assms by (auto simp: sm_bind_Inr_iff)

lemma sm_bind_cases [consumes 1, case_names fail ok]:
  assumes "sm_bind m k s = (r, s'')"
  obtains (fail) e where "m s = (Inl e, s'')" and "r = Inl e"
    | (ok) x s' where "m s = (Inr x, s')" and "k x s' = (r, s'')"
  using assms by (auto simp: sm_bind_def split: prod.splits sum.splits)

section \<open>A Hoare-style predicate\<close>

text \<open>
  \<open>valid P m Q E\<close>: from a state satisfying \<open>P\<close>, a normal result satisfies \<open>Q\<close> and an
  error satisfies \<open>E\<close>. All operations are total, so this is total correctness.
\<close>

definition valid ::
  "('s \<Rightarrow> bool) \<Rightarrow> ('s, 'e, 'a) sm \<Rightarrow> ('a \<Rightarrow> 's \<Rightarrow> bool) \<Rightarrow> ('e \<Rightarrow> 's \<Rightarrow> bool) \<Rightarrow> bool" where
  "valid P m Q E \<longleftrightarrow>
     (\<forall>s. P s \<longrightarrow> (case m s of (Inl e, s') \<Rightarrow> E e s' | (Inr x, s') \<Rightarrow> Q x s'))"

lemma validI:
  assumes "\<And>s x s'. P s \<Longrightarrow> m s = (Inr x, s') \<Longrightarrow> Q x s'"
    and "\<And>s e s'. P s \<Longrightarrow> m s = (Inl e, s') \<Longrightarrow> E e s'"
  shows "valid P m Q E"
  using assms by (auto simp: valid_def split: prod.splits sum.splits)

lemma validD_Inr: "valid P m Q E \<Longrightarrow> P s \<Longrightarrow> m s = (Inr x, s') \<Longrightarrow> Q x s'"
  by (auto simp: valid_def split: prod.splits sum.splits)

lemma validD_Inl: "valid P m Q E \<Longrightarrow> P s \<Longrightarrow> m s = (Inl e, s') \<Longrightarrow> E e s'"
  by (auto simp: valid_def split: prod.splits sum.splits)

lemma valid_weaken:
  assumes "valid P m Q E" and "\<And>s. P' s \<Longrightarrow> P s"
    and "\<And>x s. Q x s \<Longrightarrow> Q' x s" and "\<And>e s. E e s \<Longrightarrow> E' e s"
  shows "valid P' m Q' E'"
  using assms by (fastforce simp: valid_def split: prod.splits sum.splits)

lemma valid_pre: "valid P m Q E \<Longrightarrow> (\<And>s. P' s \<Longrightarrow> P s) \<Longrightarrow> valid P' m Q E"
  by (erule valid_weaken) auto

lemma valid_return [valid_rules]: "(\<And>s. P s \<Longrightarrow> Q x s) \<Longrightarrow> valid P (sm_return x) Q E"
  by (simp add: valid_def sm_simps)

lemma valid_fail [valid_rules]: "(\<And>s. P s \<Longrightarrow> E e s) \<Longrightarrow> valid P (sm_fail e) Q E"
  by (simp add: valid_def sm_simps)

lemma valid_bind:
  assumes "valid P m R E" and "\<And>x. valid (R x) (k x) Q E"
  shows "valid P (sm_bind m k) Q E"
  using assms by (fastforce simp: valid_def sm_bind_def split: prod.splits sum.splits)

lemma valid_if [valid_rules]:
  assumes "b \<Longrightarrow> valid P m Q E" and "\<not> b \<Longrightarrow> valid P m' Q E"
  shows "valid P (if b then m else m') Q E"
  using assms by simp

text \<open>The one-state form: \<open>m\<close> keeps \<open>I\<close> whether it succeeds or fails.\<close>

abbreviation keeps :: "('s \<Rightarrow> bool) \<Rightarrow> ('s, 'e, 'a) sm \<Rightarrow> bool" where
  "keeps I m \<equiv> valid I m (\<lambda>_. I) (\<lambda>_. I)"

lemma keepsI: "(\<And>s. I s \<Longrightarrow> I (snd (m s))) \<Longrightarrow> keeps I m"
  by (fastforce simp: valid_def split: prod.splits sum.splits)

lemma keepsD: "keeps I m \<Longrightarrow> I s \<Longrightarrow> I (snd (m s))"
  by (cases "m s"; cases "fst (m s)") (auto simp: valid_def)

lemma keeps_return [valid_rules]: "keeps I (sm_return x)"
  by (simp add: valid_def sm_simps)

lemma keeps_fail [valid_rules]: "keeps I (sm_fail e)"
  by (simp add: valid_def sm_simps)

lemma keeps_lift [valid_rules]: "keeps I (sm_lift r)"
  by (rule keepsI) (simp add: sm_simps)

lemma keeps_guard [valid_rules]: "keeps I (sm_guard b e)"
  by (rule keepsI) (simp add: sm_simps)

lemma keeps_when [valid_rules]: "(b \<Longrightarrow> keeps I m) \<Longrightarrow> keeps I (sm_when b m)"
  by (simp add: sm_when_def keeps_return)

lemma keeps_bind [valid_rules]:
  "keeps I m \<Longrightarrow> (\<And>x. keeps I (k x)) \<Longrightarrow> keeps I (sm_bind m k)"
  by (rule valid_bind)

lemma keeps_for [valid_rules]: "(\<And>x. keeps I (f x)) \<Longrightarrow> keeps I (sm_for xs f)"
  by (induction xs) (auto intro: valid_rules)

lemma keeps_map [valid_rules]: "(\<And>x. keeps I (f x)) \<Longrightarrow> keeps I (sm_map f xs)"
  by (induction xs) (auto intro: valid_rules)

lemma keeps_option [valid_rules]:
  assumes "keeps I m" and "\<And>x. keeps I (k x)"
  shows "keeps I (case opt of None \<Rightarrow> m | Some x \<Rightarrow> k x)"
  using assms by (cases opt) auto

section \<open>Lists and options\<close>

lemma map_result_Inr_iff:
  "map_result f xs = Inr ys \<longleftrightarrow> list_all2 (\<lambda>x y. f x = Inr y) xs ys"
proof (induction xs arbitrary: ys)
  case Nil
  show ?case by auto
next
  case (Cons x xs)
  show ?case
    by (cases "f x"; cases "map_result f xs") (auto simp: list_all2_Cons1 Cons.IH [symmetric])
qed

lemma sm_map_Inr_pure:
  assumes "\<And>x. x \<in> set xs \<Longrightarrow> f x s = (Inr (g x), s)"
  shows "sm_map f xs s = (Inr (map g xs), s)"
  using assms by (induction xs) (auto simp: sm_simps)

definition opt_to_res :: "'e \<Rightarrow> 'a option \<Rightarrow> 'e + 'a" where
  "opt_to_res e v = (case v of None \<Rightarrow> Inl e | Some x \<Rightarrow> Inr x)"

lemma opt_to_res_simps [simp]:
  "opt_to_res e None = Inl e"
  "opt_to_res e (Some x) = Inr x"
  by (simp_all add: opt_to_res_def)

lemma opt_to_res_Inr_iff [simp]: "opt_to_res e v = Inr x \<longleftrightarrow> v = Some x"
  by (cases v) auto

lemma opt_to_res_Inl_iff [simp]: "opt_to_res e v = Inl e' \<longleftrightarrow> v = None \<and> e = e'"
  by (cases v) auto

end
