(* ===== verification/Rust_Str.thy ===== *)
theory Rust_Str
  imports Tus_Prelude "HOL-Library.Sublist"
begin

text \<open>
  The string functions of the Rust standard library that the code calls, on strings as the
  sequences of their UTF-8 bytes (a \<open>char\<close> is a byte). \<open>trim\<close> and
  \<open>split_whitespace\<close> know every character of the Unicode property White_Space by its
  UTF-8 encoding. Decimal printing and parsing of unsigned integers, UTF-8 validation.
\<close>

section \<open>Characters\<close>

abbreviation code :: "char \<Rightarrow> nat" where
  "code c \<equiv> of_char c"

definition is_digit :: "char \<Rightarrow> bool" where
  "is_digit c \<longleftrightarrow> 48 \<le> code c \<and> code c \<le> 57"

text \<open>\<open>u8::is_ascii_alphanumeric\<close>\<close>

definition is_alnum :: "char \<Rightarrow> bool" where
  "is_alnum c \<longleftrightarrow> is_digit c \<or> (65 \<le> code c \<and> code c \<le> 90) \<or> (97 \<le> code c \<and> code c \<le> 122)"

text \<open>
  \<open>to_ascii_lowercase\<close> on one byte, which sets bit 5 of a capital letter; \<open>to_lowercase\<close>
  agrees with it on ASCII text.
\<close>

fun lower :: "char \<Rightarrow> char" where
  "lower (Char b0 b1 b2 b3 b4 b5 b6 b7) =
     (let c = Char b0 b1 b2 b3 b4 b5 b6 b7
      in if 65 \<le> code c \<and> code c \<le> 90 then Char b0 b1 b2 b3 b4 True b6 b7 else c)"

definition visible_ascii :: "char \<Rightarrow> bool" where
  "visible_ascii c \<longleftrightarrow> 32 < code c \<and> code c < 127"

section \<open>Searching and splitting\<close>

definition starts_with :: "string \<Rightarrow> string \<Rightarrow> bool" where
  "starts_with s p = prefix p s"

definition ends_with :: "string \<Rightarrow> string \<Rightarrow> bool" where
  "ends_with s p = suffix p s"

fun contains :: "string \<Rightarrow> string \<Rightarrow> bool" where
  "contains [] p = (p = [])"
| "contains (c # s) p = (prefix p (c # s) \<or> contains s p)"

text \<open>\<open>str::rfind\<close>: the byte index of the last occurrence.\<close>

fun rfind :: "string \<Rightarrow> string \<Rightarrow> nat option" where
  "rfind [] p = (if p = [] then Some 0 else None)"
| "rfind (c # s) p =
     (case rfind s p of
        Some i \<Rightarrow> Some (Suc i)
      | None \<Rightarrow> if prefix p (c # s) then Some 0 else None)"

definition strip_prefix_str :: "string \<Rightarrow> string \<Rightarrow> string option" where
  "strip_prefix_str s p = (if prefix p s then Some (drop (length p) s) else None)"

text \<open>\<open>str::split\<close> on one ASCII byte: never empty, one segment more than separators.\<close>

fun split_on :: "char \<Rightarrow> string \<Rightarrow> string list" where
  "split_on d [] = [[]]"
| "split_on d (c # s) =
     (if c = d then [] # split_on d s
      else (case split_on d s of [] \<Rightarrow> [[c]] | w # ws \<Rightarrow> (c # w) # ws))"

text \<open>\<open>split_once\<close>, and \<open>splitn(2, d)\<close> when the second part is optional.\<close>

fun split_once :: "char \<Rightarrow> string \<Rightarrow> (string \<times> string) option" where
  "split_once d [] = None"
| "split_once d (c # s) =
     (if c = d then Some ([], s)
      else map_option (\<lambda>(a, b). (c # a, b)) (split_once d s))"

fun join :: "string \<Rightarrow> string list \<Rightarrow> string" where
  "join d [] = []"
| "join d [w] = w"
| "join d (w # v # ws) = w @ d @ join d (v # ws)"

definition trim_start_matches :: "char \<Rightarrow> string \<Rightarrow> string" where
  "trim_start_matches c s = dropWhile (\<lambda>x. x = c) s"

definition trim_end_matches :: "char \<Rightarrow> string \<Rightarrow> string" where
  "trim_end_matches c s = rev (dropWhile (\<lambda>x. x = c) (rev s))"

section \<open>White space\<close>

text \<open>
  The number of bytes of the white-space character a string starts with, 0 if it starts with
  none: U+0009 to U+000D, U+0020, U+0085, U+00A0, U+1680, U+2000 to U+200A, U+2028, U+2029,
  U+202F, U+205F, U+3000.
\<close>

definition ws1 :: "char \<Rightarrow> bool" where
  "ws1 c \<longleftrightarrow> (9 \<le> code c \<and> code c \<le> 13) \<or> code c = 32"

definition ws2 :: "char \<Rightarrow> char \<Rightarrow> bool" where
  "ws2 c d \<longleftrightarrow> code c = 194 \<and> (code d = 133 \<or> code d = 160)"

definition ws3 :: "char \<Rightarrow> char \<Rightarrow> char \<Rightarrow> bool" where
  "ws3 c d e \<longleftrightarrow>
     (code c = 225 \<and> code d = 154 \<and> code e = 128)
   \<or> (code c = 226 \<and> code d = 128 \<and>
        ((128 \<le> code e \<and> code e \<le> 138) \<or> code e = 168 \<or> code e = 169 \<or> code e = 175))
   \<or> (code c = 226 \<and> code d = 129 \<and> code e = 159)
   \<or> (code c = 227 \<and> code d = 128 \<and> code e = 128)"

fun ws_len :: "string \<Rightarrow> nat" where
  "ws_len [] = 0"
| "ws_len (c # r) =
     (if ws1 c then 1
      else case r of [] \<Rightarrow> 0
           | d # r' \<Rightarrow> if ws2 c d then 2
                     else case r' of [] \<Rightarrow> 0 | e # _ \<Rightarrow> if ws3 c d e then 3 else 0)"

text \<open>The same at the end of a string, which is given reversed.\<close>

fun ws_len_rev :: "string \<Rightarrow> nat" where
  "ws_len_rev [] = 0"
| "ws_len_rev (c # r) =
     (if ws1 c then 1
      else case r of [] \<Rightarrow> 0
           | d # r' \<Rightarrow> if ws2 d c then 2
                     else case r' of [] \<Rightarrow> 0 | e # _ \<Rightarrow> if ws3 e d c then 3 else 0)"

function trim_start :: "string \<Rightarrow> string" where
  "trim_start s = (if ws_len s = 0 \<or> s = [] then s else trim_start (drop (ws_len s) s))"
  by pat_completeness auto
termination
  by (relation "measure length") auto

function trim_rev :: "string \<Rightarrow> string" where
  "trim_rev s = (if ws_len_rev s = 0 \<or> s = [] then s else trim_rev (drop (ws_len_rev s) s))"
  by pat_completeness auto
termination
  by (relation "measure length") auto

declare trim_start.simps [simp del] trim_rev.simps [simp del]

definition trim_end :: "string \<Rightarrow> string" where
  "trim_end s = rev (trim_rev (rev s))"

definition trim :: "string \<Rightarrow> string" where
  "trim s = trim_end (trim_start s)"

text \<open>The longest front part without white space, and the rest.\<close>

fun span_word :: "string \<Rightarrow> string \<times> string" where
  "span_word [] = ([], [])"
| "span_word (c # s) =
     (if 0 < ws_len (c # s) then ([], c # s)
      else (let (w, r) = span_word s in (c # w, r)))"

lemma length_span_word: "length (snd (span_word s)) \<le> length s"
  by (induction s) (auto split: prod.splits)

lemma length_trim_start: "length (trim_start s) \<le> length s"
proof (induction s rule: trim_start.induct)
  case (1 s)
  show ?case
  proof (cases "ws_len s = 0 \<or> s = []")
    case True
    then show ?thesis by (subst trim_start.simps) simp
  next
    case False
    with "1.IH" have "length (trim_start (drop (ws_len s) s)) \<le> length (drop (ws_len s) s)"
      by simp
    with False show ?thesis by (subst trim_start.simps) simp
  qed
qed

lemma trim_start_head: "trim_start s = [] \<or> ws_len (trim_start s) = 0"
proof (induction s rule: trim_start.induct)
  case (1 s)
  then show ?case
    by (cases "ws_len s = 0 \<or> s = []") (auto simp: trim_start.simps [of s] simp del: ws_len.simps)
qed

text \<open>\<open>str::split_whitespace\<close>\<close>

function split_whitespace :: "string \<Rightarrow> string list" where
  "split_whitespace s =
     (let t = trim_start s
      in if t = [] then []
         else fst (span_word t) # split_whitespace (snd (span_word t)))"
  by pat_completeness auto
termination
proof (relation "measure length")
  fix s t :: string
  assume t: "t = trim_start s" and ne: "t \<noteq> []"
  obtain c r where cr: "t = c # r" using ne by (cases t) simp_all
  have "ws_len t = 0" using trim_start_head [of s] t ne by simp
  then have "snd (span_word t) = snd (span_word r)"
    by (simp add: cr split: prod.splits del: ws_len.simps)
  moreover have "length (snd (span_word r)) \<le> length r" by (rule length_span_word)
  moreover have "length t \<le> length s" using t length_trim_start by simp
  ultimately show "(snd (span_word t), s) \<in> measure length"
    by (simp add: cr)
qed simp

declare split_whitespace.simps [simp del]

section \<open>Numbers\<close>

definition digit_char :: "nat \<Rightarrow> char" where
  "digit_char d = char_of (48 + d)"

text \<open>\<open>to_string\<close> of an unsigned integer.\<close>

fun dec :: "nat \<Rightarrow> string" where
  "dec n = (if n < 10 then [digit_char n] else dec (n div 10) @ [digit_char (n mod 10)])"

declare dec.simps [simp del]

definition digits_val :: "string \<Rightarrow> nat" where
  "digits_val s = foldl (\<lambda>v c. 10 * v + (code c - 48)) 0 s"

text \<open>
  \<open>str::parse\<close> for an unsigned type with the given exclusive bound: one leading \<open>+\<close>
  is accepted when something follows it, then digits only, and a value past the bound is an
  error.
\<close>

definition parse_uint :: "nat \<Rightarrow> string \<Rightarrow> nat option" where
  "parse_uint bound s =
     (let ds = (case s of [] \<Rightarrow> []
                | c # r \<Rightarrow> if c = CHR ''+'' \<and> r \<noteq> [] then r else s)
      in if ds = [] \<or> \<not> list_all is_digit ds then None
         else if digits_val ds < bound then Some (digits_val ds) else None)"

definition parse_u64 :: "string \<Rightarrow> u64 option" where
  "parse_u64 s = map_option word_of_nat (parse_uint (2 ^ 64) s)"

definition parse_u32 :: "string \<Rightarrow> u32 option" where
  "parse_u32 s = map_option word_of_nat (parse_uint (2 ^ 32) s)"

section \<open>UTF-8\<close>

definition is_cont :: "char \<Rightarrow> bool" where
  "is_cont c \<longleftrightarrow> 128 \<le> code c \<and> code c \<le> 191"

text \<open>
  \<open>String::from_utf8\<close>: \<open>None\<close> for valid UTF-8, otherwise the index up to which the
  bytes are valid and the length of the invalid sequence (\<open>None\<close> when the input ends inside
  a sequence), as \<open>Utf8Error\<close> carries them.
\<close>

fun utf8_error :: "nat \<Rightarrow> bytes \<Rightarrow> (nat \<times> nat option) option" where
  "utf8_error i [] = None"
| "utf8_error i (a # s) =
     (if code a < 128 then utf8_error (i + 1) s
      else if 194 \<le> code a \<and> code a \<le> 223 then
        (case s of [] \<Rightarrow> Some (i, None)
         | b # s' \<Rightarrow> if is_cont b then utf8_error (i + 2) s' else Some (i, Some 1))
      else if 224 \<le> code a \<and> code a \<le> 239 then
        (case s of [] \<Rightarrow> Some (i, None)
         | b # s' \<Rightarrow>
             if \<not> is_cont b \<or> (code a = 224 \<and> code b < 160) \<or> (code a = 237 \<and> 159 < code b)
             then Some (i, Some 1)
             else (case s' of [] \<Rightarrow> Some (i, None)
                   | c # s'' \<Rightarrow> if is_cont c then utf8_error (i + 3) s'' else Some (i, Some 2)))
      else if 240 \<le> code a \<and> code a \<le> 244 then
        (case s of [] \<Rightarrow> Some (i, None)
         | b # s' \<Rightarrow>
             if \<not> is_cont b \<or> (code a = 240 \<and> code b < 144) \<or> (code a = 244 \<and> 143 < code b)
             then Some (i, Some 1)
             else (case s' of [] \<Rightarrow> Some (i, None)
                   | c # s'' \<Rightarrow>
                       if \<not> is_cont c then Some (i, Some 2)
                       else (case s'' of [] \<Rightarrow> Some (i, None)
                             | d # s3 \<Rightarrow> if is_cont d then utf8_error (i + 4) s3
                                       else Some (i, Some 3))))
      else Some (i, Some 1))"

definition utf8_error_text :: "nat \<times> nat option \<Rightarrow> string" where
  "utf8_error_text e =
     (case e of
        (i, Some n) \<Rightarrow> ''invalid utf-8 sequence of '' @ dec n @ '' bytes from index '' @ dec i
      | (i, None) \<Rightarrow> ''incomplete utf-8 byte sequence from index '' @ dec i)"

definition from_utf8 :: "bytes \<Rightarrow> string + string" where
  "from_utf8 b = (case utf8_error 0 b of None \<Rightarrow> Inr b | Some e \<Rightarrow> Inl (utf8_error_text e))"

section \<open>Facts\<close>

lemma digit_char_code: "d < 10 \<Longrightarrow> code (digit_char d) = 48 + d"
  by (simp add: digit_char_def)

lemma is_digit_digit_char [simp]: "d < 10 \<Longrightarrow> is_digit (digit_char d)"
  by (simp add: is_digit_def digit_char_code)

lemma dec_nonempty [simp]: "dec n \<noteq> []"
  by (subst dec.simps) simp

lemma dec_digits: "list_all is_digit (dec n)"
proof (induction n rule: dec.induct)
  case (1 n)
  then show ?case by (subst dec.simps) auto
qed

lemma digits_val_append: "digits_val (s @ [c]) = 10 * digits_val s + (code c - 48)"
  by (simp add: digits_val_def)

lemma digits_val_dec [simp]: "digits_val (dec n) = n"
proof (induction n rule: dec.induct)
  case (1 n)
  show ?case
  proof (cases "n < 10")
    case True
    then show ?thesis by (subst dec.simps) (simp add: digits_val_def digit_char_code)
  next
    case False
    with "1" show ?thesis
      by (subst dec.simps) (simp add: digits_val_append digit_char_code)
  qed
qed

lemma digit_not_plus: "is_digit c \<Longrightarrow> c \<noteq> CHR ''+''"
  by (auto simp: is_digit_def)

lemma parse_uint_digits:
  assumes "list_all is_digit ds" and "ds \<noteq> []"
  shows "parse_uint bound ds = (if digits_val ds < bound then Some (digits_val ds) else None)"
  using assms digit_not_plus by (cases ds) (auto simp: parse_uint_def Let_def)

lemma parse_uint_dec: "parse_uint bound (dec n) = (if n < bound then Some n else None)"
  by (simp add: parse_uint_digits dec_digits)

lemma parse_u64_dec: "parse_u64 (dec (unat w)) = Some w"
  using unsigned_less [of w] by (simp add: parse_u64_def parse_uint_dec)

lemma dec_inject [simp]: "dec m = dec n \<longleftrightarrow> m = n"
  using digits_val_dec by metis

subsection \<open>Occurrences\<close>

lemma rfind_None_iff: "rfind s p = None \<longleftrightarrow> (\<forall>j \<le> length s. \<not> prefix p (drop j s))"
proof (induction s)
  case (Cons c s)
  have "(\<forall>j \<le> length (c # s). \<not> prefix p (drop j (c # s)))
          \<longleftrightarrow> \<not> prefix p (c # s) \<and> (\<forall>j \<le> length s. \<not> prefix p (drop j s))" (is "?l \<longleftrightarrow> ?r")
  proof
    assume l: ?l
    then have "\<not> prefix p (drop 0 (c # s))" by blast
    moreover have "\<not> prefix p (drop j s)" if "j \<le> length s" for j
      using l [rule_format, of "Suc j"] that by simp
    ultimately show ?r by simp
  next
    assume ?r
    then show ?l by (auto simp: drop_Cons split: nat.split)
  qed
  then show ?case using Cons by (auto split: option.splits)
qed simp

lemma rfind_SomeD:
  assumes "rfind s p = Some i"
  shows "i \<le> length s" and "prefix p (drop i s)"
    and "\<And>j. i < j \<Longrightarrow> j \<le> length s \<Longrightarrow> \<not> prefix p (drop j s)"
proof -
  have "i \<le> length s \<and> prefix p (drop i s) \<and> (\<forall>j. i < j \<longrightarrow> j \<le> length s \<longrightarrow> \<not> prefix p (drop j s))"
    using assms
  proof (induction s arbitrary: i)
    case (Cons c s)
    show ?case
    proof (cases "rfind s p")
      case None
      with Cons.prems have "i = 0" "prefix p (c # s)" by (auto split: if_splits)
      with None show ?thesis by (auto simp: rfind_None_iff drop_Cons split: nat.split)
    next
      case (Some k)
      with Cons show ?thesis by (auto simp: drop_Cons split: nat.split)
    qed
  qed (auto split: if_splits)
  then show "i \<le> length s" and "prefix p (drop i s)"
    and "\<And>j. i < j \<Longrightarrow> j \<le> length s \<Longrightarrow> \<not> prefix p (drop j s)" by auto
qed

lemma rfindI:
  assumes "i \<le> length s" and "prefix p (drop i s)"
    and "\<And>j. i < j \<Longrightarrow> j \<le> length s \<Longrightarrow> \<not> prefix p (drop j s)"
  shows "rfind s p = Some i"
proof (cases "rfind s p")
  case None
  with assms(1,2) show ?thesis by (auto simp: rfind_None_iff)
next
  case (Some k)
  note k = rfind_SomeD [OF Some]
  have "\<not> i < k" using assms(3) k(1,2) by blast
  moreover have "\<not> k < i" using assms(1,2) k(3) by blast
  ultimately show ?thesis using Some by simp
qed

lemma prefix_of_later:
  assumes "prefix p (drop (Suc d) (p @ t))" and "p \<noteq> []"
  shows "last p \<in> set t"
proof -
  define a where "a = take (Suc d) (p @ t)"
  from assms(1) obtain r where r: "drop (Suc d) (p @ t) = p @ r" by (auto simp: prefix_def)
  have a: "a \<noteq> []" using assms(2) by (simp add: a_def)
  have "p @ t = a @ p @ r"
    using append_take_drop_id [of "Suc d" "p @ t"] by (simp only: a_def r)
  also have "\<dots> = (a @ butlast p) @ last p # r"
    using assms(2) append_butlast_last_id [of p] by (metis append_assoc append_Cons append_Nil)
  finally have "p @ t = (a @ butlast p) @ last p # r" .
  then consider us where "p = (a @ butlast p) @ us" "us @ t = last p # r"
    | us where "p @ us = a @ butlast p" "t = us @ last p # r"
    using append_eq_append_conv2 [of p t "a @ butlast p" "last p # r"] by metis
  then show ?thesis
  proof cases
    case 1
    have "length p = length a + (length p - 1) + length us"
      using arg_cong [OF 1(1), of length] by simp
    with a assms(2) have "us = []" by (cases a; cases p) simp_all
    with 1(2) show ?thesis by simp
  qed simp
qed

text \<open>
  An occurrence followed by text that cannot hold the last character of the pattern is the last
  one, and so is an occurrence whose later text cannot hold its first character.
\<close>

lemma rfind_append_last:
  assumes "p \<noteq> []" and "last p \<notin> set t"
  shows "rfind (s @ p @ t) p = Some (length s)"
proof (rule rfindI)
  fix j assume j: "length s < j" "j \<le> length (s @ p @ t)"
  obtain d where d: "j = length s + Suc d" using j(1) less_imp_Suc_add by auto
  show "\<not> prefix p (drop j (s @ p @ t))"
    using prefix_of_later [of p d t] assms by (auto simp: d)
qed (simp_all add: prefix_def)

lemma rfind_append_first:
  assumes "p = c # q" and "c \<notin> set q" and "c \<notin> set t"
  shows "rfind (s @ p @ t) p = Some (length s)"
proof (rule rfindI)
  fix j assume j: "length s < j" "j \<le> length (s @ p @ t)"
  obtain d where d: "j = length s + Suc d" using j(1) less_imp_Suc_add by auto
  have drop: "drop j (s @ p @ t) = drop d (q @ t)" by (simp add: d assms(1))
  show "\<not> prefix p (drop j (s @ p @ t))"
  proof
    assume "prefix p (drop j (s @ p @ t))"
    then have "prefix (c # q) (drop d (q @ t))" unfolding drop by (simp add: assms(1))
    then have "c \<in> set (drop d (q @ t))" by (cases "drop d (q @ t)") auto
    then have "c \<in> set (q @ t)" by (rule in_set_dropD)
    with assms(2,3) show False by simp
  qed
qed (simp_all add: prefix_def)

subsection \<open>Splitting\<close>

lemma split_on_nonempty [simp]: "split_on d s \<noteq> []"
  by (induction s) (auto split: list.splits)

lemma split_on_no_sep: "d \<notin> set s \<Longrightarrow> split_on d s = [s]"
  by (induction s) auto

lemma split_on_sep: "split_on d (a @ d # b) = split_on d a @ split_on d b"
proof (induction a)
  case (Cons c a)
  then show ?case by (cases "split_on d a") auto
qed simp

lemma split_on_join:
  assumes "ws \<noteq> []" and "list_all (\<lambda>w. d \<notin> set w) ws"
  shows "split_on d (join [d] ws) = ws"
  using assms
  by (induction "[d]" ws rule: join.induct) (auto simp: split_on_no_sep split_on_sep)

lemma split_on_last:
  "d \<notin> set b \<Longrightarrow> last (split_on d (a @ d # b)) = b"
  by (simp add: split_on_sep split_on_no_sep)

end
