(* ===== verification/Tus_Proto.thy ===== *)
theory Tus_Proto
  imports Rust_Str
begin

text \<open>
  The protocol constants of \<open>fileloft-core/src/proto.rs\<close>. A header name is a constructor with
  the name of the source's constant, and \<open>header_str\<close> is the constant's text; the three
  names the code writes as literals (\<open>host\<close>, \<open>x-forwarded-proto\<close>,
  \<open>x-forwarded-host\<close>) are constructors too. Header maps compare names without regard to
  case, so distinct constructors stand for distinct keys exactly because
  \<open>header_str_inject\<close> holds.
\<close>

definition TUS_VERSION :: string where
  "TUS_VERSION = ''1.0.0''"

datatype header_name =
    HDR_TUS_RESUMABLE | HDR_TUS_VERSION | HDR_TUS_EXTENSION | HDR_TUS_MAX_SIZE
  | HDR_TUS_CHECKSUM_ALGORITHM | HDR_UPLOAD_OFFSET | HDR_UPLOAD_LENGTH
  | HDR_UPLOAD_DEFER_LENGTH | HDR_UPLOAD_METADATA | HDR_UPLOAD_EXPIRES
  | HDR_UPLOAD_CHECKSUM | HDR_UPLOAD_CONCAT | HDR_LOCATION | HDR_CACHE_CONTROL
  | HDR_CONTENT_TYPE | HDR_CONTENT_LENGTH | HDR_ACCESS_CONTROL_ALLOW_ORIGIN
  | HDR_ACCESS_CONTROL_ALLOW_METHODS | HDR_ACCESS_CONTROL_ALLOW_HEADERS
  | HDR_ACCESS_CONTROL_EXPOSE_HEADERS | HDR_ACCESS_CONTROL_MAX_AGE
  | HDR_ACCESS_CONTROL_ALLOW_CREDENTIALS
  | HDR_HOST | HDR_X_FORWARDED_PROTO | HDR_X_FORWARDED_HOST

fun header_str :: "header_name \<Rightarrow> string" where
  "header_str HDR_TUS_RESUMABLE = ''Tus-Resumable''"
| "header_str HDR_TUS_VERSION = ''Tus-Version''"
| "header_str HDR_TUS_EXTENSION = ''Tus-Extension''"
| "header_str HDR_TUS_MAX_SIZE = ''Tus-Max-Size''"
| "header_str HDR_TUS_CHECKSUM_ALGORITHM = ''Tus-Checksum-Algorithm''"
| "header_str HDR_UPLOAD_OFFSET = ''Upload-Offset''"
| "header_str HDR_UPLOAD_LENGTH = ''Upload-Length''"
| "header_str HDR_UPLOAD_DEFER_LENGTH = ''Upload-Defer-Length''"
| "header_str HDR_UPLOAD_METADATA = ''Upload-Metadata''"
| "header_str HDR_UPLOAD_EXPIRES = ''Upload-Expires''"
| "header_str HDR_UPLOAD_CHECKSUM = ''Upload-Checksum''"
| "header_str HDR_UPLOAD_CONCAT = ''Upload-Concat''"
| "header_str HDR_LOCATION = ''Location''"
| "header_str HDR_CACHE_CONTROL = ''Cache-Control''"
| "header_str HDR_CONTENT_TYPE = ''Content-Type''"
| "header_str HDR_CONTENT_LENGTH = ''Content-Length''"
| "header_str HDR_ACCESS_CONTROL_ALLOW_ORIGIN = ''Access-Control-Allow-Origin''"
| "header_str HDR_ACCESS_CONTROL_ALLOW_METHODS = ''Access-Control-Allow-Methods''"
| "header_str HDR_ACCESS_CONTROL_ALLOW_HEADERS = ''Access-Control-Allow-Headers''"
| "header_str HDR_ACCESS_CONTROL_EXPOSE_HEADERS = ''Access-Control-Expose-Headers''"
| "header_str HDR_ACCESS_CONTROL_MAX_AGE = ''Access-Control-Max-Age''"
| "header_str HDR_ACCESS_CONTROL_ALLOW_CREDENTIALS = ''Access-Control-Allow-Credentials''"
| "header_str HDR_HOST = ''host''"
| "header_str HDR_X_FORWARDED_PROTO = ''x-forwarded-proto''"
| "header_str HDR_X_FORWARDED_HOST = ''x-forwarded-host''"

definition CONTENT_TYPE_OCTET_STREAM :: string where
  "CONTENT_TYPE_OCTET_STREAM = ''application/offset+octet-stream''"

definition CACHE_CONTROL_NO_STORE :: string where
  "CACHE_CONTROL_NO_STORE = ''no-store''"

definition EXT_CREATION :: string where "EXT_CREATION = ''creation''"
definition EXT_CREATION_WITH_UPLOAD :: string where
  "EXT_CREATION_WITH_UPLOAD = ''creation-with-upload''"
definition EXT_CREATION_DEFER_LENGTH :: string where
  "EXT_CREATION_DEFER_LENGTH = ''creation-defer-length''"
definition EXT_EXPIRATION :: string where "EXT_EXPIRATION = ''expiration''"
definition EXT_CHECKSUM :: string where "EXT_CHECKSUM = ''checksum''"
definition EXT_CHECKSUM_TRAILER :: string where "EXT_CHECKSUM_TRAILER = ''checksum-trailer''"
definition EXT_TERMINATION :: string where "EXT_TERMINATION = ''termination''"
definition EXT_CONCATENATION :: string where "EXT_CONCATENATION = ''concatenation''"

definition SUPPORTED_CHECKSUM_ALGORITHMS :: "string list" where
  "SUPPORTED_CHECKSUM_ALGORITHMS = [''sha1'', ''sha256'', ''md5'']"

definition CHECKSUM_TRAILER_IMPLEMENTED :: bool where
  "CHECKSUM_TRAILER_IMPLEMENTED = False"

lemmas ext_names =
  EXT_CREATION_def EXT_CREATION_WITH_UPLOAD_def EXT_CREATION_DEFER_LENGTH_def
  EXT_EXPIRATION_def EXT_CHECKSUM_def EXT_CHECKSUM_TRAILER_def EXT_TERMINATION_def
  EXT_CONCATENATION_def

text \<open>
  Request header values as the code sees them: \<open>to_str\<close> gives the text of a value made of
  visible ASCII characters and an error for any other value. Of a repeated header the code
  reads the first value, so a header map is a map.
\<close>

datatype header_value = HText string | HOpaque bytes

fun to_str :: "header_value \<Rightarrow> string option" where
  "to_str (HText s) = Some s"
| "to_str (HOpaque b) = None"

type_synonym header_map = "header_name \<rightharpoonup> header_value"

text \<open>Headers of a response, built with \<open>insert\<close> only.\<close>

type_synonym response_headers = "header_name \<rightharpoonup> string"

definition all_headers :: "header_name list" where
  "all_headers =
     [HDR_TUS_RESUMABLE, HDR_TUS_VERSION, HDR_TUS_EXTENSION, HDR_TUS_MAX_SIZE,
      HDR_TUS_CHECKSUM_ALGORITHM, HDR_UPLOAD_OFFSET, HDR_UPLOAD_LENGTH,
      HDR_UPLOAD_DEFER_LENGTH, HDR_UPLOAD_METADATA, HDR_UPLOAD_EXPIRES, HDR_UPLOAD_CHECKSUM,
      HDR_UPLOAD_CONCAT, HDR_LOCATION, HDR_CACHE_CONTROL, HDR_CONTENT_TYPE,
      HDR_CONTENT_LENGTH, HDR_ACCESS_CONTROL_ALLOW_ORIGIN, HDR_ACCESS_CONTROL_ALLOW_METHODS,
      HDR_ACCESS_CONTROL_ALLOW_HEADERS, HDR_ACCESS_CONTROL_EXPOSE_HEADERS,
      HDR_ACCESS_CONTROL_MAX_AGE, HDR_ACCESS_CONTROL_ALLOW_CREDENTIALS, HDR_HOST,
      HDR_X_FORWARDED_PROTO, HDR_X_FORWARDED_HOST]"

lemma all_headers_complete: "h \<in> set all_headers"
  by (cases h) (simp_all add: all_headers_def)

lemma distinct_header_str: "distinct (map (\<lambda>h. map lower (header_str h)) all_headers)"
  by code_simp

lemma header_str_inject:
  "map lower (header_str a) = map lower (header_str b) \<longleftrightarrow> a = b"
  using distinct_header_str all_headers_complete
  by (auto simp: distinct_map dest: inj_onD)

text \<open>
  Header maps over finitely many names can be compared, so responses are values that can be
  evaluated.
\<close>

instantiation header_name :: enum
begin

definition enum_header_name :: "header_name list" where
  "enum_header_name = all_headers"

definition enum_all_header_name :: "(header_name \<Rightarrow> bool) \<Rightarrow> bool" where
  "enum_all_header_name P = list_all P all_headers"

definition enum_ex_header_name :: "(header_name \<Rightarrow> bool) \<Rightarrow> bool" where
  "enum_ex_header_name P = list_ex P all_headers"

instance
proof
  show "(UNIV :: header_name set) = set enum_class.enum"
    using all_headers_complete by (auto simp: enum_header_name_def)
  show "distinct (enum_class.enum :: header_name list)"
    using distinct_header_str by (simp add: enum_header_name_def distinct_map)
  show "enum_class.enum_all P \<longleftrightarrow> Ball UNIV P" for P :: "header_name \<Rightarrow> bool"
    using all_headers_complete by (auto simp: enum_all_header_name_def list_all_iff)
  show "enum_class.enum_ex P \<longleftrightarrow> Bex UNIV P" for P :: "header_name \<Rightarrow> bool"
    using all_headers_complete by (auto simp: enum_ex_header_name_def list_ex_iff)
qed

end

end
