(* ===== verification/Tus_Error.thy ===== *)
theory Tus_Error
  imports Tus_Proto
begin

text \<open>
  \<open>fileloft-core/src/error.rs\<close>: the error type of every operation, its text, the text a client
  is shown and the HTTP status of each variant. \<open>std::io::Error\<close> is its kind (only
  \<open>NotFound\<close> is told apart by the code) and its text; \<open>serde_json::Error\<close> is its text.
\<close>

datatype io_kind = IoNotFound | IoInvalidData | IoOther

datatype io_error = Io_Error (io_kind: io_kind) (io_text: string)

datatype tus_error =
    MissingTusResumable
  | UnsupportedVersion string
  | MissingUploadOffset
  | OffsetMismatch u64 u64
  | WrongContentType string
  | NotFound string
  | Gone
  | EntityTooLarge u64
  | ExceedsUploadLength u64 u64
  | ChecksumMismatch
  | UnsupportedChecksumAlgorithm string
  | MissingUploadLength
  | UploadLengthAlreadySet
  | ExtensionNotEnabled string
  | InvalidMetadata string
  | InvalidUploadId
  | EmptyConcatenation
  | PartialUploadIncomplete string
  | NotPartialUpload string
  | PatchOnFinalUpload
  | UploadNotReadyForDownload
  | MethodNotAllowed
  | LockTimeout string
  | LockConflict string
  | HookRejected string
  | Io io_error
  | Serialization string
  | Internal string

type_synonym ('s, 'a) op = "('s, tus_error, 'a) sm"

definition dec_u64 :: "u64 \<Rightarrow> string" where
  "dec_u64 n = dec (unat n)"

text \<open>The \<open>Display\<close> text of the \<open>#[error(...)]\<close> attributes.\<close>

fun error_text :: "tus_error \<Rightarrow> string" where
  "error_text MissingTusResumable = ''missing Tus-Resumable header''"
| "error_text (UnsupportedVersion v) = ''unsupported tus version: '' @ v"
| "error_text MissingUploadOffset = ''missing Upload-Offset header''"
| "error_text (OffsetMismatch expected actual) =
     ''upload offset mismatch: expected '' @ dec_u64 expected @ '', got '' @ dec_u64 actual"
| "error_text (WrongContentType ct) =
     ''wrong Content-Type: expected application/offset+octet-stream, got '' @ ct"
| "error_text (NotFound i) = ''upload not found: '' @ i"
| "error_text Gone = ''upload has expired''"
| "error_text (EntityTooLarge m) =
     ''upload size exceeds server maximum of '' @ dec_u64 m @ '' bytes''"
| "error_text (ExceedsUploadLength declared end_offset) =
     ''chunk exceeds declared upload length (declared '' @ dec_u64 declared
       @ '' bytes, end offset would be '' @ dec_u64 end_offset @ '')''"
| "error_text ChecksumMismatch = ''checksum mismatch''"
| "error_text (UnsupportedChecksumAlgorithm a) = ''unsupported checksum algorithm: '' @ a"
| "error_text MissingUploadLength = ''missing Upload-Length (or Upload-Defer-Length)''"
| "error_text UploadLengthAlreadySet = ''Upload-Length cannot be changed once set''"
| "error_text (ExtensionNotEnabled e) = ''extension not enabled: '' @ e"
| "error_text (InvalidMetadata m) = ''invalid metadata: '' @ m"
| "error_text InvalidUploadId = ''invalid upload ID''"
| "error_text EmptyConcatenation = ''concatenation requires at least one partial upload URL''"
| "error_text (PartialUploadIncomplete i) = ''partial upload '' @ i @ '' is not yet complete''"
| "error_text (NotPartialUpload i) =
     ''upload '' @ i @ '' is not a partial upload and cannot be used in a concatenation''"
| "error_text PatchOnFinalUpload = ''PATCH is not allowed on a final concatenated upload''"
| "error_text UploadNotReadyForDownload =
     ''upload is not complete or not available for download''"
| "error_text MethodNotAllowed = ''method not allowed''"
| "error_text (LockTimeout i) = ''lock acquisition timed out for upload '' @ i"
| "error_text (LockConflict i) = ''lock is already held for upload '' @ i"
| "error_text (HookRejected m) = ''hook rejected request: '' @ m"
| "error_text (Io e) = ''I/O error: '' @ io_text e"
| "error_text (Serialization m) = ''serialization error: '' @ m"
| "error_text (Internal m) = ''internal error: '' @ m"

fun client_message :: "tus_error \<Rightarrow> string" where
  "client_message (Io e) = ''internal server error''"
| "client_message (Serialization m) = ''internal server error''"
| "client_message (Internal m) = ''internal server error''"
| "client_message e = error_text e"

text \<open>
  \<open>StatusCode::from_u16\<close>, with which the code makes the non-standard 460: the standard range
  of the \<open>http\<close> crate's constructor is 100 to 999.
\<close>

fun status_code :: "tus_error \<Rightarrow> nat" where
  "status_code MissingTusResumable = 412"
| "status_code (UnsupportedVersion v) = 412"
| "status_code MissingUploadOffset = 400"
| "status_code (OffsetMismatch expected actual) = 409"
| "status_code (WrongContentType ct) = 415"
| "status_code (NotFound i) = 404"
| "status_code Gone = 410"
| "status_code (EntityTooLarge m) = 413"
| "status_code (ExceedsUploadLength declared end_offset) = 413"
| "status_code ChecksumMismatch = 460"
| "status_code (UnsupportedChecksumAlgorithm a) = 400"
| "status_code MissingUploadLength = 400"
| "status_code UploadLengthAlreadySet = 400"
| "status_code (ExtensionNotEnabled e) = 404"
| "status_code (InvalidMetadata m) = 400"
| "status_code InvalidUploadId = 400"
| "status_code EmptyConcatenation = 400"
| "status_code (PartialUploadIncomplete i) = 400"
| "status_code (NotPartialUpload i) = 400"
| "status_code PatchOnFinalUpload = 403"
| "status_code UploadNotReadyForDownload = 400"
| "status_code MethodNotAllowed = 405"
| "status_code (LockTimeout i) = 408"
| "status_code (LockConflict i) = 423"
| "status_code (HookRejected m) = 403"
| "status_code (Io e) = 500"
| "status_code (Serialization m) = 500"
| "status_code (Internal m) = 500"

lemma status_code_range: "400 \<le> status_code e \<and> status_code e < 600"
  by (cases e) simp_all

lemma hidden_message_iff: "client_message e \<noteq> error_text e \<longleftrightarrow> status_code e = 500"
  by (cases e) simp_all

lemma client_message_500: "status_code e = 500 \<Longrightarrow> client_message e = ''internal server error''"
  by (cases e) simp_all

end
