(* ===== verification/Upload_Info.thy ===== *)
theory Upload_Info
  imports Tus_Error "HOL-Library.AList"
begin

text \<open>
  \<open>fileloft-core/src/info.rs\<close>: upload identifiers and their validation, the
  \<open>Upload-Metadata\<close> codec, and the record of one upload. Base64 is a third-party crate:
  its decoder and encoder are arguments of the definitions that use them. \<open>UploadId::new\<close>
  is a fresh UUID from outside the program and so an input of the handlers.
\<close>

section \<open>Upload identifiers\<close>

datatype upload_id = UploadId (as_str: string)

text \<open>
  \<open>collides_with_reserved_key\<close>: the loop over the two tokens, each looked up at its last
  occurrence.
\<close>

definition reserved_tail :: "string \<Rightarrow> string \<Rightarrow> bool" where
  "reserved_tail value token =
     (case rfind value token of
        Some pos \<Rightarrow>
          (let tail = drop (pos + length token) value
           in tail \<noteq> [] \<and> list_all is_digit tail)
      | None \<Rightarrow> False)"

definition collides_with_reserved_key :: "string \<Rightarrow> bool" where
  "collides_with_reserved_key value =
     (if ends_with value ''.info'' then True
      else if reserved_tail value ''_part_'' then True
      else if reserved_tail value ''_tmp_'' then True
      else False)"

definition id_char :: "char \<Rightarrow> bool" where
  "id_char b \<longleftrightarrow> is_alnum b \<or> b = CHR ''-'' \<or> b = CHR ''_'' \<or> b = CHR ''.''"

definition validate_str :: "string \<Rightarrow> tus_error + unit" where
  "validate_str value =
     (if value = [] \<or> 128 < length value then Inl InvalidUploadId
      else if value = ''.'' \<or> value = ''..'' \<or> contains value ''..'' then Inl InvalidUploadId
      else if \<not> list_all id_char value then Inl InvalidUploadId
      else if collides_with_reserved_key value then Inl InvalidUploadId
      else Inr ())"

definition upload_id_parse :: "string \<Rightarrow> tus_error + upload_id" where
  "upload_id_parse value = res_bind (validate_str value) (\<lambda>_. Inr (UploadId value))"

definition upload_id_validate :: "upload_id \<Rightarrow> tus_error + unit" where
  "upload_id_validate i = validate_str (as_str i)"

abbreviation valid_id :: "upload_id \<Rightarrow> bool" where
  "valid_id i \<equiv> upload_id_validate i = Inr ()"

lemma validate_str_Inr_iff:
  "validate_str v = Inr () \<longleftrightarrow>
     v \<noteq> [] \<and> length v \<le> 128 \<and> v \<noteq> ''.'' \<and> \<not> contains v ''..'' \<and> list_all id_char v
     \<and> \<not> collides_with_reserved_key v"
  by (auto simp: validate_str_def)

lemma validate_str_Inl: "validate_str v = Inl e \<Longrightarrow> e = InvalidUploadId"
  by (auto simp: validate_str_def split: if_splits)

lemma upload_id_parse_Inr_iff:
  "upload_id_parse v = Inr i \<longleftrightarrow> valid_id i \<and> i = UploadId v"
  by (auto simp: upload_id_parse_def upload_id_validate_def res_bind_Inr_iff)

lemma upload_id_parse_Inl: "upload_id_parse v = Inl e \<Longrightarrow> e = InvalidUploadId"
  by (auto simp: upload_id_parse_def res_bind_def dest: validate_str_Inl split: sum.splits)

lemma upload_id_parse_Inl_iff:
  "upload_id_parse v = Inl e \<longleftrightarrow> e = InvalidUploadId \<and> \<not> valid_id (UploadId v)"
proof (cases "validate_str v")
  case (Inl e')
  then show ?thesis
    using validate_str_Inl [of v e'] by (auto simp: upload_id_parse_def upload_id_validate_def)
next
  case (Inr u)
  then show ?thesis by (simp add: upload_id_parse_def upload_id_validate_def)
qed

section \<open>Metadata\<close>

text \<open>
  \<open>Metadata(HashMap<String, Option<String>>)\<close>. A hash map is the list of its entries with
  distinct keys, in an order the program does not control: where the code iterates, the order is
  an argument.
\<close>

type_synonym metadata = "(string \<times> string option) list"

definition metadata_insert :: "string \<Rightarrow> string option \<Rightarrow> metadata \<Rightarrow> metadata" where
  "metadata_insert k v m = AList.update k v m"

text \<open>One comma-separated pair: \<open>None\<close> for an empty pair, which the loop skips.\<close>

definition parse_pair ::
  "(string \<Rightarrow> string + bytes) \<Rightarrow> string \<Rightarrow> tus_error + (string \<times> string option) option" where
  "parse_pair b64_decode raw =
     (let pair = trim raw
      in if pair = [] then Inr None
         else
           (let (first, rest) =
              (case split_once (CHR '' '') pair of
                 None \<Rightarrow> (pair, None) | Some (a, b) \<Rightarrow> (a, Some b));
              key = trim first
            in if key = [] then Inl (InvalidMetadata ''empty key in metadata'')
               else
                 (case rest of
                    None \<Rightarrow> Inr (Some (key, None))
                  | Some b64 \<Rightarrow>
                      if b64 = [] then Inr (Some (key, None))
                      else
                        (case b64_decode (trim b64) of
                           Inl e \<Rightarrow> Inl (InvalidMetadata e)
                         | Inr decoded \<Rightarrow>
                             (case from_utf8 decoded of
                                Inl e \<Rightarrow> Inl (InvalidMetadata
                                  (''non-UTF8 value for key '' @ key @ '': '' @ e))
                              | Inr val \<Rightarrow> Inr (Some (key, Some val)))))))"

fun parse_pairs ::
  "(string \<Rightarrow> string + bytes) \<Rightarrow> string list \<Rightarrow> metadata \<Rightarrow> tus_error + metadata" where
  "parse_pairs b64_decode [] m = Inr m"
| "parse_pairs b64_decode (p # ps) m =
     (case parse_pair b64_decode p of
        Inl e \<Rightarrow> Inl e
      | Inr None \<Rightarrow> parse_pairs b64_decode ps m
      | Inr (Some (k, v)) \<Rightarrow> parse_pairs b64_decode ps (metadata_insert k v m))"

definition metadata_parse :: "(string \<Rightarrow> string + bytes) \<Rightarrow> string \<Rightarrow> tus_error + metadata" where
  "metadata_parse b64_decode header = parse_pairs b64_decode (split_on (CHR '','') header) []"

fun encode_entry :: "(bytes \<Rightarrow> string) \<Rightarrow> string \<times> string option \<Rightarrow> string" where
  "encode_entry b64_encode (k, None) = k"
| "encode_entry b64_encode (k, Some v) = k @ '' '' @ b64_encode v"

text \<open>\<open>ord\<close> is the order in which the hash map yields its entries.\<close>

definition metadata_encode ::
  "(metadata \<Rightarrow> metadata) \<Rightarrow> (bytes \<Rightarrow> string) \<Rightarrow> metadata \<Rightarrow> string" where
  "metadata_encode ord b64_encode m = join '','' (map (encode_entry b64_encode) (ord m))"

definition metadata_get :: "metadata \<Rightarrow> string \<Rightarrow> string option option" where
  "metadata_get m k = map_of m k"

definition metadata_is_empty :: "metadata \<Rightarrow> bool" where
  "metadata_is_empty m = (m = [])"

section \<open>The record of an upload\<close>

text \<open>Points in time are nanoseconds since the epoch.\<close>

record upload_info =
  info_id :: upload_id
  info_size :: "u64 option"
  info_offset :: u64
  info_metadata :: metadata
  info_size_is_deferred :: bool
  info_expires_at :: "int option"
  info_is_partial :: bool
  info_is_final :: bool
  info_partial_uploads :: "upload_id list"
  info_storage :: "(string \<times> string) list"

definition upload_info_new :: "upload_id \<Rightarrow> u64 option \<Rightarrow> upload_info" where
  "upload_info_new i sz =
     \<lparr>info_id = i, info_size = sz, info_offset = 0, info_metadata = [],
      info_size_is_deferred = (sz = None), info_expires_at = None, info_is_partial = False,
      info_is_final = False, info_partial_uploads = [], info_storage = []\<rparr>"

definition is_complete :: "upload_info \<Rightarrow> bool" where
  "is_complete info = (case info_size info of Some s \<Rightarrow> info_offset info = s | None \<Rightarrow> False)"

text \<open>What a \<open>pre_create\<close> hook may override.\<close>

record upload_info_changes =
  ch_id :: "upload_id option"
  ch_metadata :: "metadata option"
  ch_storage :: "(string \<times> string) list option"

lemma is_complete_iff: "is_complete i \<longleftrightarrow> info_size i = Some (info_offset i)"
  by (auto simp: is_complete_def split: option.splits)

end
