(* ===== verification/Tus_Config.thy ===== *)
theory Tus_Config
  imports Upload_Info
begin

text \<open>
  \<open>fileloft-core/src/config.rs\<close> and \<open>hooks.rs\<close>: the configuration records with their
  defaults, the lifecycle events and the hook callbacks. A callback is user code and so a
  function of the configuration. Durations are seconds (\<open>lock_timeout\<close>) or nanoseconds
  (\<open>expiration_ttl\<close>), as natural numbers.
\<close>

section \<open>Hooks\<close>

datatype hook_event =
    UploadCreated upload_info
  | UploadFinished upload_info
  | UploadTerminated upload_id
  | UploadProgress upload_info

record hook_config =
  channel_capacity :: nat
  pre_create :: "(upload_info \<Rightarrow> tus_error + upload_info_changes) option"
  pre_finish :: "(upload_info \<Rightarrow> tus_error + unit) option"
  pre_terminate :: "(upload_info \<Rightarrow> tus_error + unit) option"

definition hook_config_default :: hook_config where
  "hook_config_default =
     \<lparr>channel_capacity = 0, pre_create = None, pre_finish = None, pre_terminate = None\<rparr>"

definition has_hooks :: "hook_config \<Rightarrow> bool" where
  "has_hooks h \<longleftrightarrow>
     0 < channel_capacity h \<or> pre_create h \<noteq> None \<or> pre_finish h \<noteq> None
     \<or> pre_terminate h \<noteq> None"

section \<open>Configuration\<close>

record cors_config =
  cors_enabled :: bool
  cors_allow_origin :: string
  cors_allow_credentials :: bool
  cors_extra_allow_headers :: "string list"
  cors_extra_expose_headers :: "string list"
  cors_max_age :: u64

definition cors_config_default :: cors_config where
  "cors_config_default =
     \<lparr>cors_enabled = False, cors_allow_origin = ''*'', cors_allow_credentials = False,
      cors_extra_allow_headers = [], cors_extra_expose_headers = [], cors_max_age = 86400\<rparr>"

record extensions =
  ext_creation :: bool
  ext_creation_with_upload :: bool
  ext_creation_defer_length :: bool
  ext_expiration :: bool
  ext_expiration_ttl :: "nat option"
  ext_checksum :: bool
  ext_checksum_trailer :: bool
  ext_termination :: bool
  ext_concatenation :: bool
  ext_cleanup_concat_partials :: bool

definition extensions_default :: extensions where
  "extensions_default =
     \<lparr>ext_creation = True, ext_creation_with_upload = True, ext_creation_defer_length = True,
      ext_expiration = False, ext_expiration_ttl = None, ext_checksum = True,
      ext_checksum_trailer = False, ext_termination = True, ext_concatenation = False,
      ext_cleanup_concat_partials = False\<rparr>"

record config =
  cfg_base_path :: string
  cfg_base_url :: "string option"
  cfg_max_size :: u64
  cfg_extensions :: extensions
  cfg_lock_timeout :: nat
  cfg_cors :: cors_config
  cfg_trust_forwarded_headers :: bool
  cfg_hooks :: hook_config
  cfg_enable_download :: bool

definition config_default :: config where
  "config_default =
     \<lparr>cfg_base_path = ''/files/'', cfg_base_url = None, cfg_max_size = 0,
      cfg_extensions = extensions_default, cfg_lock_timeout = 20, cfg_cors = cors_config_default,
      cfg_trust_forwarded_headers = False, cfg_hooks = hook_config_default,
      cfg_enable_download = False\<rparr>"

lemma default_has_no_hooks: "\<not> has_hooks (cfg_hooks config_default)"
  by (simp add: has_hooks_def config_default_def hook_config_default_def)

end
