(* ===== verification/Tus_Util.thy ===== *)
theory Tus_Util
  imports Tus_Config
begin

text \<open>
  \<open>fileloft-core/src/util.rs\<close>: reading the request headers. \<open>hv_ok\<close> is the third-party
  test whether a string is accepted as a header value.
\<close>

definition check_tus_resumable :: "header_map \<Rightarrow> tus_error + unit" where
  "check_tus_resumable headers =
     (case headers HDR_TUS_RESUMABLE of
        None \<Rightarrow> Inl MissingTusResumable
      | Some v \<Rightarrow>
          (let s = (case to_str v of Some t \<Rightarrow> t | None \<Rightarrow> [])
           in if s = TUS_VERSION then Inr () else Inl (UnsupportedVersion s)))"

text \<open>\<open>headers.get(name).and_then(|v| v.to_str().ok())\<close>\<close>

definition get_str :: "header_map \<Rightarrow> header_name \<Rightarrow> string option" where
  "get_str headers name = Option.bind (headers name) to_str"

definition parse_upload_offset :: "header_map \<Rightarrow> tus_error + u64" where
  "parse_upload_offset headers =
     (case headers HDR_UPLOAD_OFFSET of
        None \<Rightarrow> Inl MissingUploadOffset
      | Some v \<Rightarrow> opt_to_res MissingUploadOffset (Option.bind (to_str v) parse_u64))"

definition parse_upload_length :: "header_map \<Rightarrow> tus_error + u64 option" where
  "parse_upload_length headers =
     (case headers HDR_UPLOAD_LENGTH of
        None \<Rightarrow> Inr None
      | Some v \<Rightarrow>
          (case Option.bind (to_str v) parse_u64 of
             Some n \<Rightarrow> Inr (Some n)
           | None \<Rightarrow> Inl (InvalidMetadata ''invalid Upload-Length value'')))"

definition has_defer_length :: "header_map \<Rightarrow> bool" where
  "has_defer_length headers =
     (case get_str headers HDR_UPLOAD_DEFER_LENGTH of
        Some s \<Rightarrow> trim s = ''1'' | None \<Rightarrow> False)"

definition u64_header :: "(string \<Rightarrow> bool) \<Rightarrow> u64 \<Rightarrow> string" where
  "u64_header hv_ok n = (if hv_ok (dec_u64 n) then dec_u64 n else ''0'')"

text \<open>\<open>s.split(',').next()\<close>: the text up to the first comma.\<close>

definition first_segment :: "string \<Rightarrow> string" where
  "first_segment s = hd (split_on (CHR '','') s)"

definition nonempty_or :: "string \<Rightarrow> string option \<Rightarrow> string" where
  "nonempty_or d v = (case v of Some s \<Rightarrow> if s = [] then d else s | None \<Rightarrow> d)"

definition request_base_url :: "config \<Rightarrow> header_map \<Rightarrow> string" where
  "request_base_url cfg headers =
     (case cfg_base_url cfg of
        Some base \<Rightarrow> trim_end_matches (CHR ''/'') base
      | None \<Rightarrow>
          (let scheme =
                 (if cfg_trust_forwarded_headers cfg
                  then nonempty_or ''http''
                         (map_option (\<lambda>s. trim (first_segment s))
                           (get_str headers HDR_X_FORWARDED_PROTO))
                  else ''http'');
               host =
                 (if cfg_trust_forwarded_headers cfg
                  then nonempty_or ''localhost''
                         (map_option (\<lambda>s. trim (first_segment s))
                           (Option.bind
                              (case headers HDR_X_FORWARDED_HOST of
                                 Some v \<Rightarrow> Some v | None \<Rightarrow> headers HDR_HOST)
                              to_str))
                  else (case get_str headers HDR_HOST of Some s \<Rightarrow> s | None \<Rightarrow> ''localhost''))
           in scheme @ ''://'' @ host))"

lemma check_tus_resumable_Inr_iff:
  "check_tus_resumable headers = Inr () \<longleftrightarrow> get_str headers HDR_TUS_RESUMABLE = Some TUS_VERSION"
  by (auto simp: check_tus_resumable_def get_str_def TUS_VERSION_def bind_eq_Some_conv
      split: option.splits)

lemma check_tus_resumable_Inl:
  assumes "check_tus_resumable headers = Inl e"
  shows "status_code e = 412"
  using assms by (auto simp: check_tus_resumable_def Let_def split: option.splits if_splits)

lemma parse_upload_offset_Inr_iff:
  "parse_upload_offset headers = Inr n \<longleftrightarrow>
     (\<exists>s. get_str headers HDR_UPLOAD_OFFSET = Some s \<and> parse_u64 s = Some n)"
  by (auto simp: parse_upload_offset_def get_str_def bind_eq_Some_conv split: option.splits)

lemma parse_upload_offset_Inl: "parse_upload_offset headers = Inl e \<Longrightarrow> e = MissingUploadOffset"
  by (auto simp: parse_upload_offset_def split: option.splits)

text \<open>
  A header the server writes with \<open>u64_header\<close> is read back to the same number, for every
  number of the type: a client that echoes \<open>Upload-Offset\<close> is understood.
\<close>

lemma u64_header_parse:
  assumes "hv_ok (dec_u64 n)"
  shows "parse_u64 (u64_header hv_ok n) = Some n"
  using assms by (simp add: u64_header_def dec_u64_def parse_u64_dec)

end
