(* ===== verification/Tus_Checksum.thy ===== *)
theory Tus_Checksum
  imports Tus_Util
begin

text \<open>
  \<open>fileloft-core/src/checksum.rs\<close> and the asynchronous readers the bodies arrive on. A reader
  is the sequence of what it will yield: chunks of bytes, then the end or a failure. The digest
  functions are third-party code: \<open>digest alg bytes\<close> is the hash of all the bytes fed to a
  hasher of the algorithm \<open>alg\<close>, in order.
\<close>

section \<open>Readers\<close>

datatype read_event = Chunk bytes | Fault io_error

type_synonym reader = "read_event list"

text \<open>\<open>AsyncReadExt::read_to_end\<close>\<close>

fun read_to_end :: "reader \<Rightarrow> io_error + bytes" where
  "read_to_end [] = Inr []"
| "read_to_end (Chunk b # r) =
     (case read_to_end r of Inl e \<Rightarrow> Inl e | Inr bs \<Rightarrow> Inr (b @ bs))"
| "read_to_end (Fault e # r) = Inl e"

text \<open>With \<open>?\<close> the I/O error becomes \<open>TusError::Io\<close>.\<close>

definition read_all :: "reader \<Rightarrow> tus_error + bytes" where
  "read_all r = (case read_to_end r of Inl e \<Rightarrow> Inl (Io e) | Inr b \<Rightarrow> Inr b)"

lemma read_all_chunk [simp]: "read_all [Chunk b] = Inr b"
  by (simp add: read_all_def)

section \<open>Algorithms\<close>

datatype checksum_algorithm = Sha1 | Sha256 | Md5

fun algorithm_as_str :: "checksum_algorithm \<Rightarrow> string" where
  "algorithm_as_str Sha1 = ''sha1''"
| "algorithm_as_str Sha256 = ''sha256''"
| "algorithm_as_str Md5 = ''md5''"

definition algorithm_from_str :: "string \<Rightarrow> tus_error + checksum_algorithm" where
  "algorithm_from_str s =
     (let t = map lower s
      in if t = ''sha1'' then Inr Sha1
         else if t = ''sha256'' then Inr Sha256
         else if t = ''md5'' then Inr Md5
         else Inl (UnsupportedChecksumAlgorithm t))"

definition algorithms_header :: string where
  "algorithms_header = join '','' SUPPORTED_CHECKSUM_ALGORITHMS"

definition parse_checksum_header ::
  "(string \<Rightarrow> string + bytes) \<Rightarrow> string \<Rightarrow> tus_error + checksum_algorithm \<times> bytes" where
  "parse_checksum_header b64_decode value =
     (case split_once (CHR '' '') value of
        None \<Rightarrow> Inl (InvalidMetadata
          ''malformed Upload-Checksum header (expected '<alg> <base64>')'')
      | Some (alg_str, b64) \<Rightarrow>
          res_bind (algorithm_from_str alg_str) (\<lambda>algorithm.
            (case b64_decode (trim b64) of
               Inl e \<Rightarrow> Inl (InvalidMetadata (''bad base64 in Upload-Checksum: '' @ e))
             | Inr hash \<Rightarrow> Inr (algorithm, hash))))"

section \<open>Polling\<close>

text \<open>
  \<open>poll_read\<close> fills a buffer the caller brings, a \<open>ReadBuf\<close>: some bytes are in it already, and it has
  room for more. The inner reader puts as many bytes of its next chunk into the buffer as there is room
  for and keeps the rest; \<open>ready\<close> is whether it has something to give. Nothing put into the buffer means
  the end, so a reader does not stop at an empty chunk.
\<close>

datatype 'a poll = Ready 'a | Pending

record read_buf =
  rb_filled :: bytes
  rb_capacity :: nat

fun inner_poll_read :: "bool \<Rightarrow> reader \<Rightarrow> read_buf \<Rightarrow> (io_error + unit) poll \<times> reader \<times> read_buf" where
  "inner_poll_read False inner buf = (Pending, inner, buf)"
| "inner_poll_read True [] buf = (Ready (Inr ()), [], buf)"
| "inner_poll_read True (Fault e # rest) buf = (Ready (Inl e), rest, buf)"
| "inner_poll_read True (Chunk b # rest) buf =
     (if b = [] then inner_poll_read True rest buf
      else let room = rb_capacity buf - length (rb_filled buf)
           in (Ready (Inr ()),
               if length b \<le> room then rest else Chunk (drop room b) # rest,
               buf\<lparr>rb_filled := rb_filled buf @ take room b\<rparr>))"

section \<open>The checksum reader\<close>

text \<open>
  \<open>ChecksumReader\<close>: the wrapped reader, the hasher with the bytes it was fed and the expected hash.
  Its \<open>poll_read\<close> feeds the hasher the bytes behind those the buffer held before.
\<close>

record checksum_reader =
  cr_inner :: reader
  cr_algorithm :: checksum_algorithm
  cr_hashed :: bytes
  cr_expected :: bytes

definition checksum_reader_new :: "reader \<Rightarrow> checksum_algorithm \<Rightarrow> bytes \<Rightarrow> checksum_reader" where
  "checksum_reader_new inner algorithm expected =
     \<lparr>cr_inner = inner, cr_algorithm = algorithm, cr_hashed = [], cr_expected = expected\<rparr>"

definition checksum_poll_read ::
  "bool \<Rightarrow> checksum_reader \<Rightarrow> read_buf \<Rightarrow> (io_error + unit) poll \<times> checksum_reader \<times> read_buf"
where
  "checksum_poll_read ready me buf =
     (let before = length (rb_filled buf);
          (result, inner', buf') = inner_poll_read ready (cr_inner me) buf;
          me' = me\<lparr>cr_inner := inner'\<rparr>
      in case result of
           Ready (Inr _) \<Rightarrow>
             (let filled = drop before (rb_filled buf')
              in (result,
                  if filled \<noteq> [] then me'\<lparr>cr_hashed := cr_hashed me' @ filled\<rparr> else me',
                  buf'))
         | _ \<Rightarrow> (result, me', buf'))"

text \<open>
  \<open>read_to_end\<close> of \<open>tokio\<close> through this reader. How it polls is not the code's: a round is how often the
  reader is not ready first, how many bytes of the vector are outside the buffer (all of them, when a
  small probe is used, or none) and how much more room there is than the one byte every buffer has. (The
  last branch of the function is never taken: after its waits the reader is ready.)
\<close>

record poll_round =
  pr_waits :: nat
  pr_outside :: nat
  pr_more :: nat

fun poll_until_ready ::
  "nat \<Rightarrow> checksum_reader \<Rightarrow> read_buf \<Rightarrow> (io_error + unit) poll \<times> checksum_reader \<times> read_buf"
where
  "poll_until_ready 0 me buf = checksum_poll_read True me buf"
| "poll_until_ready (Suc n) me buf =
     (case checksum_poll_read False me buf of (_, me', buf') \<Rightarrow> poll_until_ready n me' buf')"

definition round_buf :: "poll_round \<Rightarrow> bytes \<Rightarrow> read_buf" where
  "round_buf r vec =
     (let filled = drop (pr_outside r) vec
      in \<lparr>rb_filled = filled, rb_capacity = Suc (length filled + pr_more r)\<rparr>)"

lemma inner_poll_pending [simp]: "inner_poll_read False inner buf = (Pending, inner, buf)"
  by (cases inner) simp_all

lemma checksum_poll_pending [simp]: "checksum_poll_read False me buf = (Pending, me, buf)"
  by (simp add: checksum_poll_read_def)

lemma poll_until_ready_eq: "poll_until_ready n me buf = checksum_poll_read True me buf"
  by (induction n) simp_all

text \<open>
  One poll that is ready, with room in the buffer: the next bytes of the reader are put behind what was
  there, none only at the end.
\<close>

fun reader_bytes :: "reader \<Rightarrow> nat" where
  "reader_bytes [] = 0"
| "reader_bytes (Chunk b # r) = length b + reader_bytes r"
| "reader_bytes (Fault e # r) = reader_bytes r"

definition delivers :: "reader \<Rightarrow> bytes \<Rightarrow> (io_error + unit) poll \<Rightarrow> reader \<Rightarrow> bool" where
  "delivers inner new result inner' \<longleftrightarrow>
     (case result of
        Pending \<Rightarrow> False
      | Ready (Inl e) \<Rightarrow> new = [] \<and> read_to_end inner = Inl e
      | Ready (Inr _) \<Rightarrow>
          read_to_end inner = map_sum id ((@) new) (read_to_end inner')
          \<and> (if new = [] then read_to_end inner = Inr [] else reader_bytes inner' < reader_bytes inner))"

lemma inner_poll_ready:
  assumes "inner_poll_read True inner buf = (result, inner', buf')"
    and "length (rb_filled buf) < rb_capacity buf"
  shows "\<exists>new. buf' = buf\<lparr>rb_filled := rb_filled buf @ new\<rparr>
     \<and> length (rb_filled buf @ new) \<le> rb_capacity buf \<and> delivers inner new result inner'"
  using assms
proof (induction True inner buf rule: inner_poll_read.induct)
  case (2 buf)
  then show ?case by (intro exI [of _ "[]"]) (auto simp: delivers_def)
next
  case (3 e rest buf)
  then show ?case by (intro exI [of _ "[]"]) (auto simp: delivers_def)
next
  case (4 b rest buf)
  let ?room = "rb_capacity buf - length (rb_filled buf)"
  show ?case
  proof (cases "b = []")
    case True
    with 4 have "inner_poll_read True rest buf = (result, inner', buf')" by simp
    with 4(1) [OF True] 4(3) obtain new where new: "buf' = buf\<lparr>rb_filled := rb_filled buf @ new\<rparr>"
      "length (rb_filled buf @ new) \<le> rb_capacity buf" "delivers rest new result inner'" by blast
    have skip: "read_to_end (Chunk b # rest) = read_to_end rest" by (simp add: True split: sum.split)
    have "delivers (Chunk b # rest) new result inner' = delivers rest new result inner'"
      unfolding delivers_def skip using True by (simp split: poll.split sum.split)
    with new show ?thesis by (intro exI [of _ new]) simp
  next
    case False
    with 4(2) have out: "result = Ready (Inr ())" "buf' = buf\<lparr>rb_filled := rb_filled buf @ take ?room b\<rparr>"
      "inner' = (if length b \<le> ?room then rest else Chunk (drop ?room b) # rest)"
      by (simp_all add: Let_def split: if_splits)
    have "take ?room b @ drop ?room b @ bs = b @ bs" for bs
      by (simp only: append_assoc [symmetric] append_take_drop_id)
    then have "delivers (Chunk b # rest) (take ?room b) result inner'"
      using False 4(3) by (auto simp: delivers_def out split: sum.split)
    then show ?thesis using 4(3) by (intro exI [of _ "take ?room b"]) (simp add: out)
  qed
qed simp_all

lemma delivers_end: "delivers inner [] (Ready (Inr u)) inner' \<Longrightarrow> read_to_end inner = Inr []"
  by (auto simp only: delivers_def poll.case sum.case if_True refl)

text \<open>The checksum reader passes the poll on, and hashes what it delivered, wherever the buffer stood.\<close>

lemma checksum_poll_ready:
  assumes "checksum_poll_read True me buf = (result, me', buf')"
    and "length (rb_filled buf) < rb_capacity buf"
  shows "\<exists>new. buf' = buf\<lparr>rb_filled := rb_filled buf @ new\<rparr>
     \<and> me' = me\<lparr>cr_inner := cr_inner me', cr_hashed := cr_hashed me @ new\<rparr>
     \<and> delivers (cr_inner me) new result (cr_inner me')"
proof -
  obtain res inner' b' where p: "inner_poll_read True (cr_inner me) buf = (res, inner', b')"
    by (metis prod_cases3)
  from inner_poll_ready [OF p assms(2)] obtain new where new:
    "b' = buf\<lparr>rb_filled := rb_filled buf @ new\<rparr>" "delivers (cr_inner me) new res inner'" by blast
  consider (err) e where "res = Ready (Inl e)" "new = []" | (ok) "res = Ready (Inr ())"
    using new(2) by (auto simp: delivers_def split: poll.splits sum.splits)
  then show ?thesis
  proof cases
    case err
    then have "result = res" "buf' = b'" "me' = me\<lparr>cr_inner := inner'\<rparr>"
      using assms(1) p by (simp_all add: checksum_poll_read_def)
    then show ?thesis using new err(2) by (intro exI [of _ "[]"]) simp
  next
    case ok
    have "checksum_poll_read True me buf
        = (res, me\<lparr>cr_inner := inner', cr_hashed := cr_hashed me @ new\<rparr>, b')"
      unfolding checksum_poll_read_def Let_def p ok new(1) by (cases "new = []") simp_all
    then have "result = res" "buf' = b'"
      "me' = me\<lparr>cr_inner := inner', cr_hashed := cr_hashed me @ new\<rparr>"
      using assms(1) by simp_all
    then show ?thesis using new by (intro exI [of _ new]) simp
  qed
qed

text \<open>In any poll at all, also a pending or failing one, what is hashed is what is delivered.\<close>

lemma inner_poll_appends:
  "case inner_poll_read ready inner buf of (res, inner', buf') \<Rightarrow>
     \<exists>new. buf' = buf\<lparr>rb_filled := rb_filled buf @ new\<rparr> \<and> (new = [] \<or> res = Ready (Inr ()))"
  by (induction ready inner buf rule: inner_poll_read.induct)
     (auto simp: Let_def intro: exI [of _ "[]"] split: prod.splits)

lemma checksum_poll_hashes:
  "\<exists>new. snd (snd (checksum_poll_read ready me buf)) = buf\<lparr>rb_filled := rb_filled buf @ new\<rparr>
     \<and> cr_hashed (fst (snd (checksum_poll_read ready me buf))) = cr_hashed me @ new"
  using inner_poll_appends [where ready = ready and inner = "cr_inner me" and buf = buf]
  by (auto simp: checksum_poll_read_def Let_def split: prod.splits poll.splits sum.splits)

lemma checksum_poll_smaller:
  assumes "checksum_poll_read True me buf = (Ready (Inr u), me', buf')"
    and "length (rb_filled buf) < rb_capacity buf" and "length (rb_filled buf) < length (rb_filled buf')"
  shows "reader_bytes (cr_inner me') < reader_bytes (cr_inner me)"
  using checksum_poll_ready [OF assms(1,2)] assms(3) by (auto simp: delivers_def split: if_splits)

lemma round_buf_room: "length (rb_filled (round_buf r vec)) < rb_capacity (round_buf r vec)"
  by (simp add: round_buf_def Let_def)

function checksum_read_to_end ::
  "(nat \<Rightarrow> poll_round) \<Rightarrow> nat \<Rightarrow> checksum_reader \<Rightarrow> bytes \<Rightarrow> (io_error + bytes) \<times> checksum_reader"
where
  "checksum_read_to_end rounds k me vec =
     (let buf = round_buf (rounds k) vec
      in case poll_until_ready (pr_waits (rounds k)) me buf of
           (Ready (Inl e), me', _) \<Rightarrow> (Inl e, me')
         | (Ready (Inr _), me', buf') \<Rightarrow>
             if length (rb_filled buf') \<le> length (rb_filled buf) then (Inr vec, me')
             else checksum_read_to_end rounds (Suc k) me'
                    (take (pr_outside (rounds k)) vec @ rb_filled buf')
         | (Pending, me', _) \<Rightarrow> (Inr vec, me'))"
  by pat_completeness auto
termination
  by (relation "measure (\<lambda>(rounds, k, me, vec). reader_bytes (cr_inner me))")
     (auto simp: poll_until_ready_eq not_le
        dest!: checksum_poll_smaller [OF sym round_buf_room])

declare checksum_read_to_end.simps [simp del]

definition checksum_verify ::
  "(checksum_algorithm \<Rightarrow> bytes \<Rightarrow> bytes) \<Rightarrow> checksum_reader \<Rightarrow> tus_error + unit" where
  "checksum_verify digest me =
     (if digest (cr_algorithm me) (cr_hashed me) = cr_expected me then Inr ()
      else Inl ChecksumMismatch)"

lemma algorithm_roundtrip: "algorithm_from_str (algorithm_as_str a) = Inr a"
  by (cases a) (simp_all add: algorithm_from_str_def Let_def)

lemma map_sum_append_Nil [simp]: "map_sum id ((@) []) r = r"
  by (cases r) simp_all

text \<open>
  However it is polled, the reader is transparent, and after a successful read it has hashed exactly the
  bytes it delivered.
\<close>

lemma checksum_read_to_end_spec:
  assumes "checksum_read_to_end rounds k me vec = (res, me')"
  shows "res = map_sum id ((@) vec) (read_to_end (cr_inner me))
     \<and> cr_algorithm me' = cr_algorithm me \<and> cr_expected me' = cr_expected me
     \<and> (\<forall>b. read_to_end (cr_inner me) = Inr b \<longrightarrow> cr_hashed me' = cr_hashed me @ b)"
  using assms
proof (induction rounds k me vec rule: checksum_read_to_end.induct)
  case (1 rounds k me vec)
  let ?buf = "round_buf (rounds k) vec"
  obtain result me1 buf' where p: "checksum_poll_read True me ?buf = (result, me1, buf')"
    by (metis prod_cases3)
  from checksum_poll_ready [OF p round_buf_room] obtain new where
    buf': "buf' = ?buf\<lparr>rb_filled := rb_filled ?buf @ new\<rparr>"
    and me1: "me1 = me\<lparr>cr_inner := cr_inner me1, cr_hashed := cr_hashed me @ new\<rparr>"
    and d: "delivers (cr_inner me) new result (cr_inner me1)" by blast
  have sel: "cr_hashed me1 = cr_hashed me @ new" "cr_algorithm me1 = cr_algorithm me"
    "cr_expected me1 = cr_expected me" by (subst me1, simp)+
  have u: "poll_until_ready (pr_waits (rounds k)) me ?buf = (result, me1, buf')"
    by (simp add: poll_until_ready_eq p)
  consider (failed) e where "result = Ready (Inl e)" | (ended) u where "result = Ready (Inr u)" "new = []"
    | (more) u where "result = Ready (Inr u)" "new \<noteq> []"
    using d by (auto simp: delivers_def split: poll.splits sum.splits)
  then show ?case
  proof cases
    case failed
    then show ?thesis
      using 1(2) d sel u by (auto simp: checksum_read_to_end.simps [of rounds] Let_def delivers_def)
  next
    case ended
    then have "read_to_end (cr_inner me) = Inr []" using d delivers_end by blast
    then show ?thesis
      using 1(2) ended sel u by (auto simp: checksum_read_to_end.simps [of rounds] Let_def delivers_def buf')
  next
    case more
    let ?vec = "take (pr_outside (rounds k)) vec @ rb_filled buf'"
    have "?vec = vec @ new" by (simp add: buf' round_buf_def Let_def flip: append_assoc)
    have grown: "\<not> length (rb_filled buf') \<le> length (rb_filled ?buf)" using more(2) by (simp add: buf')
    have next_round: "checksum_read_to_end rounds (Suc k) me1 ?vec = (res, me')"
      using 1(2) more grown u by (simp add: checksum_read_to_end.simps [of rounds k me vec] Let_def)
    note IH = 1(1) [OF refl u [symmetric] more(1) refl refl grown next_round]
    have "read_to_end (cr_inner me) = map_sum id ((@) new) (read_to_end (cr_inner me1))"
      using d more by (simp add: delivers_def)
    with IH \<open>?vec = vec @ new\<close> sel show ?thesis
      by (cases "read_to_end (cr_inner me1)") auto
  qed
qed

end
