(* ===== verification/Tus_Store.thy ===== *)
theory Tus_Store
  imports Tus_Checksum
begin

text \<open>
  \<open>fileloft-core/src/store.rs\<close>: the traits \<open>DataStore\<close> and \<open>Upload\<close> as a record of
  operations over a store state \<open>'s\<close>. An upload handle is the identifier it was opened with:
  every implementation's handle holds the identifier and a shared reference to the store. The
  locale \<open>opened_store\<close> is the contract the request handlers rely on once an upload exists: how
  each operation changes the stored \<open>UploadInfo\<close> records, seen through \<open>info_of\<close>, under an
  invariant \<open>inv\<close> of the implementation. \<open>upload_store\<close> adds creation.
\<close>

record 's datastore =
  ds_create_upload :: "upload_info \<Rightarrow> ('s, upload_id) op"
  ds_get_upload :: "upload_id \<Rightarrow> ('s, upload_id) op"
  up_write_chunk :: "upload_id \<Rightarrow> u64 \<Rightarrow> reader \<Rightarrow> ('s, u64) op"
  up_get_info :: "upload_id \<Rightarrow> ('s, upload_info) op"
  up_finalize :: "upload_id \<Rightarrow> ('s, unit) op"
  up_delete :: "upload_id \<Rightarrow> ('s, unit) op"
  up_declare_length :: "upload_id \<Rightarrow> u64 \<Rightarrow> ('s, unit) op"
  up_concatenate :: "upload_id \<Rightarrow> upload_info list \<Rightarrow> ('s, unit) op"
  up_read_content :: "upload_id \<Rightarrow> ('s, reader) op"

text \<open>
  What a chunk of length \<open>n\<close> at \<open>off\<close> may do to a record: advance the offset without
  overflow and within the declared size.
\<close>

definition chunk_fits :: "upload_info \<Rightarrow> u64 \<Rightarrow> u64 \<Rightarrow> bool" where
  "chunk_fits i off n \<longleftrightarrow>
     checked_add off n \<noteq> None
     \<and> (case info_size i of None \<Rightarrow> True | Some d \<Rightarrow> off + n \<le> d)"

text \<open>
  What a reader yields is collected in a \<open>Vec\<close>, whose length is below \<open>2 ^ 63\<close>: no caller
  can supply more.
\<close>

definition fits_vec :: "reader \<Rightarrow> bool" where
  "fits_vec r = (case read_to_end r of Inl e \<Rightarrow> True | Inr b \<Rightarrow> length b < 2 ^ 63)"

text \<open>What \<open>declare_length\<close> does to a record.\<close>

definition with_length :: "u64 \<Rightarrow> upload_info \<Rightarrow> upload_info" where
  "with_length n i = i\<lparr>info_size := Some n, info_size_is_deferred := False\<rparr>"

text \<open>What \<open>concatenate\<close> does to a record, given the total it computes.\<close>

definition with_total :: "u64 \<Rightarrow> upload_info \<Rightarrow> upload_info" where
  "with_total n i = i\<lparr>info_size := Some n, info_offset := n, info_is_final := True\<rparr>"

locale opened_store =
  fixes ops :: "'s datastore"
    and info_of :: "'s \<Rightarrow> upload_id \<Rightarrow> upload_info option"
    and inv :: "'s \<Rightarrow> bool"
  assumes get_present:
    "inv s \<Longrightarrow> valid_id i \<Longrightarrow> info_of s i \<noteq> None \<Longrightarrow> ds_get_upload ops i s = (Inr i, s)"
    and get_missing:
    "inv s \<Longrightarrow> valid_id i \<Longrightarrow> info_of s i = None \<Longrightarrow>
       ds_get_upload ops i s = (Inl (NotFound (as_str i)), s)"
    and get_info_present:
    "inv s \<Longrightarrow> info_of s i = Some x \<Longrightarrow> up_get_info ops i s = (Inr x, s)"
    and write_ok:
    "inv s \<Longrightarrow> info_of s i = Some x \<Longrightarrow> fits_vec r \<Longrightarrow>
       up_write_chunk ops i off r s = (Inr n, s') \<Longrightarrow>
       inv s' \<and> (\<exists>b. read_to_end r = Inr b \<and> n = len_u64 b) \<and> chunk_fits x off n
       \<and> info_of s' = (info_of s)(i \<mapsto> x\<lparr>info_offset := off + n\<rparr>)"
    and write_err:
    "inv s \<Longrightarrow> info_of s i = Some x \<Longrightarrow> fits_vec r \<Longrightarrow>
       up_write_chunk ops i off r s = (Inl e, s') \<Longrightarrow> inv s' \<and> info_of s' = info_of s"
    and finalize_any:
    "inv s \<Longrightarrow> info_of s i = Some x \<Longrightarrow> up_finalize ops i s = (res, s') \<Longrightarrow>
       inv s' \<and> info_of s' = info_of s"
    and declare_ok:
    "inv s \<Longrightarrow> info_of s i = Some x \<Longrightarrow> up_declare_length ops i n s = (Inr u, s') \<Longrightarrow>
       inv s' \<and> info_size x = None \<and> info_of s' = (info_of s)(i \<mapsto> with_length n x)"
    and declare_err:
    "inv s \<Longrightarrow> info_of s i = Some x \<Longrightarrow> up_declare_length ops i n s = (Inl e, s') \<Longrightarrow>
       inv s' \<and> info_of s' = info_of s"
    and delete_ok:
    "inv s \<Longrightarrow> info_of s i = Some x \<Longrightarrow> up_delete ops i s = (Inr u, s') \<Longrightarrow>
       inv s' \<and> info_of s' = (info_of s)(i := None)"
    and concat_ok:
    "inv s \<Longrightarrow> info_of s i = Some x \<Longrightarrow> (\<And>p. p \<in> set ps \<Longrightarrow> info_of s (info_id p) = Some p) \<Longrightarrow>
       up_concatenate ops i ps s = (Inr u, s') \<Longrightarrow>
       inv s' \<and> (\<exists>n. info_of s' = (info_of s)(i \<mapsto> with_total n x))"
    and concat_err:
    "inv s \<Longrightarrow> info_of s i = Some x \<Longrightarrow> (\<And>p. p \<in> set ps \<Longrightarrow> info_of s (info_id p) = Some p) \<Longrightarrow>
       up_concatenate ops i ps s = (Inl e, s') \<Longrightarrow> inv s' \<and> info_of s' = info_of s"
    and read_any:
    "inv s \<Longrightarrow> info_of s i = Some x \<Longrightarrow> up_read_content ops i s = (res', s') \<Longrightarrow> s' = s"

text \<open>With creation: a fresh identifier of any valid shape may be taken.\<close>

locale upload_store = opened_store +
  assumes create_ok:
    "inv s \<Longrightarrow> valid_id (info_id x) \<Longrightarrow> ds_create_upload ops x s = (Inr h, s') \<Longrightarrow>
       h = info_id x \<and> inv s' \<and> info_of s' = (info_of s)(info_id x \<mapsto> x)"
    and create_err:
    "inv s \<Longrightarrow> valid_id (info_id x) \<Longrightarrow> ds_create_upload ops x s = (Inl e, s') \<Longrightarrow>
       inv s' \<and> info_of s' = info_of s"

text \<open>
  The stronger contract of a store whose bytes can be read at any time. The abstract state of an
  upload is its record and the bytes received so far; \<open>abs\<close> reads it off the store, and every
  operation is described by its effect on it. \<open>write_at\<close> is a write at a position: zero fill up
  to it, then the new bytes over the old.
\<close>

type_synonym upload_state = "upload_info \<times> bytes"
type_synonym uploads = "upload_id \<rightharpoonup> upload_state"

definition write_at :: "bytes \<Rightarrow> nat \<Rightarrow> bytes \<Rightarrow> bytes" where
  "write_at d off b =
     take off (d @ replicate (off - length d) (CHR 0x00)) @ b @ drop (off + length b) d"

lemma write_at_end [simp]: "write_at d (length d) b = d @ b"
  by (simp add: write_at_def)

lemma write_at_start: "length b \<le> length d \<Longrightarrow> length (write_at d 0 b) = length d"
  by (simp add: write_at_def)

locale content_store =
  fixes ops :: "'s datastore"
    and abs :: "'s \<Rightarrow> uploads"
    and inv :: "'s \<Rightarrow> bool"
  assumes c_create_ok:
    "inv s \<Longrightarrow> valid_id (info_id x) \<Longrightarrow> ds_create_upload ops x s = (Inr h, s') \<Longrightarrow>
       h = info_id x \<and> inv s' \<and> abs s' = (abs s)(info_id x \<mapsto> (x, []))"
    and c_create_err:
    "inv s \<Longrightarrow> valid_id (info_id x) \<Longrightarrow> ds_create_upload ops x s = (Inl e, s') \<Longrightarrow>
       inv s' \<and> abs s' = abs s"
    and c_get_present:
    "inv s \<Longrightarrow> valid_id i \<Longrightarrow> abs s i \<noteq> None \<Longrightarrow> ds_get_upload ops i s = (Inr i, s)"
    and c_get_missing:
    "inv s \<Longrightarrow> valid_id i \<Longrightarrow> abs s i = None \<Longrightarrow>
       ds_get_upload ops i s = (Inl (NotFound (as_str i)), s)"
    and c_get_info:
    "inv s \<Longrightarrow> abs s i = Some (x, d) \<Longrightarrow> up_get_info ops i s = (Inr x, s)"
    and c_write_ok:
    "inv s \<Longrightarrow> abs s i = Some (x, d) \<Longrightarrow> fits_vec r \<Longrightarrow> up_write_chunk ops i off r s = (Inr n, s') \<Longrightarrow>
       inv s' \<and> (\<exists>b. read_to_end r = Inr b \<and> n = len_u64 b \<and> chunk_fits x off n
                   \<and> abs s' = (abs s)(i \<mapsto> (x\<lparr>info_offset := off + n\<rparr>,
                                             write_at d (unat off) b)))"
    and c_write_err:
    "inv s \<Longrightarrow> abs s i = Some (x, d) \<Longrightarrow> fits_vec r \<Longrightarrow> up_write_chunk ops i off r s = (Inl e, s') \<Longrightarrow>
       inv s' \<and> abs s' = abs s"
    and c_finalize:
    "inv s \<Longrightarrow> abs s i = Some (x, d) \<Longrightarrow>
       \<exists>s'. up_finalize ops i s = (Inr (), s') \<and> inv s' \<and> abs s' = abs s"
    and c_declare_ok:
    "inv s \<Longrightarrow> abs s i = Some (x, d) \<Longrightarrow> up_declare_length ops i n s = (Inr u, s') \<Longrightarrow>
       inv s' \<and> info_size x = None \<and> abs s' = (abs s)(i \<mapsto> (with_length n x, d))"
    and c_declare_err:
    "inv s \<Longrightarrow> abs s i = Some (x, d) \<Longrightarrow> up_declare_length ops i n s = (Inl e, s') \<Longrightarrow>
       inv s' \<and> abs s' = abs s"
    and c_delete:
    "inv s \<Longrightarrow> abs s i = Some (x, d) \<Longrightarrow>
       \<exists>s'. up_delete ops i s = (Inr (), s') \<and> inv s' \<and> abs s' = (abs s)(i := None)"
    and c_concat_ok:
    "inv s \<Longrightarrow> abs s i = Some (x, d) \<Longrightarrow>
       list_all2 (\<lambda>p b. abs s (info_id p) = Some (p, b)) ps bs \<Longrightarrow>
       up_concatenate ops i ps s = (Inr u, s') \<Longrightarrow>
       inv s' \<and> abs s' = (abs s)(i \<mapsto> (with_total (len_u64 (concat bs)) x, concat bs))"
    and c_concat_err:
    "inv s \<Longrightarrow> abs s i = Some (x, d) \<Longrightarrow>
       list_all2 (\<lambda>p b. abs s (info_id p) = Some (p, b)) ps bs \<Longrightarrow>
       up_concatenate ops i ps s = (Inl e, s') \<Longrightarrow> inv s' \<and> abs s' = abs s"
    and c_read_complete:
    "inv s \<Longrightarrow> abs s i = Some (x, d) \<Longrightarrow> is_complete x \<Longrightarrow>
       \<exists>rd. up_read_content ops i s = (Inr rd, s) \<and> read_to_end rd = Inr d"
    and c_read_any:
    "inv s \<Longrightarrow> abs s i = Some (x, d) \<Longrightarrow> snd (up_read_content ops i s) = s"

text \<open>The records alone: the weaker contract follows.\<close>

lemma map_option_fst_upd:
  "(\<lambda>j. map_option fst ((a(i \<mapsto> (x, d))) j)) = (\<lambda>j. map_option fst (a j))(i \<mapsto> x)"
  by (rule ext) simp

lemma map_option_fst_del:
  "(\<lambda>j. map_option fst ((a(i := None)) j)) = (\<lambda>j. map_option fst (a j))(i := None)"
  by (rule ext) simp

context content_store
begin

lemma partial_bytes:
  assumes "\<And>p. p \<in> set ps \<Longrightarrow> map_option fst (abs s (info_id p)) = Some p"
  shows "\<exists>bs. list_all2 (\<lambda>p b. abs s (info_id p) = Some (p, b)) ps bs"
proof
  show "list_all2 (\<lambda>p b. abs s (info_id p) = Some (p, b)) ps
          (map (\<lambda>p. snd (the (abs s (info_id p)))) ps)"
    using assms by (induction ps) (fastforce split: option.splits)+
qed

end

sublocale content_store \<subseteq> upload_store ops "\<lambda>s i. map_option fst (abs s i)" inv
proof
  fix s s' i x ps u
  assume "inv s" "map_option fst (abs s i) = Some x" "up_concatenate ops i ps s = (Inr u, s')"
    and "\<And>p. p \<in> set ps \<Longrightarrow> map_option fst (abs s (info_id p)) = Some p"
  moreover from this obtain bs where "list_all2 (\<lambda>p b. abs s (info_id p) = Some (p, b)) ps bs"
    using partial_bytes by blast
  ultimately have "inv s'"
    "abs s' = (abs s)(i \<mapsto> (with_total (len_u64 (concat bs)) x, concat bs))"
    by (auto dest: c_concat_ok)
  then show "inv s' \<and> (\<exists>n. (\<lambda>i. map_option fst (abs s' i)) =
      (\<lambda>i. map_option fst (abs s i))(i \<mapsto> with_total n x))"
    by (metis map_option_fst_upd)
next
  fix s s' i x ps e
  assume "inv s" "map_option fst (abs s i) = Some x" "up_concatenate ops i ps s = (Inl e, s')"
    and "\<And>p. p \<in> set ps \<Longrightarrow> map_option fst (abs s (info_id p)) = Some p"
  moreover from this obtain bs where "list_all2 (\<lambda>p b. abs s (info_id p) = Some (p, b)) ps bs"
    using partial_bytes by blast
  ultimately show "inv s' \<and> (\<lambda>i. map_option fst (abs s' i)) = (\<lambda>i. map_option fst (abs s i))"
    by (auto dest: c_concat_err)
next
  fix s s' i x off r n
  assume "inv s" "map_option fst (abs s i) = Some x" "fits_vec r"
    "up_write_chunk ops i off r s = (Inr n, s')"
  moreover from this obtain d where "abs s i = Some (x, d)" by auto
  ultimately obtain b d' where "inv s'" "read_to_end r = Inr b" "n = len_u64 b"
    "chunk_fits x off n" and a: "abs s' = (abs s)(i \<mapsto> (x\<lparr>info_offset := off + n\<rparr>, d'))"
    using c_write_ok by blast
  then show "inv s' \<and> (\<exists>b. read_to_end r = Inr b \<and> n = len_u64 b) \<and> chunk_fits x off n
    \<and> (\<lambda>i. map_option fst (abs s' i)) =
        (\<lambda>i. map_option fst (abs s i))(i \<mapsto> x\<lparr>info_offset := off + n\<rparr>)"
    unfolding a map_option_fst_upd by blast
next
  fix s i x res s'
  assume "inv s" "map_option fst (abs s i) = Some x" "up_finalize ops i s = (res, s')"
  then show "inv s' \<and> (\<lambda>i. map_option fst (abs s' i)) = (\<lambda>i. map_option fst (abs s i))"
    using c_finalize by fastforce
next
  fix s i x u s'
  assume "inv s" "map_option fst (abs s i) = Some x" "up_delete ops i s = (Inr u, s')"
  then show "inv s' \<and> (\<lambda>i. map_option fst (abs s' i)) = (\<lambda>i. map_option fst (abs s i))(i := None)"
    using c_delete by (fastforce simp: map_option_fst_del)
next
  fix s x h s'
  assume "inv s" "valid_id (info_id x)" "ds_create_upload ops x s = (Inr h, s')"
  then have "h = info_id x" "inv s'" "abs s' = (abs s)(info_id x \<mapsto> (x, []))"
    using c_create_ok by blast+
  then show "h = info_id x \<and> inv s' \<and>
      (\<lambda>i. map_option fst (abs s' i)) = (\<lambda>i. map_option fst (abs s i))(info_id x \<mapsto> x)"
    by (simp only: map_option_fst_upd)
next
  fix s i x n u s'
  assume "inv s" "map_option fst (abs s i) = Some x" "up_declare_length ops i n s = (Inr u, s')"
  moreover from this obtain d where "abs s i = Some (x, d)" by auto
  ultimately have "inv s'" "info_size x = None" "abs s' = (abs s)(i \<mapsto> (with_length n x, d))"
    using c_declare_ok [of s i x d n u s'] by simp_all
  then show "inv s' \<and> info_size x = None \<and> (\<lambda>i. map_option fst (abs s' i)) =
      (\<lambda>i. map_option fst (abs s i))(i \<mapsto> with_length n x)"
    by (simp only: map_option_fst_upd)
next
  fix s i x n e s'
  assume "inv s" "map_option fst (abs s i) = Some x" "up_declare_length ops i n s = (Inl e, s')"
  moreover from this obtain d where "abs s i = Some (x, d)" by auto
  ultimately show "inv s' \<and> (\<lambda>i. map_option fst (abs s' i)) = (\<lambda>i. map_option fst (abs s i))"
    using c_declare_err by metis
next
  fix s i x off r e s'
  assume "inv s" "map_option fst (abs s i) = Some x" "fits_vec r"
    "up_write_chunk ops i off r s = (Inl e, s')"
  moreover from this obtain d where "abs s i = Some (x, d)" by auto
  ultimately show "inv s' \<and> (\<lambda>i. map_option fst (abs s' i)) = (\<lambda>i. map_option fst (abs s i))"
    using c_write_err by metis
next
  fix s x e s'
  assume "inv s" "valid_id (info_id x)" "ds_create_upload ops x s = (Inl e, s')"
  then show "inv s' \<and> (\<lambda>i. map_option fst (abs s' i)) = (\<lambda>i. map_option fst (abs s i))"
    using c_create_err by metis
next
  fix s i x res' s'
  assume "inv s" "map_option fst (abs s i) = Some x" "up_read_content ops i s = (res', s')"
  then show "s' = s"
    using c_read_any by fastforce
qed (simp_all add: c_get_present c_get_missing, use c_get_info in fastforce)

end
