(* ===== verification/Tus_Lock.thy ===== *)
theory Tus_Lock
  imports Tus_Error Upload_Info
begin

text \<open>
  \<open>fileloft-core/src/lock.rs\<close> and \<open>fileloft-store-memory/src/locker.rs\<close>. A locker is a
  record of two operations on its state \<open>'l\<close>: acquiring the lock of an upload, under the
  handler's \<open>tokio::time::timeout\<close>, and the drop of the guard at the end of the handler.
  \<open>MemoryLocker\<close> follows: its acquisition loop against other tasks that may change the set
  of held identifiers while it sleeps, its explicit release and its drop.
\<close>

text \<open>
  The three outcomes of \<open>timeout(lock_timeout, locker.acquire(&id)).await\<close>: the guard, the
  timer elapsed first, or the locker's own error.
\<close>

datatype acquire_outcome = Acquired | Elapsed | Acquire_Error tus_error

record 'l locker_ops =
  lk_acquire :: "upload_id \<Rightarrow> 'l \<Rightarrow> acquire_outcome \<times> 'l"
  lk_drop :: "upload_id \<Rightarrow> 'l \<Rightarrow> 'l"

section \<open>NoLocker\<close>

text \<open>The no-op locker of \<open>handler/mod.rs\<close>.\<close>

definition no_locker :: "'l locker_ops" where
  "no_locker = \<lparr>lk_acquire = (\<lambda>i l. (Acquired, l)), lk_drop = (\<lambda>i l. l)\<rparr>"

section \<open>MemoryLocker\<close>

type_synonym held_set = "string set"

record memory_lock =
  ml_id :: string
  ml_released :: bool

text \<open>
  The spin loop of \<open>MemoryLocker::acquire\<close>. The list holds what the other tasks do to the
  shared set during each sleep; when it is used up the deadline has passed.
\<close>

fun memory_acquire ::
  "(held_set \<Rightarrow> held_set) list \<Rightarrow> upload_id \<Rightarrow> held_set \<Rightarrow> (tus_error + memory_lock) \<times> held_set"
where
  "memory_acquire [] i held =
     (if as_str i \<notin> held
      then (Inr \<lparr>ml_id = as_str i, ml_released = False\<rparr>, insert (as_str i) held)
      else (Inl (LockTimeout (as_str i)), held))"
| "memory_acquire (others # sleeps) i held =
     (if as_str i \<notin> held
      then (Inr \<lparr>ml_id = as_str i, ml_released = False\<rparr>, insert (as_str i) held)
      else memory_acquire sleeps i (others held))"

definition memory_release :: "memory_lock \<Rightarrow> held_set \<Rightarrow> memory_lock \<times> held_set" where
  "memory_release lk held = (lk\<lparr>ml_released := True\<rparr>, held - {ml_id lk})"

text \<open>\<open>Drop\<close>: only when not released, and only when \<open>try_lock\<close> gets the mutex.\<close>

definition memory_drop :: "bool \<Rightarrow> memory_lock \<Rightarrow> held_set \<Rightarrow> held_set" where
  "memory_drop try_lock_ok lk held =
     (if \<not> ml_released lk \<and> try_lock_ok then held - {ml_id lk} else held)"

text \<open>
  What the surroundings do to one acquisition and one drop: how the other tasks change the set of held
  identifiers during each sleep of the loop and while the handler runs, whether the handler's own timer
  elapses before the locker's deadline, and whether the drop's \<open>try_lock\<close> finds the mutex free.
\<close>

record contention =
  ct_sleeps :: "(held_set \<Rightarrow> held_set) list"
  ct_timer_first :: bool
  ct_meanwhile :: "held_set \<Rightarrow> held_set"
  ct_mutex_free :: bool

text \<open>
  The locker as a handler uses it, in given surroundings. A task whose timer elapses is asleep or waits
  for the mutex, so it has changed nothing.
\<close>

definition memory_locker_with :: "contention \<Rightarrow> held_set locker_ops" where
  "memory_locker_with c =
     \<lparr>lk_acquire = (\<lambda>i held.
        (case memory_acquire (ct_sleeps c) i held of
           (Inr lk, held') \<Rightarrow> (Acquired, held')
         | (Inl e, held') \<Rightarrow> (if ct_timer_first c then Elapsed else Acquire_Error e, held'))),
      lk_drop = (\<lambda>i held.
        memory_drop (ct_mutex_free c) \<lparr>ml_id = as_str i, ml_released = False\<rparr> (ct_meanwhile c held))\<rparr>"

text \<open>No other task runs meanwhile: used where one request is followed after the other.\<close>

definition alone :: contention where
  "alone = \<lparr>ct_sleeps = [], ct_timer_first = False, ct_meanwhile = (\<lambda>held. held), ct_mutex_free = True\<rparr>"

definition memory_locker_ops :: "held_set locker_ops" where
  "memory_locker_ops = memory_locker_with alone"

lemma memory_locker_ops_simps [simp]:
  "lk_acquire memory_locker_ops i held =
     (if as_str i \<in> held then (Acquire_Error (LockTimeout (as_str i)), held)
      else (Acquired, insert (as_str i) held))"
  "lk_drop memory_locker_ops i held = held - {as_str i}"
  by (simp_all add: memory_locker_ops_def memory_locker_with_def alone_def memory_drop_def)

section \<open>The contract of a handler's locker\<close>

text \<open>
  What a locker leaves behind once a handler is through with it, whether it gave the lock and dropped it
  or refused it: \<open>left i l l'\<close> relates its states before and after, \<open>i\<close> being the upload.
\<close>

locale locker_contract =
  fixes lk :: "'l locker_ops"
    and left :: "upload_id \<Rightarrow> 'l \<Rightarrow> 'l \<Rightarrow> bool"
  assumes drop_leaves: "lk_acquire lk i l = (Acquired, l') \<Longrightarrow> left i l (lk_drop lk i l')"
    and refusal_leaves: "lk_acquire lk i l = (out, l') \<Longrightarrow> out \<noteq> Acquired \<Longrightarrow> left i l l'"

interpretation no_locker: locker_contract no_locker "\<lambda>i l l'. l' = l"
  by unfold_locales (auto simp: no_locker_def)

text \<open>
  What \<open>MemoryLocker\<close> leaves in given surroundings. The first \<open>n\<close> sleeps were needed; then either all of
  them were used up and the identifier was still held by another, or it was free, was taken, and was
  given back after what the others did meanwhile, unless the drop found the mutex taken.
\<close>

definition slept :: "contention \<Rightarrow> nat \<Rightarrow> held_set \<Rightarrow> held_set" where
  "slept c n held = fold (\<lambda>others. others) (take n (ct_sleeps c)) held"

definition memory_left :: "contention \<Rightarrow> upload_id \<Rightarrow> held_set \<Rightarrow> held_set \<Rightarrow> bool" where
  "memory_left c i held held' \<longleftrightarrow>
     (as_str i \<in> slept c (length (ct_sleeps c)) held \<and> held' = slept c (length (ct_sleeps c)) held)
     \<or> (\<exists>n \<le> length (ct_sleeps c). as_str i \<notin> slept c n held
          \<and> (let after = ct_meanwhile c (insert (as_str i) (slept c n held))
             in held' = (if ct_mutex_free c then after - {as_str i} else after)))"

lemma memory_acquire_slept:
  "case memory_acquire sleeps i held of
     (Inr lk, held') \<Rightarrow> (\<exists>n \<le> length sleeps.
        as_str i \<notin> fold (\<lambda>others. others) (take n sleeps) held
        \<and> held' = insert (as_str i) (fold (\<lambda>others. others) (take n sleeps) held))
   | (Inl e, held') \<Rightarrow> as_str i \<in> held' \<and> held' = fold (\<lambda>others. others) sleeps held"
proof (induction sleeps i held rule: memory_acquire.induct)
  case (2 others sleeps i held)
  show ?case
  proof (cases "as_str i \<in> held")
    case True
    then have "memory_acquire (others # sleeps) i held = memory_acquire sleeps i (others held)" by simp
    then show ?thesis
      using 2(1) True by (force split: prod.splits sum.splits intro: exI [of _ "Suc _"])
  qed (auto intro: exI [of _ 0])
qed (auto intro: exI [of _ 0])

interpretation mem_locker: locker_contract "memory_locker_with c" "memory_left c" for c
proof (unfold_locales, goal_cases)
  case (1 i l l')
  then show ?case
    using memory_acquire_slept [where sleeps = "ct_sleeps c" and i = i and held = l]
    by (auto simp: memory_locker_with_def memory_left_def memory_drop_def slept_def Let_def
        split: prod.splits sum.splits if_splits)
next
  case (2 i l out l')
  then show ?case
    using memory_acquire_slept [where sleeps = "ct_sleeps c" and i = i and held = l]
    by (auto simp: memory_locker_with_def memory_left_def slept_def split: prod.splits sum.splits if_splits)
qed

text \<open>With nobody else about, and a drop that finds the mutex free, nothing is left.\<close>

lemma memory_left_alone:
  assumes "memory_left c i held held'"
    and "ct_sleeps c = []" and "\<And>H. ct_meanwhile c H = H" and "ct_mutex_free c"
  shows "held' = held"
  using assms by (auto simp: memory_left_def slept_def Let_def)

end
