(* ===== verification/Tus_Handler.thy ===== *)
theory Tus_Handler
  imports Tus_Store Tus_Lock
begin

text \<open>
  \<open>fileloft-core/src/handler/mod.rs\<close>: requests, responses, the handler object and the parts of
  a response every handler shares. The state a request runs on (\<open>world\<close>) is the store, the
  locker and the lifecycle events sent so far. What the code takes from third-party crates is a
  record of functions (\<open>externals\<close>); what a request takes from its surroundings, the current
  time and a fresh UUID, is \<open>req_env\<close>.
\<close>

section \<open>Types\<close>

record externals =
  x_hv_ok :: "string \<Rightarrow> bool"
  x_b64_decode :: "string \<Rightarrow> string + bytes"
  x_b64_encode :: "bytes \<Rightarrow> string"
  x_digest :: "checksum_algorithm \<Rightarrow> bytes \<Rightarrow> bytes"
  x_rounds :: "nat \<Rightarrow> poll_round"
  x_format_date :: "int \<Rightarrow> string"
  x_from_std :: "nat \<Rightarrow> string + int"
  x_map_order :: "metadata \<Rightarrow> metadata"

record req_env =
  env_now :: int
  env_uuid :: string

datatype http_method = OPTIONS | HEAD | GET | POST | PATCH | DELETE | OtherMethod string

record tus_request =
  req_method :: http_method
  req_uri :: string
  req_upload_id :: "string option"
  req_headers :: header_map
  req_body :: "reader option"

datatype tus_body = Body_Bytes bytes | Body_Reader reader

record tus_response =
  resp_status :: nat
  resp_headers :: response_headers
  resp_body :: tus_body

definition bytes_slice :: "tus_response \<Rightarrow> bytes option" where
  "bytes_slice r = (case resp_body r of Body_Bytes b \<Rightarrow> Some b | Body_Reader rd \<Rightarrow> None)"

record ('s, 'l) tus_handler =
  h_store :: "'s datastore"
  h_locker :: "'l locker_ops option"
  h_config :: config
  h_hook_tx :: bool

record ('s, 'l) world =
  w_store :: 's
  w_lock :: 'l
  w_events :: "hook_event list"

type_synonym ('s, 'l, 'a) hop = "(('s, 'l) world, 'a) op"

definition tus_handler_new ::
  "'s datastore \<Rightarrow> 'l locker_ops option \<Rightarrow> config \<Rightarrow> ('s, 'l) tus_handler" where
  "tus_handler_new store locker cfg =
     \<lparr>h_store = store, h_locker = locker, h_config = cfg,
      h_hook_tx = (0 < channel_capacity (cfg_hooks cfg))\<rparr>"

definition handler_max_size :: "('s, 'l) tus_handler \<Rightarrow> u64" where
  "handler_max_size h = cfg_max_size (h_config h)"

section \<open>Steps on the world\<close>

text \<open>A store operation run inside a handler.\<close>

definition on_store :: "('s, 'a) op \<Rightarrow> ('s, 'l, 'a) hop" where
  "on_store m w = (case m (w_store w) of (r, s') \<Rightarrow> (r, w\<lparr>w_store := s'\<rparr>))"

text \<open>\<open>emit\<close>: sent only when the channel exists; a send without subscribers is ignored.\<close>

definition emit :: "('s, 'l) tus_handler \<Rightarrow> hook_event \<Rightarrow> ('s, 'l, unit) hop" where
  "emit h e w = (Inr (), if h_hook_tx h then w\<lparr>w_events := w_events w @ [e]\<rparr> else w)"

text \<open>
  The lock of an upload around the rest of a handler: the guard \<open>_lock\<close> lives to the end of the
  handler and is dropped on every way out of it.
\<close>

definition with_lock ::
  "('s, 'l) tus_handler \<Rightarrow> upload_id \<Rightarrow> ('s, 'l, 'a) hop \<Rightarrow> ('s, 'l, 'a) hop" where
  "with_lock h i body w =
     (case h_locker h of
        None \<Rightarrow> body w
      | Some lk \<Rightarrow>
          (case lk_acquire lk i (w_lock w) of
             (Elapsed, l) \<Rightarrow> (Inl (LockTimeout (as_str i)), w\<lparr>w_lock := l\<rparr>)
           | (Acquire_Error e, l) \<Rightarrow> (Inl e, w\<lparr>w_lock := l\<rparr>)
           | (Acquired, l) \<Rightarrow>
               (case body (w\<lparr>w_lock := l\<rparr>) of
                  (r, w') \<Rightarrow> (r, w'\<lparr>w_lock := lk_drop lk i (w_lock w')\<rparr>))))"

text \<open>An optional callback that may veto.\<close>

definition run_callback :: "('i \<Rightarrow> tus_error + unit) option \<Rightarrow> 'i \<Rightarrow> tus_error + unit" where
  "run_callback cb x = (case cb of None \<Rightarrow> Inr () | Some f \<Rightarrow> f x)"

section \<open>Responses\<close>

definition expose_default :: string where
  "expose_default =
     ''Upload-Offset,Upload-Length,Upload-Metadata,Upload-Expires,'' @
     ''Upload-Defer-Length,Location,Tus-Resumable,Tus-Version,Tus-Extension,'' @
     ''Tus-Max-Size,Tus-Checksum-Algorithm,Content-Length,Content-Type''"

text \<open>\<open>push(','); push_str(extra.trim())\<close> for each extra name.\<close>

definition with_extras :: "string \<Rightarrow> string list \<Rightarrow> string" where
  "with_extras base extras = foldl (\<lambda>acc extra. acc @ '','' @ trim extra) base extras"

text \<open>\<open>if let Ok(v) = s.parse() { insert }\<close>\<close>

definition insert_if_ok ::
  "externals \<Rightarrow> header_name \<Rightarrow> string \<Rightarrow> response_headers \<Rightarrow> response_headers" where
  "insert_if_ok x n s h = (if x_hv_ok x s then h(n \<mapsto> s) else h)"

definition base_headers :: "externals \<Rightarrow> config \<Rightarrow> response_headers" where
  "base_headers x cfg =
     (let h = [HDR_TUS_RESUMABLE \<mapsto> TUS_VERSION, HDR_CACHE_CONTROL \<mapsto> CACHE_CONTROL_NO_STORE];
          cors = cfg_cors cfg
      in if cors_enabled cors then
           (let h = insert_if_ok x HDR_ACCESS_CONTROL_ALLOW_ORIGIN (cors_allow_origin cors) h;
                h = (if cors_allow_credentials cors
                     then h(HDR_ACCESS_CONTROL_ALLOW_CREDENTIALS \<mapsto> ''true'') else h)
            in insert_if_ok x HDR_ACCESS_CONTROL_EXPOSE_HEADERS
                 (with_extras expose_default (cors_extra_expose_headers cors)) h)
         else h)"

definition response_with_body ::
  "externals \<Rightarrow> config \<Rightarrow> nat \<Rightarrow> response_headers \<Rightarrow> tus_body \<Rightarrow> tus_response" where
  "response_with_body x cfg status extra body =
     \<lparr>resp_status = status, resp_headers = base_headers x cfg ++ extra, resp_body = body\<rparr>"

definition response ::
  "externals \<Rightarrow> config \<Rightarrow> nat \<Rightarrow> response_headers \<Rightarrow> bytes \<Rightarrow> tus_response" where
  "response x cfg status extra body = response_with_body x cfg status extra (Body_Bytes body)"

definition error_response :: "externals \<Rightarrow> config \<Rightarrow> tus_error \<Rightarrow> tus_response" where
  "error_response x cfg err =
     \<lparr>resp_status = status_code err,
      resp_headers = (base_headers x cfg)(HDR_CONTENT_TYPE \<mapsto> ''text/plain; charset=utf-8''),
      resp_body = Body_Bytes (client_message err)\<rparr>"

text \<open>The \<open>Upload-Expires\<close> header, left out when the date text is not a header value.\<close>

definition insert_expires ::
  "externals \<Rightarrow> int option \<Rightarrow> response_headers \<Rightarrow> response_headers" where
  "insert_expires x expires h =
     (case expires of
        Some t \<Rightarrow> insert_if_ok x HDR_UPLOAD_EXPIRES (x_format_date x t) h | None \<Rightarrow> h)"

definition is_expired :: "req_env \<Rightarrow> upload_info \<Rightarrow> bool" where
  "is_expired e info = (case info_expires_at info of Some t \<Rightarrow> t < env_now e | None \<Rightarrow> False)"

text \<open>\<open>UploadId::parse(req.upload_id.as_deref().ok_or(InvalidUploadId)?)?\<close>\<close>

definition request_id :: "tus_request \<Rightarrow> tus_error + upload_id" where
  "request_id req =
     res_bind (opt_to_res InvalidUploadId (req_upload_id req)) upload_id_parse"

section \<open>Facts\<close>

lemma request_id_Inr_iff:
  "request_id req = Inr i \<longleftrightarrow> req_upload_id req = Some (as_str i) \<and> valid_id i"
  by (cases i) (auto simp: request_id_def res_bind_Inr_iff upload_id_parse_Inr_iff)

lemma request_id_Inl: "request_id req = Inl e \<Longrightarrow> e = InvalidUploadId"
  by (auto simp: request_id_def res_bind_def dest: upload_id_parse_Inl
      split: sum.splits)

lemma on_store_Inr [sm_simps]:
  "m (w_store w) = (Inr x, s') \<Longrightarrow> on_store m w = (Inr x, w\<lparr>w_store := s'\<rparr>)"
  by (simp add: on_store_def)

lemma on_store_Inl [sm_simps]:
  "m (w_store w) = (Inl e, s') \<Longrightarrow> on_store m w = (Inl e, w\<lparr>w_store := s'\<rparr>)"
  by (simp add: on_store_def)

lemma on_store_InrD:
  assumes "on_store m w = (Inr x, w')"
  obtains s' where "m (w_store w) = (Inr x, s')" and "w' = w\<lparr>w_store := s'\<rparr>"
  using assms by (auto simp: on_store_def split: prod.splits)

lemma on_store_InlD:
  assumes "on_store m w = (Inl e, w')"
  obtains s' where "m (w_store w) = (Inl e, s')" and "w' = w\<lparr>w_store := s'\<rparr>"
  using assms by (auto simp: on_store_def split: prod.splits)

lemma emit_result [simp]: "fst (emit h e w) = Inr ()"
  by (simp add: emit_def)

lemma emit_store [simp]: "w_store (snd (emit h e w)) = w_store w"
  by (simp add: emit_def)

lemma emit_lock [simp]: "w_lock (snd (emit h e w)) = w_lock w"
  by (simp add: emit_def)

lemma emit_eq: "emit h e w = (Inr (), snd (emit h e w))"
  by (simp add: emit_def)

lemma resp_status_sel [simp]:
  "resp_status (response x cfg st hs b) = st"
  "resp_status (response_with_body x cfg st hs bd) = st"
  "resp_status (error_response x cfg er) = status_code er"
  by (simp_all add: response_def response_with_body_def error_response_def)

lemma base_headers_resumable [simp]:
  "base_headers x cfg HDR_TUS_RESUMABLE = Some TUS_VERSION"
  "base_headers x cfg HDR_CACHE_CONTROL = Some CACHE_CONTROL_NO_STORE"
  by (simp_all add: base_headers_def insert_if_ok_def Let_def)

text \<open>The invariants a handler keeps on the store lift through its steps on the world.\<close>

definition store_inv :: "('s \<Rightarrow> bool) \<Rightarrow> ('s, 'l) world \<Rightarrow> bool" where
  "store_inv I w = I (w_store w)"

lemma keeps_on_store [valid_rules]: "keeps I m \<Longrightarrow> keeps (store_inv I) (on_store m)"
  by (rule keepsI) (auto simp: store_inv_def on_store_def dest: keepsD split: prod.splits)

lemma keeps_emit [valid_rules]: "keeps (store_inv I) (emit h e)"
  by (rule keepsI) (simp add: store_inv_def)

lemma with_lock_cases:
  fixes h :: "('s, 'l) tus_handler" and body :: "('s, 'l, 'a) hop"
  obtains (refused) e l where "with_lock h i body w = (Inl e, w\<lparr>w_lock := l\<rparr>)"
    | (held) l r w' l' where "body (w\<lparr>w_lock := l\<rparr>) = (r, w')"
        and "with_lock h i body w = (r, w'\<lparr>w_lock := l'\<rparr>)"
proof (cases "h_locker h")
  case None
  obtain r w' where b: "body w = (r, w')" by (cases "body w")
  show ?thesis
    by (rule held [of "w_lock w" r w' "w_lock w'"]) (simp_all add: with_lock_def None b)
next
  case (Some lk)
  obtain out l where a: "lk_acquire lk i (w_lock w) = (out, l)" by (cases "lk_acquire lk i (w_lock w)")
  obtain r w' where b: "body (w\<lparr>w_lock := l\<rparr>) = (r, w')" by (cases "body (w\<lparr>w_lock := l\<rparr>)")
  show ?thesis
  proof (cases out)
    case Acquired
    show ?thesis by (rule held [OF b]) (simp add: with_lock_def Some a b Acquired)
  qed (rule refused, simp add: with_lock_def Some a)+
qed

lemma keeps_with_lock [valid_rules]:
  fixes h :: "('s, 'l) tus_handler" and body :: "('s, 'l, 'a) hop"
  assumes "keeps (store_inv I) body"
  shows "keeps (store_inv I) (with_lock h i body)"
proof (rule keepsI)
  fix w :: "('s, 'l) world" assume w: "store_inv I w"
  show "store_inv I (snd (with_lock h i body w))"
  proof (cases rule: with_lock_cases [where h = h and i = i and body = body and w = w])
    case (refused e l)
    with w show ?thesis by (simp add: store_inv_def)
  next
    case (held l r w' l')
    have "store_inv I (w\<lparr>w_lock := l\<rparr>)" using w by (simp add: store_inv_def)
    with keepsD [OF assms] held(1) have "store_inv I w'" by fastforce
    with held(2) show ?thesis by (simp add: store_inv_def)
  qed
qed

end
