(* ===== verification/Handler_Read.thy ===== *)
theory Handler_Read
  imports Tus_Handler
begin

text \<open>
  \<open>handler/head.rs\<close>, \<open>handler/get.rs\<close>, \<open>handler/options.rs\<close> and \<open>handler/delete.rs\<close>: the
  handlers that read an upload, describe the server or remove an upload. A streamed download
  is the reader the store returned.
\<close>

section \<open>HEAD\<close>

definition head_headers :: "externals \<Rightarrow> upload_info \<Rightarrow> response_headers" where
  "head_headers x info =
     (let h = [HDR_UPLOAD_OFFSET \<mapsto> u64_header (x_hv_ok x) (info_offset info)];
          h = (case info_size info of
                 Some n \<Rightarrow> h(HDR_UPLOAD_LENGTH \<mapsto> u64_header (x_hv_ok x) n)
               | None \<Rightarrow> if info_size_is_deferred info then h(HDR_UPLOAD_DEFER_LENGTH \<mapsto> ''1'')
                         else h);
          h = (if \<not> metadata_is_empty (info_metadata info)
               then insert_if_ok x HDR_UPLOAD_METADATA
                      (metadata_encode (x_map_order x) (x_b64_encode x) (info_metadata info)) h
               else h)
      in insert_expires x (info_expires_at info) h)"

definition head_handle ::
  "externals \<Rightarrow> ('s, 'l) tus_handler \<Rightarrow> req_env \<Rightarrow> tus_request \<Rightarrow> ('s, 'l, tus_response) hop"
where
  "head_handle x h e req =
     sm_bind (sm_lift (check_tus_resumable (req_headers req))) (\<lambda>_.
     sm_bind (sm_lift (request_id req)) (\<lambda>i.
     sm_bind (on_store (ds_get_upload (h_store h) i)) (\<lambda>upload.
     sm_bind (on_store (up_get_info (h_store h) upload)) (\<lambda>info.
     sm_bind (sm_guard (\<not> is_expired e info) Gone) (\<lambda>_.
     sm_return (response x (h_config h) 204 (head_headers x info) []))))))"

section \<open>GET\<close>

definition get_headers :: "externals \<Rightarrow> upload_info \<Rightarrow> response_headers" where
  "get_headers x info =
     (let h = [HDR_CONTENT_TYPE \<mapsto> ''application/octet-stream'']
      in case info_size info of
           Some len \<Rightarrow> h(HDR_CONTENT_LENGTH \<mapsto> u64_header (x_hv_ok x) len) | None \<Rightarrow> h)"

definition get_locked ::
  "externals \<Rightarrow> ('s, 'l) tus_handler \<Rightarrow> req_env \<Rightarrow> upload_id \<Rightarrow> ('s, 'l, tus_response) hop"
where
  "get_locked x h e i =
     sm_bind (on_store (ds_get_upload (h_store h) i)) (\<lambda>upload.
     sm_bind (on_store (up_get_info (h_store h) upload)) (\<lambda>info.
     sm_bind (sm_guard (\<not> is_expired e info) Gone) (\<lambda>_.
     sm_bind (sm_guard (is_complete info) UploadNotReadyForDownload) (\<lambda>_.
     sm_bind (on_store (up_read_content (h_store h) upload)) (\<lambda>rd.
     sm_return (response_with_body x (h_config h) 200 (get_headers x info) (Body_Reader rd)))))))"

definition get_handle ::
  "externals \<Rightarrow> ('s, 'l) tus_handler \<Rightarrow> req_env \<Rightarrow> tus_request \<Rightarrow> ('s, 'l, tus_response) hop"
where
  "get_handle x h e req =
     sm_bind (sm_guard (cfg_enable_download (h_config h)) MethodNotAllowed) (\<lambda>_.
     sm_bind (sm_lift (request_id req)) (\<lambda>i.
     with_lock h i (get_locked x h e i)))"

section \<open>OPTIONS\<close>

definition enabled_extensions :: "extensions \<Rightarrow> string list" where
  "enabled_extensions ext =
     (if ext_creation ext then [EXT_CREATION] else [])
     @ (if ext_creation_with_upload ext then [EXT_CREATION_WITH_UPLOAD] else [])
     @ (if ext_creation_defer_length ext then [EXT_CREATION_DEFER_LENGTH] else [])
     @ (if ext_expiration ext then [EXT_EXPIRATION] else [])
     @ (if ext_checksum ext then [EXT_CHECKSUM] else [])
     @ (if ext_checksum_trailer ext \<and> CHECKSUM_TRAILER_IMPLEMENTED
        then [EXT_CHECKSUM_TRAILER] else [])
     @ (if ext_termination ext then [EXT_TERMINATION] else [])
     @ (if ext_concatenation ext then [EXT_CONCATENATION] else [])"

definition allow_default :: string where
  "allow_default =
     ''Tus-Resumable,Upload-Length,Upload-Offset,Upload-Metadata,'' @
     ''Upload-Defer-Length,Upload-Checksum,Upload-Concat,Content-Type''"

text \<open>\<open>insert(name, s.parse().map_err(|_| Internal(msg))?)\<close>\<close>

definition insert_or_fail ::
  "externals \<Rightarrow> header_name \<Rightarrow> string \<Rightarrow> string \<Rightarrow> response_headers \<Rightarrow> tus_error + response_headers"
where
  "insert_or_fail x n s msg h = (if x_hv_ok x s then Inr (h(n \<mapsto> s)) else Inl (Internal msg))"

definition options_cors :: "externals \<Rightarrow> config \<Rightarrow> response_headers \<Rightarrow> tus_error + response_headers"
where
  "options_cors x cfg h =
     (let cors = cfg_cors cfg
      in if \<not> cors_enabled cors then Inr h
         else
           (let methods = (if cfg_enable_download cfg
                           then ''OPTIONS,HEAD,GET,POST,PATCH,DELETE''
                           else ''OPTIONS,HEAD,POST,PATCH,DELETE'');
                allow = with_extras allow_default (cors_extra_allow_headers cors)
            in res_bind (insert_or_fail x HDR_ACCESS_CONTROL_ALLOW_METHODS methods
                           ''bad CORS methods header'' h) (\<lambda>h.
               res_bind (insert_or_fail x HDR_ACCESS_CONTROL_ALLOW_HEADERS allow
                           ''bad CORS allow-headers'' h) (\<lambda>h.
               insert_or_fail x HDR_ACCESS_CONTROL_MAX_AGE (dec_u64 (cors_max_age cors))
                 ''bad CORS max-age'' h))))"

definition options_headers :: "externals \<Rightarrow> config \<Rightarrow> tus_error + response_headers" where
  "options_headers x cfg =
     (let ext = cfg_extensions cfg;
          exts = enabled_extensions ext;
          h = [HDR_TUS_VERSION \<mapsto> TUS_VERSION]
      in res_bind
           (if exts = [] then Inr h
            else insert_or_fail x HDR_TUS_EXTENSION (join '','' exts) ''bad extension header'' h)
         (\<lambda>h. res_bind
           (if ext_checksum ext
            then insert_or_fail x HDR_TUS_CHECKSUM_ALGORITHM algorithms_header
                   ''bad algorithm header'' h
            else Inr h)
         (\<lambda>h.
           (let h = (if 0 < cfg_max_size cfg
                     then h(HDR_TUS_MAX_SIZE \<mapsto> u64_header (x_hv_ok x) (cfg_max_size cfg))
                     else h)
            in options_cors x cfg h))))"

definition options_handle ::
  "externals \<Rightarrow> ('s, 'l) tus_handler \<Rightarrow> req_env \<Rightarrow> tus_request \<Rightarrow> ('s, 'l, tus_response) hop"
where
  "options_handle x h e req =
     sm_bind (sm_lift (options_headers x (h_config h))) (\<lambda>headers.
     sm_return (response x (h_config h) 204 headers []))"

section \<open>DELETE\<close>

definition delete_locked ::
  "externals \<Rightarrow> ('s, 'l) tus_handler \<Rightarrow> upload_id \<Rightarrow> ('s, 'l, tus_response) hop" where
  "delete_locked x h i =
     sm_bind (on_store (ds_get_upload (h_store h) i)) (\<lambda>upload.
     sm_bind (on_store (up_delete (h_store h) upload)) (\<lambda>_.
     sm_bind (emit h (UploadTerminated i)) (\<lambda>_.
     sm_return (response x (h_config h) 204 Map.empty []))))"

definition delete_veto :: "('s, 'l) tus_handler \<Rightarrow> upload_id \<Rightarrow> ('s, 'l, unit) hop" where
  "delete_veto h i =
     (case pre_terminate (cfg_hooks (h_config h)) of
        None \<Rightarrow> sm_return ()
      | Some cb \<Rightarrow>
          sm_bind (on_store (ds_get_upload (h_store h) i)) (\<lambda>upload.
          sm_bind (on_store (up_get_info (h_store h) upload)) (\<lambda>info.
          sm_lift (cb info))))"

definition delete_handle ::
  "externals \<Rightarrow> ('s, 'l) tus_handler \<Rightarrow> req_env \<Rightarrow> tus_request \<Rightarrow> ('s, 'l, tus_response) hop"
where
  "delete_handle x h e req =
     sm_bind (sm_lift (check_tus_resumable (req_headers req))) (\<lambda>_.
     sm_bind (sm_guard (ext_termination (cfg_extensions (h_config h)))
                (ExtensionNotEnabled ''termination'')) (\<lambda>_.
     sm_bind (sm_lift (request_id req)) (\<lambda>i.
     sm_bind (delete_veto h i) (\<lambda>_.
     with_lock h i (delete_locked x h i)))))"

end
