(* ===== verification/Handler_Patch.thy ===== *)
theory Handler_Patch
  imports Tus_Handler
begin

text \<open>
  \<open>handler/patch.rs\<close>: appending a chunk to an upload, in the order of the source: protocol
  headers, lock, final and offset and expiry checks, late declaration of the length, checksum,
  write, progress event, completion.
\<close>

text \<open>The declaration of \<open>Upload-Length\<close> on an upload whose length was deferred.\<close>

definition patch_declare ::
  "('s, 'l) tus_handler \<Rightarrow> header_map \<Rightarrow> upload_id \<Rightarrow> upload_info \<Rightarrow> ('s, 'l, unit) hop" where
  "patch_declare h headers upload info =
     (if info_size_is_deferred info \<and> info_size info = None then
        sm_bind (sm_lift (parse_upload_length headers)) (\<lambda>declared.
          (case declared of
             None \<Rightarrow> sm_return ()
           | Some n \<Rightarrow>
               (let m = cfg_max_size (h_config h)
                in if 0 < m \<and> m < n then sm_fail (EntityTooLarge m)
                   else on_store (up_declare_length (h_store h) upload n))))
      else sm_return ())"

text \<open>
  The optional checksum. A header that is present but not text yields no checksum:
  \<open>.and_then(|v| v.to_str().ok()).map(parse).transpose()\<close>.
\<close>

definition patch_checksum ::
  "externals \<Rightarrow> config \<Rightarrow> header_map \<Rightarrow> tus_error + (checksum_algorithm \<times> bytes) option" where
  "patch_checksum x cfg headers =
     (if headers HDR_UPLOAD_CHECKSUM \<noteq> None then
        (if \<not> ext_checksum (cfg_extensions cfg) then Inl (ExtensionNotEnabled ''checksum'')
         else
           (case get_str headers HDR_UPLOAD_CHECKSUM of
              None \<Rightarrow> Inr None
            | Some v \<Rightarrow> res_bind (parse_checksum_header (x_b64_decode x) v) (\<lambda>c. Inr (Some c))))
      else Inr None)"

definition patch_write ::
  "externals \<Rightarrow> ('s, 'l) tus_handler \<Rightarrow> upload_id \<Rightarrow> u64 \<Rightarrow> reader
     \<Rightarrow> (checksum_algorithm \<times> bytes) option \<Rightarrow> ('s, 'l, u64) hop" where
  "patch_write x h upload off body checksum =
     (case checksum of
        Some (algorithm, expected) \<Rightarrow>
          (case checksum_read_to_end (x_rounds x) 0 (checksum_reader_new body algorithm expected) [] of
             (Inl e, cr) \<Rightarrow> sm_fail (Io e)
           | (Inr buf, cr) \<Rightarrow>
               sm_bind (sm_lift (checksum_verify (x_digest x) cr)) (\<lambda>_.
               on_store (up_write_chunk (h_store h) upload off [Chunk buf])))
      | None \<Rightarrow> on_store (up_write_chunk (h_store h) upload off body))"

text \<open>The part after the last byte: veto, finalize, event. POST ends the same way.\<close>

definition finish_if_complete ::
  "('s, 'l) tus_handler \<Rightarrow> upload_id \<Rightarrow> upload_info \<Rightarrow> ('s, 'l, unit) hop" where
  "finish_if_complete h upload info =
     sm_when (is_complete info)
       (sm_bind (sm_lift (run_callback (pre_finish (cfg_hooks (h_config h))) info)) (\<lambda>_.
        sm_bind (on_store (up_finalize (h_store h) upload)) (\<lambda>_.
        emit h (UploadFinished info))))"

definition patch_headers :: "externals \<Rightarrow> config \<Rightarrow> upload_info \<Rightarrow> response_headers" where
  "patch_headers x cfg info =
     (let h = [HDR_UPLOAD_OFFSET \<mapsto> u64_header (x_hv_ok x) (info_offset info)]
      in if ext_expiration (cfg_extensions cfg)
         then insert_expires x (info_expires_at info) h else h)"

definition patch_locked ::
  "externals \<Rightarrow> ('s, 'l) tus_handler \<Rightarrow> req_env \<Rightarrow> tus_request \<Rightarrow> u64 \<Rightarrow> upload_id
     \<Rightarrow> ('s, 'l, tus_response) hop" where
  "patch_locked x h e req client_offset i =
     sm_bind (on_store (ds_get_upload (h_store h) i)) (\<lambda>upload.
     sm_bind (on_store (up_get_info (h_store h) upload)) (\<lambda>info.
     sm_bind (sm_guard (\<not> info_is_final info) PatchOnFinalUpload) (\<lambda>_.
     sm_bind (sm_guard (info_offset info = client_offset)
                (OffsetMismatch (info_offset info) client_offset)) (\<lambda>_.
     sm_bind (sm_guard (\<not> is_expired e info) Gone) (\<lambda>_.
     sm_bind (patch_declare h (req_headers req) upload info) (\<lambda>_.
     sm_bind (sm_lift (patch_checksum x (h_config h) (req_headers req))) (\<lambda>checksum.
     sm_bind (sm_lift (opt_to_res (Internal ''PATCH missing body'') (req_body req))) (\<lambda>body.
     sm_bind (patch_write x h upload client_offset body checksum) (\<lambda>bytes_written.
     sm_bind (on_store (up_get_info (h_store h) upload)) (\<lambda>new_info.
     sm_bind (emit h (UploadProgress new_info)) (\<lambda>_.
     sm_bind (finish_if_complete h upload new_info) (\<lambda>_.
     sm_return (response x (h_config h) 204
                  (patch_headers x (h_config h) new_info) []))))))))))))) "

definition patch_handle ::
  "externals \<Rightarrow> ('s, 'l) tus_handler \<Rightarrow> req_env \<Rightarrow> tus_request \<Rightarrow> ('s, 'l, tus_response) hop"
where
  "patch_handle x h e req =
     sm_bind (sm_lift (check_tus_resumable (req_headers req))) (\<lambda>_.
       (let ct = (case get_str (req_headers req) HDR_CONTENT_TYPE of Some s \<Rightarrow> s | None \<Rightarrow> [])
        in sm_bind (sm_guard (starts_with ct CONTENT_TYPE_OCTET_STREAM) (WrongContentType ct)) (\<lambda>_.
           sm_bind (sm_lift (parse_upload_offset (req_headers req))) (\<lambda>client_offset.
           sm_bind (sm_lift (request_id req)) (\<lambda>i.
           with_lock h i (patch_locked x h e req client_offset i))))))"

end
