(* ===== verification/Handler_Post.thy ===== *)
theory Handler_Post
  imports Handler_Patch
begin

text \<open>
  \<open>handler/post.rs\<close>: creating an upload, the pure part that builds the new record from the
  headers and the \<open>pre_create\<close> hook, then the effects in the order of the source: slot,
  concatenation, first chunk, removal of the partials, events, completion, response.
\<close>

section \<open>Location and concatenation URLs\<close>

definition build_location :: "config \<Rightarrow> upload_id \<Rightarrow> header_map \<Rightarrow> string" where
  "build_location cfg i headers =
     request_base_url cfg headers @ trim_end_matches (CHR ''/'') (cfg_base_path cfg)
       @ ''/'' @ as_str i"

definition parse_concat_final_urls :: "string \<Rightarrow> tus_error + string list" where
  "parse_concat_final_urls header =
     (let rest = (case strip_prefix_str header ''final;'' of Some r \<Rightarrow> r | None \<Rightarrow> []);
          urls = split_whitespace rest
      in if urls = [] then Inl EmptyConcatenation else Inr urls)"

definition extract_upload_id_from_url :: "string \<Rightarrow> string \<Rightarrow> tus_error + upload_id" where
  "extract_upload_id_from_url url base_path =
     (let path = trim url;
          base = trim_end_matches (CHR ''/'') base_path;
          fallback =
            (let i = trim (last (split_on (CHR ''/'') path))
             in if i = [] then Inl InvalidUploadId else upload_id_parse i)
      in case rfind path base of
           Some pos \<Rightarrow>
             (let i = trim_start_matches (CHR ''/'') (drop (pos + length base) path)
              in if i \<noteq> [] then upload_id_parse i else fallback)
         | None \<Rightarrow> fallback)"

section \<open>Building the record\<close>

definition post_metadata :: "externals \<Rightarrow> header_map \<Rightarrow> tus_error + metadata" where
  "post_metadata x headers =
     (case headers HDR_UPLOAD_METADATA of
        None \<Rightarrow> Inr []
      | Some v \<Rightarrow>
          metadata_parse (x_b64_decode x) (case to_str v of Some s \<Rightarrow> s | None \<Rightarrow> []))"

definition post_expires :: "externals \<Rightarrow> config \<Rightarrow> req_env \<Rightarrow> tus_error + int option" where
  "post_expires x cfg e =
     (if ext_expiration (cfg_extensions cfg) then
        (case ext_expiration_ttl (cfg_extensions cfg) of
           None \<Rightarrow> Inr None
         | Some ttl \<Rightarrow>
             (case x_from_std x ttl of
                Inl err \<Rightarrow> Inl (Internal err) | Inr d \<Rightarrow> Inr (Some (env_now e + d))))
      else Inr None)"

definition concat_is_final :: "header_map \<Rightarrow> bool" where
  "concat_is_final headers =
     (case get_str headers HDR_UPLOAD_CONCAT of
        Some v \<Rightarrow> starts_with v ''final;'' | None \<Rightarrow> False)"

definition post_partials :: "config \<Rightarrow> header_map \<Rightarrow> tus_error + upload_id list" where
  "post_partials cfg headers =
     (if concat_is_final headers then
        res_bind (parse_concat_final_urls
                    (case get_str headers HDR_UPLOAD_CONCAT of Some v \<Rightarrow> v | None \<Rightarrow> []))
          (map_result (\<lambda>url. extract_upload_id_from_url url (cfg_base_path cfg)))
      else Inr [])"

text \<open>The size checks, giving the parsed \<open>Upload-Length\<close>.\<close>

definition post_size :: "config \<Rightarrow> header_map \<Rightarrow> tus_error + u64 option" where
  "post_size cfg headers =
     res_bind (parse_upload_length headers) (\<lambda>upload_length.
       (let defer = has_defer_length headers
        in if upload_length = None \<and> \<not> defer \<and> \<not> concat_is_final headers
           then Inl MissingUploadLength
           else if defer \<and> \<not> ext_creation_defer_length (cfg_extensions cfg)
           then Inl (ExtensionNotEnabled ''creation-defer-length'')
           else
             (case upload_length of
                Some n \<Rightarrow>
                  (if 0 < cfg_max_size cfg \<and> cfg_max_size cfg < n
                   then Inl (EntityTooLarge (cfg_max_size cfg)) else Inr upload_length)
              | None \<Rightarrow> Inr upload_length)))"

definition post_build_info ::
  "externals \<Rightarrow> config \<Rightarrow> req_env \<Rightarrow> header_map \<Rightarrow> tus_error + upload_info" where
  "post_build_info x cfg e headers =
     (if concat_is_final headers \<and> \<not> ext_concatenation (cfg_extensions cfg)
      then Inl (ExtensionNotEnabled ''concatenation'')
      else
        res_bind (post_size cfg headers) (\<lambda>upload_length.
        res_bind (post_metadata x headers) (\<lambda>metadata.
        res_bind (post_partials cfg headers) (\<lambda>partials.
        res_bind (post_expires x cfg e) (\<lambda>expires.
          Inr ((upload_info_new (UploadId (env_uuid e)) upload_length)
                 \<lparr>info_metadata := metadata,
                  info_size_is_deferred := has_defer_length headers,
                  info_is_partial := (get_str headers HDR_UPLOAD_CONCAT = Some ''partial''),
                  info_is_final := concat_is_final headers,
                  info_partial_uploads := partials,
                  info_expires_at := expires\<rparr>))))))"

definition post_pre_create :: "config \<Rightarrow> upload_info \<Rightarrow> tus_error + upload_info" where
  "post_pre_create cfg info =
     (case pre_create (cfg_hooks cfg) of
        None \<Rightarrow> Inr info
      | Some cb \<Rightarrow>
          res_bind (cb info) (\<lambda>changes.
          res_bind (case ch_id changes of
                      None \<Rightarrow> Inr info
                    | Some i \<Rightarrow> res_bind (upload_id_validate i) (\<lambda>_. Inr (info\<lparr>info_id := i\<rparr>)))
            (\<lambda>info.
              (let info = (case ch_metadata changes of
                             None \<Rightarrow> info | Some m \<Rightarrow> info\<lparr>info_metadata := m\<rparr>);
                   info = (case ch_storage changes of
                             None \<Rightarrow> info | Some s \<Rightarrow> info\<lparr>info_storage := s\<rparr>)
               in Inr info))))"

section \<open>The effects\<close>

definition fetch_partial_info ::
  "('s, 'l) tus_handler \<Rightarrow> upload_id \<Rightarrow> ('s, 'l, upload_info) hop" where
  "fetch_partial_info h i =
     sm_bind (on_store (ds_get_upload (h_store h) i)) (\<lambda>upload.
     sm_bind (on_store (up_get_info (h_store h) upload)) (\<lambda>info.
     sm_bind (sm_guard (info_is_partial info) (NotPartialUpload (as_str i))) (\<lambda>_.
     sm_bind (sm_guard (is_complete info) (PartialUploadIncomplete (as_str i))) (\<lambda>_.
     sm_return info))))"

definition fetch_partial_infos ::
  "('s, 'l) tus_handler \<Rightarrow> upload_id list \<Rightarrow> ('s, 'l, upload_info list) hop" where
  "fetch_partial_infos h ids = sm_map (fetch_partial_info h) ids"

definition post_concatenate ::
  "('s, 'l) tus_handler \<Rightarrow> upload_id \<Rightarrow> upload_info \<Rightarrow> ('s, 'l, unit) hop" where
  "post_concatenate h upload info =
     sm_when (info_is_final info \<and> ext_concatenation (cfg_extensions (h_config h)))
       (sm_bind (fetch_partial_infos h (info_partial_uploads info)) (\<lambda>partials.
        on_store (up_concatenate (h_store h) upload partials)))"

text \<open>The chunk that may come with the creation; 0 bytes when there is none.\<close>

definition post_first_chunk ::
  "('s, 'l) tus_handler \<Rightarrow> tus_request \<Rightarrow> upload_id \<Rightarrow> ('s, 'l, u64) hop" where
  "post_first_chunk h req upload =
     (if ext_creation_with_upload (cfg_extensions (h_config h)) then
        (case req_headers req HDR_CONTENT_TYPE of
           None \<Rightarrow> sm_return 0
         | Some ct \<Rightarrow>
             (if starts_with (case to_str ct of Some s \<Rightarrow> s | None \<Rightarrow> []) CONTENT_TYPE_OCTET_STREAM
              then (case req_body req of
                      None \<Rightarrow> sm_return 0
                    | Some body \<Rightarrow> on_store (up_write_chunk (h_store h) upload 0 body))
              else sm_return 0))
      else sm_return 0)"

definition post_remove_partial :: "('s, 'l) tus_handler \<Rightarrow> upload_id \<Rightarrow> ('s, 'l, unit) hop" where
  "post_remove_partial h partial_id =
     sm_bind (on_store (ds_get_upload (h_store h) partial_id)) (\<lambda>u.
     sm_bind
       (case pre_terminate (cfg_hooks (h_config h)) of
          None \<Rightarrow> sm_return ()
        | Some cb \<Rightarrow>
            sm_bind (on_store (up_get_info (h_store h) u)) (\<lambda>partial_info. sm_lift (cb partial_info)))
     (\<lambda>_.
     sm_bind (on_store (up_delete (h_store h) u)) (\<lambda>_.
     emit h (UploadTerminated partial_id))))"

definition post_cleanup ::
  "('s, 'l) tus_handler \<Rightarrow> upload_id \<Rightarrow> bool \<Rightarrow> upload_info \<Rightarrow> ('s, 'l, upload_info) hop" where
  "post_cleanup h upload is_final final_info =
     (if is_final \<and> ext_concatenation (cfg_extensions (h_config h))
         \<and> ext_cleanup_concat_partials (cfg_extensions (h_config h))
      then sm_bind (sm_for (info_partial_uploads final_info) (post_remove_partial h)) (\<lambda>_.
             on_store (up_get_info (h_store h) upload))
      else sm_return final_info)"

definition post_headers ::
  "externals \<Rightarrow> config \<Rightarrow> string \<Rightarrow> upload_info \<Rightarrow> tus_error + response_headers" where
  "post_headers x cfg location info =
     (if \<not> x_hv_ok x location then Inl (Internal ''bad location'')
      else
        (let h = [HDR_LOCATION \<mapsto> location,
                  HDR_UPLOAD_OFFSET \<mapsto> u64_header (x_hv_ok x) (info_offset info)];
             h = (case info_size info of
                    Some n \<Rightarrow> h(HDR_UPLOAD_LENGTH \<mapsto> u64_header (x_hv_ok x) n) | None \<Rightarrow> h)
         in Inr (if ext_expiration (cfg_extensions cfg)
                 then insert_expires x (info_expires_at info) h else h)))"

definition exceeds_declared :: "upload_info \<Rightarrow> u64 \<Rightarrow> tus_error + unit" where
  "exceeds_declared info bytes_written =
     (case info_size info of
        Some declared \<Rightarrow>
          (if declared < bytes_written then Inl (ExceedsUploadLength declared bytes_written)
           else Inr ())
      | None \<Rightarrow> Inr ())"

definition post_effects ::
  "externals \<Rightarrow> ('s, 'l) tus_handler \<Rightarrow> tus_request \<Rightarrow> upload_info \<Rightarrow> ('s, 'l, tus_response) hop"
where
  "post_effects x h req info =
     sm_bind (on_store (ds_create_upload (h_store h) info)) (\<lambda>upload.
     sm_bind (post_concatenate h upload info) (\<lambda>_.
     sm_bind (post_first_chunk h req upload) (\<lambda>bytes_written.
     sm_bind (on_store (up_get_info (h_store h) upload)) (\<lambda>final_info.
     sm_bind (sm_lift (exceeds_declared final_info bytes_written)) (\<lambda>_.
     sm_bind (post_cleanup h upload (info_is_final info) final_info) (\<lambda>final_info.
     sm_bind (emit h (UploadCreated final_info)) (\<lambda>_.
     sm_bind (finish_if_complete h upload final_info) (\<lambda>_.
     sm_bind (sm_lift (post_headers x (h_config h)
                (build_location (h_config h) (info_id final_info) (req_headers req))
                final_info)) (\<lambda>headers.
     sm_return (response x (h_config h) 201 headers []))))))))))"

definition post_handle ::
  "externals \<Rightarrow> ('s, 'l) tus_handler \<Rightarrow> req_env \<Rightarrow> tus_request \<Rightarrow> ('s, 'l, tus_response) hop"
where
  "post_handle x h e req =
     sm_bind (sm_lift (check_tus_resumable (req_headers req))) (\<lambda>_.
     sm_bind (sm_guard (ext_creation (cfg_extensions (h_config h)))
                (ExtensionNotEnabled ''creation'')) (\<lambda>_.
     sm_bind (sm_lift (post_build_info x (h_config h) e (req_headers req))) (\<lambda>info.
     sm_bind (sm_lift (post_pre_create (h_config h) info)) (\<lambda>info.
     post_effects x h req info))))"

end
