(* ===== verification/Tus_Dispatch.thy ===== *)
theory Tus_Dispatch
  imports Handler_Read Handler_Post
begin

text \<open>
  \<open>TusHandler::handle\<close>: the dispatch on the method, and errors turned into responses.
\<close>

definition dispatch ::
  "externals \<Rightarrow> ('s, 'l) tus_handler \<Rightarrow> req_env \<Rightarrow> tus_request \<Rightarrow> ('s, 'l, tus_response) hop"
where
  "dispatch x h e req =
     (case req_method req of
        OPTIONS \<Rightarrow> options_handle x h e req
      | HEAD \<Rightarrow> head_handle x h e req
      | GET \<Rightarrow> get_handle x h e req
      | POST \<Rightarrow> post_handle x h e req
      | PATCH \<Rightarrow> patch_handle x h e req
      | DELETE \<Rightarrow> delete_handle x h e req
      | OtherMethod m \<Rightarrow> sm_fail MethodNotAllowed)"

definition handle ::
  "externals \<Rightarrow> ('s, 'l) tus_handler \<Rightarrow> req_env \<Rightarrow> tus_request \<Rightarrow> ('s, 'l) world
     \<Rightarrow> tus_response \<times> ('s, 'l) world" where
  "handle x h e req w =
     (case dispatch x h e req w of
        (Inr resp, w') \<Rightarrow> (resp, w')
      | (Inl err, w') \<Rightarrow> (error_response x (h_config h) err, w'))"

text \<open>A sequence of requests, each with its surroundings, handled one after the other.\<close>

fun handle_all ::
  "externals \<Rightarrow> ('s, 'l) tus_handler \<Rightarrow> (req_env \<times> tus_request) list \<Rightarrow> ('s, 'l) world
     \<Rightarrow> tus_response list \<times> ('s, 'l) world" where
  "handle_all x h [] w = ([], w)"
| "handle_all x h ((e, req) # rs) w =
     (case handle x h e req w of
        (resp, w') \<Rightarrow> (case handle_all x h rs w' of (resps, w'') \<Rightarrow> (resp # resps, w'')))"

text \<open>An answer below 400 is the handler's own; an error answer leaves no response of its own.\<close>

lemma handle_success:
  assumes "handle x h e req w = (resp, w')" and "resp_status resp < 400"
  shows "dispatch x h e req w = (Inr resp, w')"
  using assms status_code_range
  by (auto simp: handle_def not_less [symmetric] split: prod.splits sum.splits)

lemma handle_eqI:
  "dispatch x h e req w = (Inl er, w') \<Longrightarrow> handle x h e req w = (error_response x (h_config h) er, w')"
  "dispatch x h e req w = (Inr resp, w') \<Longrightarrow> handle x h e req w = (resp, w')"
  by (simp_all add: handle_def)

end
