(* ===== verification/Handler_Facts.thy ===== *)
theory Handler_Facts
  imports Tus_Dispatch
begin

text \<open>
  What the handlers do on a store that meets the contract \<open>upload_store\<close>: the exact results of
  the handlers that only read, and for the others the sequence of store operations a request
  performs. Proved once in the locale, for every back end that interprets it.
\<close>

section \<open>Locks\<close>

lemma with_lock_result:
  fixes h :: "('s, 'l) tus_handler" and body :: "('s, 'l, 'a) hop"
  assumes "with_lock h i body w = (r, w')"
  obtains (no_lock) e where "r = Inl e" and "w_store w' = w_store w" and "w_events w' = w_events w"
    | (held) l w1 where "body (w\<lparr>w_lock := l\<rparr>) = (r, w1)" and "w_store w' = w_store w1"
        and "w_events w' = w_events w1"
proof (cases rule: with_lock_cases [where h = h and i = i and body = body and w = w])
  case (refused e l)
  with assms that(1) show ?thesis by fastforce
next
  case (held l r' w1 l')
  with assms that(2) show ?thesis by fastforce
qed

text \<open>Without a locker the body runs alone.\<close>

lemma with_lock_none [simp]: "h_locker h = None \<Longrightarrow> with_lock h i body = body"
  by (rule ext) (simp add: with_lock_def)

lemma request_id_valid: "request_id req = Inr i \<Longrightarrow> valid_id i"
  by (simp add: request_id_Inr_iff)

section \<open>Opening an upload\<close>

context opened_store
begin

lemma open_upload:
  assumes "inv (w_store w)" and "valid_id i"
  shows "sm_bind (on_store (ds_get_upload ops i))
           (\<lambda>u. sm_bind (on_store (up_get_info ops u)) (k u)) w =
         (case info_of (w_store w) i of
            None \<Rightarrow> (Inl (NotFound (as_str i)), w) | Some info \<Rightarrow> k i info w)"
proof (cases "info_of (w_store w) i")
  case None
  then show ?thesis
    using get_missing [OF assms None] by (simp add: sm_simps)
next
  case (Some info)
  then have "on_store (ds_get_upload ops i) w = (Inr i, w)"
    using get_present [OF assms] by (simp add: sm_simps)
  moreover have "on_store (up_get_info ops i) w = (Inr info, w)"
    using get_info_present [OF assms(1) Some] by (simp add: sm_simps)
  ultimately show ?thesis by (simp add: sm_simps Some)
qed

text \<open>HEAD: the exact answer in every case, and the world it leaves, untouched.\<close>

lemma head_spec:
  assumes "h_store h = ops" and "inv (w_store w)"
  shows "head_handle x h e req w =
    (case check_tus_resumable (req_headers req) of Inl er \<Rightarrow> Inl er
     | Inr _ \<Rightarrow>
       (case request_id req of Inl er \<Rightarrow> Inl er
        | Inr i \<Rightarrow>
          (case info_of (w_store w) i of
             None \<Rightarrow> Inl (NotFound (as_str i))
           | Some info \<Rightarrow>
               if is_expired e info then Inl Gone
               else Inr (response x (h_config h) 204 (head_headers x info) []))), w)"
proof (cases "check_tus_resumable (req_headers req)")
  case (Inl er)
  then show ?thesis by (simp add: head_handle_def sm_simps)
next
  case (Inr u)
  show ?thesis
  proof (cases "request_id req")
    case (Inl er)
    with Inr show ?thesis by (simp add: head_handle_def sm_simps)
  next
    case (Inr i)
    with \<open>check_tus_resumable _ = Inr u\<close> show ?thesis
      using request_id_valid [OF Inr]
      by (simp add: head_handle_def sm_simps assms open_upload split: option.split)
  qed
qed

text \<open>GET, after the lock: the guards in order, then the stored reader.\<close>

lemma get_locked_spec:
  assumes "h_store h = ops" and "inv (w_store w)" and "valid_id i"
  shows "get_locked x h e i w =
    (case info_of (w_store w) i of
       None \<Rightarrow> Inl (NotFound (as_str i))
     | Some info \<Rightarrow>
         if is_expired e info then Inl Gone
         else if \<not> is_complete info then Inl UploadNotReadyForDownload
         else map_sum id (\<lambda>rd. response_with_body x (h_config h) 200 (get_headers x info)
                (Body_Reader rd)) (fst (up_read_content ops i (w_store w))), w)"
proof (cases "info_of (w_store w) i")
  case None
  then show ?thesis by (simp add: get_locked_def assms open_upload)
next
  case (Some info)
  obtain r s' where rd: "up_read_content ops i (w_store w) = (r, s')" by fastforce
  then have "s' = w_store w" using read_any [OF assms(2) Some] by blast
  with rd Some show ?thesis
    by (cases r) (simp_all add: get_locked_def assms open_upload sm_simps)
qed

lemma get_store:
  assumes "h_store h = ops" and "inv (w_store w)" and "get_handle x h e req w = (r, w')"
  shows "w_store w' = w_store w" and "w_events w' = w_events w"
proof -
  have "w_store w' = w_store w \<and> w_events w' = w_events w"
  proof (cases "cfg_enable_download (h_config h)")
    case False
    then show ?thesis using assms(3) by (simp add: get_handle_def sm_simps)
  next
    case True
    show ?thesis
    proof (cases "request_id req")
      case (Inl er)
      then show ?thesis using assms(3) True by (simp add: get_handle_def sm_simps)
    next
      case (Inr i)
      then have i: "valid_id i" by (simp add: request_id_Inr_iff)
      from assms(3) Inr True have "with_lock h i (get_locked x h e i) w = (r, w')"
        by (simp add: get_handle_def sm_simps)
      then show ?thesis
        by (cases rule: with_lock_result) (auto simp: get_locked_spec assms(1,2) i)
    qed
  qed
  then show "w_store w' = w_store w" and "w_events w' = w_events w" by auto
qed

end

section \<open>PATCH\<close>

text \<open>What the declaration of a length gives on the record.\<close>

definition declared_info ::
  "config \<Rightarrow> header_map \<Rightarrow> upload_info \<Rightarrow> tus_error + u64 option" where
  "declared_info cfg headers info =
     (if info_size_is_deferred info \<and> info_size info = None then
        res_bind (parse_upload_length headers) (\<lambda>declared.
          (case declared of
             None \<Rightarrow> Inr None
           | Some n \<Rightarrow> if 0 < cfg_max_size cfg \<and> cfg_max_size cfg < n
                       then Inl (EntityTooLarge (cfg_max_size cfg)) else Inr (Some n)))
      else Inr None)"

lemma patch_declare_spec:
  "patch_declare h headers i info w =
     (case declared_info (h_config h) headers info of
        Inl er \<Rightarrow> (Inl er, w)
      | Inr None \<Rightarrow> (Inr (), w)
      | Inr (Some n) \<Rightarrow> on_store (up_declare_length (h_store h) i n) w)"
  by (auto simp: patch_declare_def declared_info_def sm_simps Let_def split: sum.split option.split)

text \<open>The bytes a request body holds, once read.\<close>

definition body_bytes :: "tus_request \<Rightarrow> bytes" where
  "body_bytes req =
     (case req_body req of
        None \<Rightarrow> [] | Some r \<Rightarrow> (case read_to_end r of Inl e \<Rightarrow> [] | Inr b \<Rightarrow> b))"

definition request_fits :: "tus_request \<Rightarrow> bool" where
  "request_fits req = (case req_body req of None \<Rightarrow> True | Some r \<Rightarrow> fits_vec r)"

text \<open>A checksum accepts the bytes: there is none, or the digest is the expected one.\<close>

definition checksum_accepts ::
  "externals \<Rightarrow> (checksum_algorithm \<times> bytes) option \<Rightarrow> bytes \<Rightarrow> bool" where
  "checksum_accepts x c b =
     (case c of None \<Rightarrow> True | Some (algorithm, expected) \<Rightarrow> x_digest x algorithm b = expected)"

lemma patch_write_spec:
  "patch_write x h i off body c w =
     (case c of
        None \<Rightarrow> on_store (up_write_chunk (h_store h) i off body) w
      | Some _ \<Rightarrow>
          (case read_to_end body of
             Inl e \<Rightarrow> (Inl (Io e), w)
           | Inr b \<Rightarrow> if checksum_accepts x c b
                      then on_store (up_write_chunk (h_store h) i off [Chunk b]) w
                      else (Inl ChecksumMismatch, w)))"
proof (cases c)
  case None
  then show ?thesis by (simp add: patch_write_def)
next
  case (Some c')
  obtain alg expct where c: "c' = (alg, expct)" by (cases c')
  obtain res cr where r: "checksum_read_to_end (x_rounds x) 0 (checksum_reader_new body alg expct) [] = (res, cr)"
    by fastforce
  note spec = checksum_read_to_end_spec [OF r]
  then have res: "res = read_to_end body" by (simp add: checksum_reader_new_def)
  show ?thesis
  proof (cases res)
    case (Inl e)
    with res have "read_to_end body = Inl e" by simp
    with Inl show ?thesis by (simp add: patch_write_def Some c r sm_simps)
  next
    case (Inr b)
    with res have b: "read_to_end body = Inr b" by simp
    have "cr_hashed cr = b" "cr_algorithm cr = alg" "cr_expected cr = expct"
      using spec b by (simp_all add: checksum_reader_new_def)
    with Inr b show ?thesis
      by (simp add: patch_write_def Some c r sm_simps checksum_verify_def checksum_accepts_def)
  qed
qed

lemma finish_if_complete_spec:
  "finish_if_complete h i info w =
     (if is_complete info then
        (case run_callback (pre_finish (cfg_hooks (h_config h))) info of
           Inl er \<Rightarrow> (Inl er, w)
         | Inr _ \<Rightarrow>
             (case up_finalize (h_store h) i (w_store w) of
                (Inl er, s') \<Rightarrow> (Inl er, w\<lparr>w_store := s'\<rparr>)
              | (Inr _, s') \<Rightarrow> emit h (UploadFinished info) (w\<lparr>w_store := s'\<rparr>)))
      else (Inr (), w))"
  by (auto simp: finish_if_complete_def sm_simps sm_bind_def on_store_def sm_lift_def
      split: sum.split prod.split)

text \<open>The record after a declaration.\<close>

definition info_after :: "u64 option \<Rightarrow> upload_info \<Rightarrow> upload_info" where
  "info_after decl info = (case decl of None \<Rightarrow> info | Some n \<Rightarrow> with_length n info)"

lemma info_after_sel [simp]:
  "info_id (info_after decl info) = info_id info"
  "info_offset (info_after decl info) = info_offset info"
  "info_is_final (info_after decl info) = info_is_final info"
  "info_is_partial (info_after decl info) = info_is_partial info"
  "info_expires_at (info_after decl info) = info_expires_at info"
  by (auto simp: info_after_def with_length_def split: option.split)

lemma declared_info_SomeD:
  "declared_info cfg headers info = Inr (Some n) \<Longrightarrow> info_size info = None"
  by (auto simp: declared_info_def split: if_splits)

context opened_store
begin

text \<open>The declaration as a step of the store.\<close>

definition declares :: "'s \<Rightarrow> upload_id \<Rightarrow> u64 option \<Rightarrow> 's \<Rightarrow> bool" where
  "declares s i decl s' =
     (case decl of None \<Rightarrow> s' = s | Some n \<Rightarrow> up_declare_length ops i n s = (Inr (), s'))"

lemma declares_info:
  assumes "declares s i decl s'" and "inv s" and "info_of s i = Some info"
  shows "inv s'" and "info_of s' = (info_of s)(i \<mapsto> info_after decl info)"
  using assms declare_ok [OF assms(2,3)]
  by (auto simp: declares_def info_after_def fun_upd_idem split: option.splits)

text \<open>What a refused operation may leave behind on an upload.\<close>

definition refuses :: "'s \<Rightarrow> upload_id \<Rightarrow> 's \<Rightarrow> bool" where
  "refuses s i s' \<longleftrightarrow>
     s' = s
     \<or> info_of s i \<noteq> None
       \<and> ((\<exists>n er. up_declare_length ops i n s = (Inl er, s'))
          \<or> (\<exists>off rd er. fits_vec rd \<and> up_write_chunk ops i off rd s = (Inl er, s')))"

lemma refuses_info:
  assumes "refuses s i s'" and "inv s"
  shows "inv s'" and "info_of s' = info_of s"
  using assms by (auto simp: refuses_def dest: declare_err write_err)

lemma patch_write_cases:
  assumes h: "h_store h = ops" and I: "inv (w_store w)" and info: "info_of (w_store w) i = Some info"
    and fits: "fits_vec body" and wr: "patch_write x h i off body c w = (r, w')"
  obtains (ok) b rd where "r = Inr (len_u64 b)" "read_to_end body = Inr b" "checksum_accepts x c b"
      "read_to_end rd = Inr b" "fits_vec rd"
      "up_write_chunk ops i off rd (w_store w) = (Inr (len_u64 b), w_store w')"
    | (err) er where "r = Inl er" "refuses (w_store w) i (w_store w')"
proof -
  have step: thesis if st: "on_store (up_write_chunk ops i off rd) w = (r, w')" and ft: "fits_vec rd"
    and bd: "\<And>b. read_to_end rd = Inr b \<Longrightarrow> read_to_end body = Inr b \<and> checksum_accepts x c b" for rd
  proof (cases r)
    case (Inl er)
    from st Inl have "up_write_chunk ops i off rd (w_store w) = (Inl er, w_store w')"
      by (auto elim!: on_store_InlD)
    with ft info have "refuses (w_store w) i (w_store w')" by (auto simp: refuses_def)
    with Inl show thesis by (rule err)
  next
    case (Inr n)
    with st have up: "up_write_chunk ops i off rd (w_store w) = (Inr n, w_store w')"
      by (auto elim!: on_store_InrD)
    obtain b where b: "read_to_end rd = Inr b" and n: "n = len_u64 b"
      using write_ok [OF I info ft up] by blast
    show thesis
      by (rule ok [of b rd]) (use that(2) that(3) [OF b] b up Inr n in simp_all)
  qed
  show thesis
  proof (cases c)
    case None
    then show thesis
      using step [of body] wr fits by (simp add: patch_write_spec h checksum_accepts_def)
  next
    case (Some c')
    show thesis
    proof (cases "read_to_end body")
      case (Inl e)
      then show thesis using wr err [of "Io e"] by (auto simp add: patch_write_spec Some h refuses_def)
    next
      case (Inr b)
      then have "fits_vec [Chunk b]" using fits by (simp add: fits_vec_def)
      then show thesis
        using step [of "[Chunk b]"] wr err Inr
        by (cases "checksum_accepts x c b") (auto simp: patch_write_spec Some h refuses_def)
    qed
  qed
qed

text \<open>
  A PATCH that passed the guards of the record: what the rest of the handler does, as a sequence
  of store operations. \<open>s1\<close> is the store after the declaration, \<open>s2\<close> after the write.
\<close>

lemma patch_locked_ok:
  assumes h: "h_store h = ops" and I: "inv (w_store w)" and i: "valid_id i"
    and fits: "request_fits req"
    and run: "patch_locked x h e req off i w = (Inr resp, w')"
  obtains info decl c b s1 rd s2 info2 where
    "info_of (w_store w) i = Some info" "\<not> info_is_final info" "info_offset info = off"
    "\<not> is_expired e info" "declared_info (h_config h) (req_headers req) info = Inr decl"
    "declares (w_store w) i decl s1"
    "patch_checksum x (h_config h) (req_headers req) = Inr c"
    "req_body req \<noteq> None" "body_bytes req = b" "read_to_end (the (req_body req)) = Inr b"
    "checksum_accepts x c b"
    "read_to_end rd = Inr b" "fits_vec rd" "up_write_chunk ops i off rd s1 = (Inr (len_u64 b), s2)"
    "inv s2" "info2 = (info_after decl info)\<lparr>info_offset := off + len_u64 b\<rparr>"
    "chunk_fits (info_after decl info) off (len_u64 b)"
    "info_of s2 = (info_of (w_store w))(i \<mapsto> info2)"
    "if is_complete info2 then up_finalize ops i s2 = (Inr (), w_store w') else w_store w' = s2"
    "inv (w_store w')" "info_of (w_store w') = (info_of (w_store w))(i \<mapsto> info2)"
    "resp = response x (h_config h) 204 (patch_headers x (h_config h) info2) []"
proof -
  let ?cfg = "h_config h" and ?hd = "req_headers req"
  obtain info where info: "info_of (w_store w) i = Some info"
    using run by (auto simp: patch_locked_def h open_upload [OF I i] split: option.splits)
  note run1 = run [unfolded patch_locked_def h open_upload [OF I i] info option.case]
  have g: "\<not> info_is_final info" "info_offset info = off" "\<not> is_expired e info"
    using run1 by (auto simp: sm_simps split: if_splits)
  from run1 obtain w1 where d: "patch_declare h ?hd i info w = (Inr (), w1)"
    by (auto simp: sm_simps g elim!: sm_bind_InrE)
  then obtain decl where decl: "declared_info ?cfg ?hd info = Inr decl"
    and s1: "declares (w_store w) i decl (w_store w1)"
    by (fastforce simp: patch_declare_spec declares_def h
        elim!: on_store_InrD split: sum.splits option.splits)
  note inf1 = declares_info [OF s1 I info]
  have info1: "info_of (w_store w1) i = Some (info_after decl info)" by (simp add: inf1)
  from run1 d obtain c where c: "patch_checksum x ?cfg ?hd = Inr c"
    by (auto simp: sm_simps g split: sum.splits)
  from run1 d c obtain body where body: "req_body req = Some body"
    by (cases "req_body req") (auto simp: sm_simps g)
  from run1 d c body obtain n w2 where wr: "patch_write x h i off body c w1 = (Inr n, w2)"
    by (auto simp: sm_simps g elim!: sm_bind_InrE)
  have "fits_vec body" using fits body by (simp add: request_fits_def)
  then obtain b rd where n: "n = len_u64 b" and b: "read_to_end body = Inr b"
    "checksum_accepts x c b" "read_to_end rd = Inr b" "fits_vec rd"
    and up: "up_write_chunk ops i off rd (w_store w1) = (Inr (len_u64 b), w_store w2)"
    by (rule patch_write_cases [OF h inf1(1) info1 _ wr]) auto
  note wo = write_ok [OF inf1(1) info1 b(4) up]
  define info2 where "info2 = (info_after decl info)\<lparr>info_offset := off + len_u64 b\<rparr>"
  have I2: "inv (w_store w2)" and cf: "chunk_fits (info_after decl info) off (len_u64 b)"
    and inf2: "info_of (w_store w2) = (info_of (w_store w))(i \<mapsto> info2)"
    using wo by (simp_all add: n info2_def inf1)
  have get2: "on_store (up_get_info ops i) w2 = (Inr info2, w2)"
    using get_info_present [OF I2, of i info2] by (simp add: inf2 sm_simps)
  define w3 where "w3 = snd (emit h (UploadProgress info2) w2)"
  have w3: "emit h (UploadProgress info2) w2 = (Inr (), w3)" "w_store w3 = w_store w2"
    by (simp_all add: w3_def emit_eq [symmetric])
  from run1 d c body wr get2 w3 have fin: "finish_if_complete h i info2 w3 = (Inr (), w')"
    and resp: "resp = response x ?cfg 204 (patch_headers x ?cfg info2) []"
    by (auto simp: sm_simps g elim!: sm_bind_InrE)
  have f: "if is_complete info2 then up_finalize ops i (w_store w2) = (Inr (), w_store w')
           else w_store w' = w_store w2"
    using fin w3 by (auto simp: finish_if_complete_spec h emit_def split: sum.splits prod.splits if_splits)
  have I': "inv (w_store w')" "info_of (w_store w') = (info_of (w_store w))(i \<mapsto> info2)"
    using f finalize_any [OF I2, of i info2] I2 by (auto simp: inf2 split: if_splits)
  show thesis
    by (rule that [OF info g decl s1 c _ _ _ b(2) b(3) b(4) _ I2 info2_def cf inf2 f I' resp])
      (use body b(1) up n in \<open>simp_all add: body_bytes_def\<close>)
qed

text \<open>
  A PATCH that fails after the lock: nothing was changed, only the length was declared, or the
  chunk is in the store and the completion failed.
\<close>

lemma patch_locked_err:
  assumes h: "h_store h = ops" and I: "inv (w_store w)" and i: "valid_id i"
    and fits: "request_fits req"
    and run: "patch_locked x h e req off i w = (Inl er, w')"
  obtains
      (early) "refuses (w_store w) i (w_store w')"
    | (declared) info decl s1 where "info_of (w_store w) i = Some info" "\<not> info_is_final info"
        "declared_info (h_config h) (req_headers req) info = Inr decl"
        "declares (w_store w) i decl s1" "refuses s1 i (w_store w')"
    | (written) info decl s1 rd b s2 where "info_of (w_store w) i = Some info"
        "\<not> info_is_final info" "info_offset info = off"
        "declared_info (h_config h) (req_headers req) info = Inr decl"
        "declares (w_store w) i decl s1" "read_to_end rd = Inr b" "fits_vec rd"
        "up_write_chunk ops i off rd s1 = (Inr (len_u64 b), s2)" "body_bytes req = b"
        "w_store w' = s2 \<and> pre_finish (cfg_hooks (h_config h)) \<noteq> None
         \<or> up_finalize ops i s2 = (Inl er, w_store w')"
proof (cases "info_of (w_store w) i")
  case None
  then show ?thesis
    using run early by (simp add: patch_locked_def h open_upload [OF I i] refuses_def)
next
  case (Some info)
  let ?cfg = "h_config h" and ?hd = "req_headers req"
  note run1 = run [unfolded patch_locked_def h open_upload [OF I i] Some option.case]
  show ?thesis
  proof (cases "info_is_final info \<or> info_offset info \<noteq> off \<or> is_expired e info")
    case True
    then show ?thesis using run1 early by (auto simp: sm_simps refuses_def split: if_splits)
  next
    case False
    then have g: "\<not> info_is_final info" "info_offset info = off" "\<not> is_expired e info" by auto
    show ?thesis
    proof (cases "patch_declare h ?hd i info w")
      case (Pair res w1)
      show ?thesis
      proof (cases res)
        case (Inl er')
        with Pair have "refuses (w_store w) i (w_store w1)"
          by (fastforce simp: patch_declare_spec refuses_def h Some
              elim!: on_store_InlD split: sum.splits option.splits)
        then show ?thesis using early run1 Pair Inl by (simp add: sm_simps g)
      next
        case (Inr u)
        with Pair obtain decl where decl: "declared_info ?cfg ?hd info = Inr decl"
          and s1: "declares (w_store w) i decl (w_store w1)"
          by (fastforce simp: patch_declare_spec declares_def h
              elim!: on_store_InrD split: sum.splits option.splits)
        note inf1 = declares_info [OF s1 I Some]
        have info1: "info_of (w_store w1) i = Some (info_after decl info)" by (simp add: inf1)
        note dcl = declared [OF Some g(1) decl s1]
        show ?thesis
        proof (cases "(\<exists>er. patch_checksum x ?cfg ?hd = Inl er) \<or> req_body req = None")
          case True
          then show ?thesis
            using run1 Pair Inr dcl by (auto simp: sm_simps g refuses_def split: sum.splits)
        next
          case False
          then obtain c body where c: "patch_checksum x ?cfg ?hd = Inr c"
            and body: "req_body req = Some body"
            by (cases "patch_checksum x ?cfg ?hd") auto
          then have fb: "fits_vec body" using fits by (simp add: request_fits_def)
          obtain res2 w2 where wr: "patch_write x h i off body c w1 = (res2, w2)" by fastforce
          from h inf1(1) info1 fb wr show ?thesis
          proof (cases rule: patch_write_cases)
            case (err er')
            then show ?thesis using run1 Pair Inr c body wr dcl by (simp add: sm_simps g)
          next
            case (ok b rd)
            define info2 where "info2 = (info_after decl info)\<lparr>info_offset := off + len_u64 b\<rparr>"
            have I2: "inv (w_store w2)" and inf2: "info_of (w_store w2) i = Some info2"
              using write_ok [OF inf1(1) info1 ok(5,6)] by (simp_all add: info2_def)
            have get2: "on_store (up_get_info ops i) w2 = (Inr info2, w2)"
              using get_info_present [OF I2 inf2] by (simp add: sm_simps)
            define w3 where "w3 = snd (emit h (UploadProgress info2) w2)"
            have w3: "emit h (UploadProgress info2) w2 = (Inr (), w3)" "w_store w3 = w_store w2"
              by (simp_all add: w3_def emit_eq [symmetric])
            have "finish_if_complete h i info2 w3 = (Inl er, w')"
              using run1 Pair Inr c body wr ok(1) get2 w3
              by (cases "finish_if_complete h i info2 w3"; cases "fst (finish_if_complete h i info2 w3)")
                 (auto simp: sm_simps g)
            then have "w_store w' = w_store w2 \<and> pre_finish (cfg_hooks ?cfg) \<noteq> None
                \<or> up_finalize ops i (w_store w2) = (Inl er, w_store w')"
              using w3 by (auto simp: finish_if_complete_spec h emit_def run_callback_def
                  split: sum.splits prod.splits if_splits option.splits)
            moreover have "body_bytes req = b" using ok(2) body by (simp add: body_bytes_def)
            ultimately show ?thesis
              by (intro written [OF Some g(1,2) decl s1 ok(4,5,6)])
          qed
        qed
      qed
    qed
  qed
qed

section \<open>Requests refused without effect\<close>

lemma patch_locked_mismatch:
  assumes "h_store h = ops" and "inv (w_store w)" and "valid_id i"
    and "info_of (w_store w) i = Some info" and "\<not> info_is_final info" and "info_offset info \<noteq> off"
  shows "patch_locked x h e req off i w = (Inl (OffsetMismatch (info_offset info) off), w)"
  using assms(4-6) by (simp add: patch_locked_def assms(1) open_upload [OF assms(2,3)] sm_simps)

text \<open>
  A request about an upload that is not there, or a HEAD, GET or PATCH about one that has expired,
  is an error that leaves the store as it was.
\<close>

lemma patch_handle_lock:
  assumes "patch_handle x h e req w = (r, w')" and "request_id req = Inr i"
  obtains (early) er where "r = Inl er" and "w' = w"
    | (locked) off where "with_lock h i (patch_locked x h e req off i) w = (r, w')"
  using assms
  by (auto simp: patch_handle_def sm_simps Let_def split: sum.splits if_splits)

lemma refused_without_effect:
  fixes h :: "('s, 'l) tus_handler" and w :: "('s, 'l) world"
  assumes h: "h_store h = ops" and I: "inv (w_store w)" and i: "request_id req = Inr i"
    and why: "case info_of (w_store w) i of
                None \<Rightarrow> req_method req \<in> {HEAD, GET, PATCH, DELETE}
              | Some y \<Rightarrow> is_expired e y \<and> req_method req \<in> {HEAD, GET, PATCH}"
    and run: "dispatch x h e req w = (r, w')"
  shows "\<exists>er. r = Inl er" and "w_store w' = w_store w"
proof -
  note v = request_id_valid [OF i]
  have none: "info_of (w_store w) i = None \<or> (\<exists>y. info_of (w_store w) i = Some y \<and> is_expired e y)"
    using why by (auto split: option.splits)
  have lock: "(\<exists>er. r = Inl er) \<and> w_store w' = w_store w"
    if "with_lock h i body w = (r, w')"
      and body: "\<And>wl. w_store wl = w_store w \<Longrightarrow> \<exists>er. body wl = (Inl er, wl)"
    for body :: "('s, 'l, tus_response) hop"
    using that(1)
  proof (cases rule: with_lock_result)
    case (no_lock er)
    then show ?thesis by simp
  next
    case (held l w1)
    then show ?thesis using body [of "w\<lparr>w_lock := l\<rparr>"] by auto
  qed
  have "(\<exists>er. r = Inl er) \<and> w_store w' = w_store w"
  proof -
    consider (head) "req_method req = HEAD" | (get) "req_method req = GET"
      | (patch) "req_method req = PATCH"
      | (delete) "req_method req = DELETE" "info_of (w_store w) i = None"
      using why by (auto split: option.splits)
    then show ?thesis
    proof cases
      case head
      then show ?thesis
        using run none head_spec [OF h I, of x e req] i
        by (auto simp: dispatch_def split: sum.splits)
    next
      case get
      have body: "\<exists>er. get_locked x h e i wl = (Inl er, wl)" if "w_store wl = w_store w" for wl
        using get_locked_spec [OF h _ v, of wl x e] I none that by auto
      from run get i show ?thesis
        by (cases "cfg_enable_download (h_config h)")
           (auto simp: dispatch_def get_handle_def sm_simps dest: lock [OF _ body])
    next
      case patch
      have body: "\<exists>er. patch_locked x h e req off i wl = (Inl er, wl)"
        if st: "w_store wl = w_store w" for wl off
      proof -
        have Il: "inv (w_store wl)" using I st by simp
        show ?thesis
          using none st by (auto simp: patch_locked_def h open_upload [OF Il v] sm_simps)
      qed
      from run patch have "patch_handle x h e req w = (r, w')" by (simp add: dispatch_def)
      then show ?thesis using i
        by (cases rule: patch_handle_lock) (auto dest: lock [OF _ body])
    next
      case delete
      have veto: "delete_veto h i w = (Inl (NotFound (as_str i)), w)
          \<or> delete_veto h i w = (Inr (), w)"
        using delete(2)
        by (cases "pre_terminate (cfg_hooks (h_config h))")
           (simp_all add: delete_veto_def sm_simps h open_upload [OF I v])
      have body: "\<exists>er. delete_locked x h i wl = (Inl er, wl)" if st: "w_store wl = w_store w" for wl
      proof -
        have "on_store (ds_get_upload ops i) wl = (Inl (NotFound (as_str i)), wl)"
          using get_missing [of "w_store wl" i] I v delete(2) st by (simp add: on_store_def)
        then show ?thesis by (simp add: delete_locked_def h sm_simps)
      qed
      from run delete(1) i show ?thesis
        using veto
        by (auto simp: dispatch_def delete_handle_def sm_simps dest: lock [OF _ body]
            split: sum.splits if_splits)
    qed
  qed
  then show "\<exists>er. r = Inl er" and "w_store w' = w_store w" by auto
qed

end

end
