(* ===== verification/Tus_Spec.thy ===== *)
theory Tus_Spec
  imports Tus_Store
begin

text \<open>
  The abstract protocol: what the requests may do to the uploads, as a step relation on the map
  from identifiers to records and bytes, labelled with events. The handlers refine it
  (theory \<open>Handler_Refinement\<close>); its invariant and its frame and content lemmas are proved
  here by rule induction, with no reference to a store or a handler.
\<close>

section \<open>Steps\<close>

datatype store_event =
    Ev_Create upload_info
  | Ev_Declare upload_id u64
  | Ev_Append upload_id bytes
  | Ev_Overwrite upload_id bytes
  | Ev_Concat upload_id "upload_info list"
  | Ev_Delete upload_id

fun event_id :: "store_event \<Rightarrow> upload_id" where
  "event_id (Ev_Create x) = info_id x"
| "event_id (Ev_Declare i n) = i"
| "event_id (Ev_Append i b) = i"
| "event_id (Ev_Overwrite i b) = i"
| "event_id (Ev_Concat i ps) = i"
| "event_id (Ev_Delete i) = i"

text \<open>
  \<open>Overwrite\<close> is the first chunk of a creation request written over the bytes just assembled
  from partial uploads. An append writes at the offset of the record, not at the end of the bytes:
  that the two agree is the invariant.
\<close>

inductive abs_step :: "uploads \<Rightarrow> store_event \<Rightarrow> uploads \<Rightarrow> bool" where
  step_create:
    "info_offset x = 0 \<Longrightarrow> abs_step a (Ev_Create x) (a(info_id x \<mapsto> (x, [])))"
| step_declare:
    "a i = Some (x, d) \<Longrightarrow> \<not> info_is_final x \<Longrightarrow> info_size x = None \<Longrightarrow>
       abs_step a (Ev_Declare i n) (a(i \<mapsto> (with_length n x, d)))"
| step_append:
    "a i = Some (x, d) \<Longrightarrow> \<not> info_is_final x \<Longrightarrow> length b < 2 ^ 63 \<Longrightarrow>
       chunk_fits x (info_offset x) (len_u64 b) \<Longrightarrow>
       abs_step a (Ev_Append i b)
         (a(i \<mapsto> (x\<lparr>info_offset := info_offset x + len_u64 b\<rparr>,
                 write_at d (unat (info_offset x)) b)))"
| step_overwrite:
    "a i = Some (x, d) \<Longrightarrow> info_is_final x \<Longrightarrow> info_size x = Some (len_u64 d) \<Longrightarrow>
       length b < 2 ^ 63 \<Longrightarrow> chunk_fits x 0 (len_u64 b) \<Longrightarrow>
       abs_step a (Ev_Overwrite i b)
         (a(i \<mapsto> (x\<lparr>info_offset := len_u64 b\<rparr>, write_at d 0 b)))"
| step_concat:
    "a i = Some (x, d) \<Longrightarrow> info_is_final x \<Longrightarrow>
       list_all2 (\<lambda>p b. a (info_id p) = Some (p, b)) ps bs \<Longrightarrow>
       list_all (\<lambda>p. info_is_partial p \<and> is_complete p) ps \<Longrightarrow>
       abs_step a (Ev_Concat i ps)
         (a(i \<mapsto> (with_total (len_u64 (concat bs)) x, concat bs)))"
| step_delete:
    "a i \<noteq> None \<Longrightarrow> abs_step a (Ev_Delete i) (a(i := None))"

inductive_cases abs_step_createE: "abs_step a (Ev_Create x) a'"
inductive_cases abs_step_declareE: "abs_step a (Ev_Declare i n) a'"
inductive_cases abs_step_appendE: "abs_step a (Ev_Append i b) a'"
inductive_cases abs_step_overwriteE: "abs_step a (Ev_Overwrite i b) a'"
inductive_cases abs_step_concatE: "abs_step a (Ev_Concat i ps) a'"
inductive_cases abs_step_deleteE: "abs_step a (Ev_Delete i) a'"

inductive abs_steps :: "uploads \<Rightarrow> store_event list \<Rightarrow> uploads \<Rightarrow> bool" where
  steps_nil: "abs_steps a [] a"
| steps_cons: "abs_step a e b \<Longrightarrow> abs_steps b es c \<Longrightarrow> abs_steps a (e # es) c"

inductive_simps abs_steps_nil_iff [simp]: "abs_steps a [] b"
inductive_simps abs_steps_cons_iff: "abs_steps a (e # es) b"

lemma abs_steps_append:
  "abs_steps a (es @ fs) c \<longleftrightarrow> (\<exists>b. abs_steps a es b \<and> abs_steps b fs c)"
  by (induction es arbitrary: a) (auto simp: abs_steps_cons_iff)

lemma abs_steps_trans: "abs_steps a es b \<Longrightarrow> abs_steps b fs c \<Longrightarrow> abs_steps a (es @ fs) c"
  by (auto simp: abs_steps_append)

lemma abs_steps_single [simp]: "abs_steps a [e] b \<longleftrightarrow> abs_step a e b"
  by (simp add: abs_steps_cons_iff)

section \<open>Frame\<close>

lemma abs_step_frame: "abs_step a e a' \<Longrightarrow> j \<noteq> event_id e \<Longrightarrow> a' j = a j"
  by (erule abs_step.cases) auto

lemma abs_steps_frame:
  "abs_steps a es a' \<Longrightarrow> j \<notin> event_id ` set es \<Longrightarrow> a' j = a j"
  by (induction rule: abs_steps.induct) (auto simp: abs_step_frame)

section \<open>Invariant\<close>

text \<open>
  The offset of an upload that is not final is the number of its bytes. A final upload is the
  assembled total, or an empty record whose assembly failed. Every record is stored under its own
  identifier.
\<close>

definition upload_ok :: "upload_state \<Rightarrow> bool" where
  "upload_ok = (\<lambda>(x, d).
     if info_is_final x
     then info_size x = Some (len_u64 d) \<or> d = [] \<and> info_offset x = 0
     else info_offset x = len_u64 d \<and> length d < 2 ^ 64)"

definition uploads_ok :: "uploads \<Rightarrow> bool" where
  "uploads_ok a \<longleftrightarrow> (\<forall>i u. a i = Some u \<longrightarrow> info_id (fst u) = i \<and> upload_ok u)"

lemma uploads_okD:
  assumes "uploads_ok a" and "a i = Some (x, d)"
  shows "info_id x = i" and "upload_ok (x, d)"
  using assms by (auto simp: uploads_ok_def)

lemma uploads_ok_upd:
  "uploads_ok a \<Longrightarrow> info_id (fst u) = i \<Longrightarrow> upload_ok u \<Longrightarrow> uploads_ok (a(i \<mapsto> u))"
  by (auto simp: uploads_ok_def)

lemma uploads_ok_empty [simp]: "uploads_ok Map.empty"
  by (simp add: uploads_ok_def)

lemma uploads_ok_del: "uploads_ok a \<Longrightarrow> uploads_ok (a(i := None))"
  by (auto simp: uploads_ok_def)

text \<open>On a well-formed upload an append adds its bytes at the end.\<close>

lemma append_at_end:
  assumes "upload_ok (x, d)" and "\<not> info_is_final x"
  shows "write_at d (unat (info_offset x)) b = d @ b"
proof -
  have "unat (info_offset x) = length d"
    using assms by (simp add: upload_ok_def unat_len_u64)
  then show ?thesis by simp
qed

lemma append_ok:
  assumes "upload_ok (x, d)" and "\<not> info_is_final x" and "length b < 2 ^ 63"
    and "chunk_fits x (info_offset x) (len_u64 b)"
  shows "upload_ok (x\<lparr>info_offset := info_offset x + len_u64 b\<rparr>, d @ b)"
proof -
  have d: "length d < 2 ^ 64" "info_offset x = len_u64 d"
    using assms(1,2) by (auto simp: upload_ok_def)
  have "unat (len_u64 d) + unat (len_u64 b) < 2 ^ 64"
    using assms(4) d(2) by (auto simp: chunk_fits_def checked_add_Some_iff)
  then have "length d + length b < 2 ^ 64"
    using d(1) assms(3) by (simp add: unat_len_u64)
  then show ?thesis
    using assms(2) d(2) by (simp add: upload_ok_def len_u64_append)
qed

lemma overwrite_ok:
  assumes "info_is_final x" and "info_size x = Some (len_u64 d)" and "length b < 2 ^ 63"
    and "chunk_fits x 0 (len_u64 b)"
  shows "upload_ok (x\<lparr>info_offset := len_u64 b\<rparr>, write_at d 0 b)"
proof -
  have "unat (len_u64 b) \<le> unat (len_u64 d)"
    using assms(2,4) by (simp add: chunk_fits_def word_le_nat_alt)
  moreover have "unat (len_u64 b) = length b"
    using assms(3) by (simp add: unat_len_u64)
  ultimately have "length b \<le> length d"
    using unat_len_u64_le [of d] by simp
  then have "length (write_at d 0 b) = length d" by (rule write_at_start)
  then show ?thesis
    using assms(1,2) by (simp add: upload_ok_def len_u64_def)
qed

lemma abs_step_ok: "abs_step a e a' \<Longrightarrow> uploads_ok a \<Longrightarrow> uploads_ok a'"
proof (induction rule: abs_step.induct)
  case (step_create x a)
  then show ?case by (intro uploads_ok_upd) (simp_all add: upload_ok_def)
next
  case (step_declare a i x d n)
  note ok = uploads_okD [OF step_declare.prems step_declare.hyps(1)]
  show ?case
    by (rule uploads_ok_upd [OF step_declare.prems])
       (use ok step_declare.hyps in \<open>auto simp: upload_ok_def with_length_def\<close>)
next
  case (step_append a i x d b)
  note ok = uploads_okD [OF step_append.prems step_append.hyps(1)]
  show ?case
    by (rule uploads_ok_upd [OF step_append.prems])
       (use ok step_append.hyps in \<open>simp_all add: append_at_end append_ok\<close>)
next
  case (step_overwrite a i x d b)
  note ok = uploads_okD [OF step_overwrite.prems step_overwrite.hyps(1)]
  show ?case
    by (rule uploads_ok_upd [OF step_overwrite.prems])
       (use ok step_overwrite.hyps in \<open>simp_all add: overwrite_ok\<close>)
next
  case (step_concat a i x d ps bs)
  note ok = uploads_okD [OF step_concat.prems step_concat.hyps(1)]
  show ?case
    by (rule uploads_ok_upd [OF step_concat.prems])
       (use ok step_concat.hyps in \<open>simp_all add: upload_ok_def with_total_def\<close>)
next
  case (step_delete a i)
  then show ?case by (intro uploads_ok_del)
qed

lemma abs_steps_ok: "abs_steps a es a' \<Longrightarrow> uploads_ok a \<Longrightarrow> uploads_ok a'"
  by (induction rule: abs_steps.induct) (auto intro: abs_step_ok)

text \<open>The declared size of a complete upload is the number of its bytes.\<close>

lemma complete_size:
  assumes "upload_ok (x, d)" and "is_complete x"
  shows "info_size x = Some (len_u64 d)"
  using assms by (auto simp: upload_ok_def is_complete_iff split: if_splits)

section \<open>Content\<close>

text \<open>The bytes a sequence of events appends to an upload.\<close>

fun appended :: "upload_id \<Rightarrow> store_event list \<Rightarrow> bytes" where
  "appended i [] = []"
| "appended i (Ev_Append j b # es) = (if j = i then b else []) @ appended i es"
| "appended i (e # es) = appended i es"

lemma appended_append: "appended i (es @ fs) = appended i es @ appended i fs"
  by (induction i es rule: appended.induct) auto

text \<open>Events that neither create nor assemble \<open>i\<close>.\<close>

fun keeps_bytes :: "upload_id \<Rightarrow> store_event \<Rightarrow> bool" where
  "keeps_bytes i (Ev_Create x) = (info_id x \<noteq> i)"
| "keeps_bytes i (Ev_Overwrite j b) = (j \<noteq> i)"
| "keeps_bytes i (Ev_Concat j ps) = (j \<noteq> i)"
| "keeps_bytes i e = True"

lemma abs_step_content:
  assumes "abs_step a e a'" and "uploads_ok a" and "keeps_bytes i e" and "a' i = Some (x', d')"
  obtains x d where "a i = Some (x, d)" and "d' = d @ appended i [e]"
  using assms
proof (cases rule: abs_step.cases)
  case (step_append j x d b)
  then have "upload_ok (x, d)" using assms(2) by (blast dest: uploads_okD(2))
  with step_append assms that show ?thesis
    by (cases "j = i") (simp_all add: append_at_end)
qed (use assms that in \<open>fastforce split: if_splits\<close>)+

lemma abs_steps_content:
  assumes "abs_steps a es a'" and "uploads_ok a" and "list_all (keeps_bytes i) es"
    and "a' i = Some (x', d')"
  shows "\<exists>x d. a i = Some (x, d) \<and> d' = d @ appended i es"
  using assms
proof (induction arbitrary: x' d' rule: abs_steps.induct)
  case (steps_nil a)
  then show ?case by simp
next
  case (steps_cons a e b es c)
  have "uploads_ok b" using steps_cons by (blast intro: abs_step_ok)
  with steps_cons obtain y f where "b i = Some (y, f)" "d' = f @ appended i es"
    by auto
  with steps_cons.hyps steps_cons.prems obtain x d
    where "a i = Some (x, d)" "f = d @ appended i [e]"
    by (auto elim: abs_step_content)
  with \<open>d' = f @ appended i es\<close> show ?case
    using appended_append [of i "[e]" es] by simp
qed

end
