(* ===== verification/Handler_Refinement.thy ===== *)
theory Handler_Refinement
  imports Handler_Facts Tus_Spec
begin

text \<open>
  The handlers refine the abstract protocol of \<open>Tus_Spec\<close>: on every store that meets
  \<open>content_store\<close>, the effect of a request on the uploads is a sequence of abstract steps, whose
  events are fixed by the method of the request and by its answer.
\<close>

text \<open>The events of a PATCH on \<open>i\<close>: a length declared or not, bytes appended or not.\<close>

definition patch_log :: "upload_id \<Rightarrow> u64 option \<Rightarrow> bytes option \<Rightarrow> store_event list" where
  "patch_log i decl wr =
     (case decl of None \<Rightarrow> [] | Some n \<Rightarrow> [Ev_Declare i n])
     @ (case wr of None \<Rightarrow> [] | Some b \<Rightarrow> [Ev_Append i b])"

lemma patch_log_ids: "event_id ` set (patch_log i decl wr) \<subseteq> {i}"
  by (auto simp: patch_log_def split: option.splits)

lemma patch_log_appended:
  "appended j (patch_log i decl wr) = (if i = j then case wr of None \<Rightarrow> [] | Some b \<Rightarrow> b else [])"
  by (auto simp: patch_log_def split: option.split)

lemma patch_log_keeps: "list_all (keeps_bytes j) (patch_log i decl wr)"
  by (auto simp: patch_log_def split: option.split)

lemma map_option_fst_Some: "map_option fst v = Some x \<Longrightarrow> \<exists>d. v = Some (x, d)"
  by auto

context content_store
begin

lemma refuses_abs:
  assumes "refuses s i s'" and "inv s"
  shows "inv s' \<and> abs s' = abs s"
  using assms c_declare_err [OF assms(2)] c_write_err [OF assms(2)]
  unfolding refuses_def by (metis map_option_fst_Some option.exhaust)

lemma declares_step:
  assumes "declares s i decl s1" and "inv s" and "abs s i = Some (info, d)"
    and "\<not> info_is_final info"
  shows "inv s1" and "abs s1 = (abs s)(i \<mapsto> (info_after decl info, d))"
    and "abs_steps (abs s) (patch_log i decl None) (abs s1)"
proof -
  have "inv s1 \<and> abs s1 = (abs s)(i \<mapsto> (info_after decl info, d))
    \<and> abs_steps (abs s) (patch_log i decl None) (abs s1)"
  proof (cases decl)
    case None
    with assms show ?thesis by (simp add: declares_def info_after_def patch_log_def fun_upd_idem)
  next
    case (Some n)
    with assms(1) have "up_declare_length ops i n s = (Inr (), s1)" by (simp add: declares_def)
    from c_declare_ok [OF assms(2,3) this] assms(3,4) Some show ?thesis
      by (simp add: info_after_def patch_log_def abs_step.step_declare)
  qed
  then show "inv s1" and "abs s1 = (abs s)(i \<mapsto> (info_after decl info, d))"
    and "abs_steps (abs s) (patch_log i decl None) (abs s1)" by auto
qed

lemma patch_written_step:
  assumes "inv s" and "abs s i = Some (info, d)" and "\<not> info_is_final info"
    and "declares s i decl s1" and "read_to_end rd = Inr b" and "fits_vec rd"
    and "up_write_chunk ops i (info_offset info) rd s1 = (Inr n, s2)"
  shows "inv s2"
    and "abs s2 = (abs s)(i \<mapsto> ((info_after decl info)\<lparr>info_offset := info_offset info + len_u64 b\<rparr>,
                               write_at d (unat (info_offset info)) b))"
    and "abs_steps (abs s) (patch_log i decl (Some b)) (abs s2)"
proof -
  note d = declares_step [OF assms(4,1,2,3)]
  have a1: "abs s1 i = Some (info_after decl info, d)" by (simp add: d)
  from c_write_ok [OF d(1) a1 assms(6,7)] assms(5)
  have s2: "inv s2" "chunk_fits (info_after decl info) (info_offset info) (len_u64 b)"
    "abs s2 = (abs s1)(i \<mapsto> ((info_after decl info)\<lparr>info_offset := info_offset info + len_u64 b\<rparr>,
                            write_at d (unat (info_offset info)) b))"
    by auto
  have len: "length b < 2 ^ 63" using assms(5,6) by (simp add: fits_vec_def)
  have "abs_step (abs s1) (Ev_Append i b) (abs s2)"
    using abs_step.step_append [of "abs s1" i "info_after decl info" d b] a1 len s2(2) assms(3)
    by (simp add: s2(3))
  then have "abs_steps (abs s) (patch_log i decl None @ [Ev_Append i b]) (abs s2)"
    using d(3) by (auto simp: abs_steps_append)
  then show "abs_steps (abs s) (patch_log i decl (Some b)) (abs s2)"
    by (simp add: patch_log_def)
  show "inv s2" by (rule s2(1))
  show "abs s2 = (abs s)(i \<mapsto> ((info_after decl info)\<lparr>info_offset := info_offset info + len_u64 b\<rparr>,
                               write_at d (unat (info_offset info)) b))"
    by (simp add: s2(3) d(2))
qed

lemma finalize_abs:
  assumes "inv s" and "abs s i \<noteq> None" and "up_finalize ops i s = (r, s')"
  shows "r = Inr () \<and> inv s' \<and> abs s' = abs s"
  using assms c_finalize [OF assms(1)] by fastforce

lemma patch_locked_refines:
  assumes h: "h_store h = ops" and I: "inv (w_store w)" and i: "valid_id i"
    and fits: "request_fits req" and run: "patch_locked x h e req off i w = (r, w')"
  shows "inv (w_store w')"
    and "\<exists>decl wr. abs_steps (abs (w_store w)) (patch_log i decl wr) (abs (w_store w'))
           \<and> (case r of
                Inr resp \<Rightarrow> wr = Some (body_bytes req) \<and> resp_status resp = 204
              | Inl er \<Rightarrow> wr = None \<or> wr = Some (body_bytes req) \<and> pre_finish (cfg_hooks (h_config h)) \<noteq> None)"
proof -
  have "inv (w_store w') \<and> (\<exists>decl wr. abs_steps (abs (w_store w)) (patch_log i decl wr) (abs (w_store w'))
           \<and> (case r of
                Inr resp \<Rightarrow> wr = Some (body_bytes req) \<and> resp_status resp = 204
              | Inl er \<Rightarrow> wr = None \<or> wr = Some (body_bytes req) \<and> pre_finish (cfg_hooks (h_config h)) \<noteq> None))" (is ?goal)
  proof (cases r)
    case (Inr resp)
    obtain info decl b s1 rd s2 info2 where
      info: "map_option fst (abs (w_store w) i) = Some info" "\<not> info_is_final info"
      "info_offset info = off" "declares (w_store w) i decl s1" "body_bytes req = b"
      "read_to_end rd = Inr b" "fits_vec rd"
      "up_write_chunk ops i off rd s1 = (Inr (len_u64 b), s2)"
      and resp: "resp = response x (h_config h) 204 (patch_headers x (h_config h) info2) []"
      and fin: "if is_complete info2 then up_finalize ops i s2 = (Inr (), w_store w')
                else w_store w' = s2"
      by (rule patch_locked_ok [OF h I i fits run [unfolded Inr]]) auto
    then obtain d where a: "abs (w_store w) i = Some (info, d)" by auto
    have "up_write_chunk ops i (info_offset info) rd s1 = (Inr (len_u64 b), s2)"
      using info(3,8) by simp
    note st = patch_written_step [OF I a info(2,4,6,7) this]
    have "abs s2 i \<noteq> None" by (simp add: st(2))
    from fin finalize_abs [OF st(1) this] st(1)
    have "inv (w_store w')" "abs (w_store w') = abs s2" by (auto split: if_splits)
    with st(3) info(5) show ?thesis by (fastforce simp: Inr resp)
  next
    case (Inl er)
    from h I i fits run [unfolded Inl] show ?thesis
    proof (cases rule: patch_locked_err)
      case early
      from refuses_abs [OF this I] have "inv (w_store w')" "abs (w_store w') = abs (w_store w)" by auto
      then show ?thesis
        by (auto simp: Inl patch_log_def intro!: exI [of _ None])
    next
      case (declared info decl s1)
      then obtain d where a: "abs (w_store w) i = Some (info, d)" by auto
      note st = declares_step [OF declared(4) I a declared(2)]
      from refuses_abs [OF declared(5) st(1)]
      have "inv (w_store w')" "abs (w_store w') = abs s1" by auto
      with st(3) show ?thesis by (fastforce simp: Inl)
    next
      case (written info decl s1 rd b s2)
      then obtain d where a: "abs (w_store w) i = Some (info, d)" by auto
      have "up_write_chunk ops i (info_offset info) rd s1 = (Inr (len_u64 b), s2)"
        using written(3,8) by simp
      note st = patch_written_step [OF I a written(2,5,6,7) this]
      have "abs s2 i \<noteq> None" by (simp add: st(2))
      from written(10) finalize_abs [OF st(1) this]
      have "w_store w' = s2" "pre_finish (cfg_hooks (h_config h)) \<noteq> None" by fastforce+
      with st(1,3) written(9) show ?thesis by (fastforce simp: Inl)
    qed
  qed
  then show "inv (w_store w')" and "\<exists>decl wr. abs_steps (abs (w_store w)) (patch_log i decl wr) (abs (w_store w'))
           \<and> (case r of
                Inr resp \<Rightarrow> wr = Some (body_bytes req) \<and> resp_status resp = 204
              | Inl er \<Rightarrow> wr = None \<or> wr = Some (body_bytes req) \<and> pre_finish (cfg_hooks (h_config h)) \<noteq> None)" by auto
qed

lemma patch_refines:
  assumes h: "h_store h = ops" and I: "inv (w_store w)" and fits: "request_fits req"
    and run: "patch_handle x h e req w = (r, w')"
  obtains i decl wr where "inv (w_store w')"
    and "abs_steps (abs (w_store w)) (patch_log i decl wr) (abs (w_store w'))"
    and "request_id req = Inr i \<or> decl = None \<and> wr = None"
    and "case r of
           Inr resp \<Rightarrow> request_id req = Inr i \<and> wr = Some (body_bytes req) \<and> resp_status resp = 204
         | Inl er \<Rightarrow> wr = None \<or> wr = Some (body_bytes req) \<and> pre_finish (cfg_hooks (h_config h)) \<noteq> None"
proof -
  note result = that
  have early: thesis if "w_store w' = w_store w" "r = Inl er" for er
    by (rule result [of "UploadId []" None None]) (use that I in \<open>simp_all add: patch_log_def\<close>)
  let ?ct = "case get_str (req_headers req) HDR_CONTENT_TYPE of Some s \<Rightarrow> s | None \<Rightarrow> []"
  show thesis
  proof (cases "\<exists>off i. check_tus_resumable (req_headers req) = Inr ()
      \<and> starts_with ?ct CONTENT_TYPE_OCTET_STREAM
      \<and> parse_upload_offset (req_headers req) = Inr off \<and> request_id req = Inr i")
    case False
    then show thesis
      using run early by (auto simp: patch_handle_def sm_simps Let_def split: sum.splits if_splits)
  next
    case True
    then obtain off i where i: "request_id req = Inr i"
      and "with_lock h i (patch_locked x h e req off i) w = (r, w')"
      using run by (auto simp: patch_handle_def sm_simps Let_def)
    from this(2) show thesis
    proof (cases rule: with_lock_result)
      case (no_lock er)
      with early show thesis by blast
    next
      case (held l w1)
      have "inv (w_store (w\<lparr>w_lock := l\<rparr>))" using I by simp
      note st = patch_locked_refines [OF h this request_id_valid [OF i] fits held(1)]
      then show thesis using result i held(2) by (fastforce split: sum.splits)
    qed
  qed
qed

end

end
