(* ===== verification/Post_Refinement.thy ===== *)
theory Post_Refinement
  imports Handler_Refinement
begin

text \<open>
  The refinement of POST, the handler with the most effects: creation, concatenation, first chunk,
  removal of the partial uploads and completion, each a stage with its own lemma.
\<close>

section \<open>The record a POST creates\<close>

lemma post_build_info_InrD:
  assumes "post_build_info x cfg e headers = Inr info"
  shows "info_id info = UploadId (env_uuid e)" and "info_offset info = 0"
    and "info_is_final info = concat_is_final headers"
    and "info_is_partial info = (get_str headers HDR_UPLOAD_CONCAT = Some ''partial'')"
    and "info_is_final info \<Longrightarrow> \<not> info_is_partial info"
    and "info_is_final info \<Longrightarrow> ext_concatenation (cfg_extensions cfg)"
    and "post_partials cfg headers = Inr (info_partial_uploads info)"
    and "post_size cfg headers = Inr (info_size info)"
    and "post_metadata x headers = Inr (info_metadata info)"
    and "post_expires x cfg e = Inr (info_expires_at info)"
  using assms
  by (auto simp: post_build_info_def res_bind_Inr_iff upload_info_new_def concat_is_final_def
      starts_with_def split: if_splits)

lemma post_pre_create_InrD:
  assumes "post_pre_create cfg info = Inr info'"
  shows "info_offset info' = info_offset info" and "info_is_final info' = info_is_final info"
    and "info_is_partial info' = info_is_partial info"
    and "info_partial_uploads info' = info_partial_uploads info"
    and "info_size info' = info_size info"
    and "info_expires_at info' = info_expires_at info"
    and "info_id info' = info_id info \<or> valid_id (info_id info') \<and> pre_create (cfg_hooks cfg) \<noteq> None"
  using assms
  by (auto simp: post_pre_create_def res_bind_Inr_iff Let_def split: option.splits)

lemma post_partials_valid:
  assumes "post_partials cfg headers = Inr ids"
  shows "list_all valid_id ids"
proof (cases "concat_is_final headers")
  case True
  with assms obtain urls where
    "map_result (\<lambda>url. extract_upload_id_from_url url (cfg_base_path cfg)) urls = Inr ids"
    by (auto simp: post_partials_def res_bind_Inr_iff)
  then have "list_all2 (\<lambda>url i. extract_upload_id_from_url url (cfg_base_path cfg) = Inr i) urls ids"
    by (simp add: map_result_Inr_iff)
  then show ?thesis
    by (induction rule: list_all2_induct)
       (auto simp: extract_upload_id_from_url_def Let_def upload_id_parse_Inr_iff
         split: option.splits if_splits)
next
  case False
  then show ?thesis using assms by (simp add: post_partials_def)
qed

section \<open>Concatenation\<close>

context opened_store
begin

lemma fetch_partial_info_spec:
  assumes "h_store h = ops" and "inv (w_store w)" and "valid_id i"
  shows "fetch_partial_info h i w =
    (case info_of (w_store w) i of
       None \<Rightarrow> Inl (NotFound (as_str i))
     | Some info \<Rightarrow>
         if \<not> info_is_partial info then Inl (NotPartialUpload (as_str i))
         else if \<not> is_complete info then Inl (PartialUploadIncomplete (as_str i))
         else Inr info, w)"
  by (auto simp: fetch_partial_info_def assms open_upload sm_simps split: option.split)

lemma fetch_partial_infos_spec:
  assumes "h_store h = ops" and "inv (w_store w)" and "list_all valid_id ids"
    and "fetch_partial_infos h ids w = (r, w')"
  shows "w' = w"
    and "r = Inr ps \<Longrightarrow>
           list_all2 (\<lambda>i p. info_of (w_store w) i = Some p \<and> info_is_partial p \<and> is_complete p) ids ps"
proof -
  have "w' = w \<and> (\<forall>ps. r = Inr ps \<longrightarrow>
      list_all2 (\<lambda>i p. info_of (w_store w) i = Some p \<and> info_is_partial p \<and> is_complete p) ids ps)"
    using assms(3,4)
  proof (induction ids arbitrary: r w')
    case Nil
    then show ?case by (auto simp: fetch_partial_infos_def sm_simps)
  next
    case (Cons i ids)
    obtain r1 w1 where rest: "fetch_partial_infos h ids w = (r1, w1)" by fastforce
    note IH = Cons.IH [OF _ rest]
    obtain r0 where first: "fetch_partial_info h i w = (r0, w)"
      using Cons.prems(1) fetch_partial_info_spec [OF assms(1,2), of i] by simp
    show ?case
    proof (cases r0)
      case (Inl er)
      with first Cons.prems show ?thesis by (auto simp: fetch_partial_infos_def sm_simps)
    next
      case (Inr p)
      then have p: "info_of (w_store w) i = Some p" "info_is_partial p" "is_complete p"
        using first Cons.prems(1) fetch_partial_info_spec [OF assms(1,2), of i]
        by (auto split: option.splits if_splits)
      have "w1 = w" using IH Cons.prems(1) by simp
      with rest first Inr Cons.prems IH p show ?thesis
        by (cases r1) (auto simp: fetch_partial_infos_def sm_simps)
    qed
  qed
  then show "w' = w" and "r = Inr ps \<Longrightarrow>
    list_all2 (\<lambda>i p. info_of (w_store w) i = Some p \<and> info_is_partial p \<and> is_complete p) ids ps"
    by auto
qed

end

section \<open>The stages of the effects\<close>

text \<open>The second half of \<open>post_effects\<close>, from the record read back.\<close>

definition post_tail ::
  "externals \<Rightarrow> ('s, 'l) tus_handler \<Rightarrow> tus_request \<Rightarrow> upload_info \<Rightarrow> upload_id \<Rightarrow> u64
     \<Rightarrow> ('s, 'l, tus_response) hop" where
  "post_tail x h req info upload bytes_written =
     sm_bind (on_store (up_get_info (h_store h) upload)) (\<lambda>final_info.
     sm_bind (sm_lift (exceeds_declared final_info bytes_written)) (\<lambda>_.
     sm_bind (post_cleanup h upload (info_is_final info) final_info) (\<lambda>final_info.
     sm_bind (emit h (UploadCreated final_info)) (\<lambda>_.
     sm_bind (finish_if_complete h upload final_info) (\<lambda>_.
     sm_bind (sm_lift (post_headers x (h_config h)
                (build_location (h_config h) (info_id final_info) (req_headers req))
                final_info)) (\<lambda>headers.
     sm_return (response x (h_config h) 201 headers [])))))))"

lemma post_effects_eq:
  "post_effects x h req info =
     sm_bind (on_store (ds_create_upload (h_store h) info)) (\<lambda>upload.
     sm_bind (post_concatenate h upload info) (\<lambda>_.
     sm_bind (post_first_chunk h req upload) (post_tail x h req info upload)))"
  by (simp add: post_effects_def post_tail_def [abs_def])

definition conc_log :: "upload_id \<Rightarrow> upload_info list option \<Rightarrow> store_event list" where
  "conc_log i conc = (case conc of None \<Rightarrow> [] | Some ps \<Rightarrow> [Ev_Concat i ps])"

definition chunk_log :: "bool \<Rightarrow> upload_id \<Rightarrow> bytes option \<Rightarrow> store_event list" where
  "chunk_log final i wr =
     (case wr of None \<Rightarrow> [] | Some b \<Rightarrow> [if final then Ev_Overwrite i b else Ev_Append i b])"

definition post_log ::
  "upload_info \<Rightarrow> upload_info list option \<Rightarrow> bytes option \<Rightarrow> upload_id list \<Rightarrow> store_event list"
where
  "post_log info conc wr dels =
     Ev_Create info # conc_log (info_id info) conc
       @ chunk_log (info_is_final info) (info_id info) wr @ map Ev_Delete dels"

text \<open>The first chunk of a creation request, if it carries one.\<close>

definition first_chunk :: "config \<Rightarrow> tus_request \<Rightarrow> reader option" where
  "first_chunk cfg req =
     (if ext_creation_with_upload (cfg_extensions cfg)
         \<and> (case req_headers req HDR_CONTENT_TYPE of
              None \<Rightarrow> False
            | Some ct \<Rightarrow> starts_with (case to_str ct of Some s \<Rightarrow> s | None \<Rightarrow> [])
                           CONTENT_TYPE_OCTET_STREAM)
      then req_body req else None)"

lemma post_first_chunk_spec:
  "post_first_chunk h req i =
     (case first_chunk (h_config h) req of
        None \<Rightarrow> sm_return 0 | Some body \<Rightarrow> on_store (up_write_chunk (h_store h) i 0 body))"
  by (auto simp: post_first_chunk_def first_chunk_def split: option.split)

text \<open>
  What a creation answered with success did, over the uploads \<open>a\<close> it started from: the partial
  uploads it assembled, the record \<open>y\<close> and bytes it built, and the response that describes them.
\<close>

definition post_assembles ::
  "upload_info \<Rightarrow> uploads \<Rightarrow> upload_info list option \<Rightarrow> upload_state \<Rightarrow> bool" where
  "post_assembles info a conc u \<longleftrightarrow>
     (if info_is_final info
      then \<exists>ps bs. conc = Some ps \<and> map info_id ps = info_partial_uploads info
             \<and> list_all2 (\<lambda>p b. a (info_id p) = Some (p, b) \<and> info_is_partial p \<and> is_complete p)
                 ps bs
             \<and> u = (with_total (len_u64 (concat bs)) info, concat bs)
      else conc = None \<and> u = (info, []))"

definition with_chunk :: "bytes option \<Rightarrow> upload_state \<Rightarrow> upload_state" where
  "with_chunk wr u =
     (case wr of
        None \<Rightarrow> u
      | Some b \<Rightarrow> ((fst u)\<lparr>info_offset := len_u64 b\<rparr>, write_at (snd u) 0 b))"

definition post_done ::
  "externals \<Rightarrow> config \<Rightarrow> tus_request \<Rightarrow> upload_info \<Rightarrow> upload_info list option \<Rightarrow> bytes option
     \<Rightarrow> upload_id list \<Rightarrow> tus_response \<Rightarrow> uploads \<Rightarrow> upload_state \<Rightarrow> bool" where
  "post_done x cfg req info conc wr dels resp a u \<longleftrightarrow>
     (\<exists>u0 headers. post_assembles info a conc u0
        \<and> wr = (if first_chunk cfg req = None then None else Some (body_bytes req))
        \<and> u = with_chunk wr u0
        \<and> dels = (if info_is_final info \<and> ext_concatenation (cfg_extensions cfg)
                     \<and> ext_cleanup_concat_partials (cfg_extensions cfg)
                  then info_partial_uploads info else [])
        \<and> post_headers x cfg (build_location cfg (info_id info) (req_headers req)) (fst u)
            = Inr headers
        \<and> resp = response x cfg 201 headers [])"

context content_store
begin

lemma post_concatenate_refines:
  assumes h: "h_store h = ops" and I: "inv (w_store w)" and ok: "uploads_ok (abs (w_store w))"
    and a: "abs (w_store w) i = Some (info, d)" and v: "list_all valid_id (info_partial_uploads info)"
    and run: "post_concatenate h i info w = (r, w')"
  obtains conc where "inv (w_store w')"
    and "abs_steps (abs (w_store w)) (conc_log i conc) (abs (w_store w'))"
    and "\<And>er. r = Inl er \<Longrightarrow> conc = None"
    and "r = Inr () \<Longrightarrow> info_is_final info \<and> ext_concatenation (cfg_extensions (h_config h)) \<Longrightarrow>
           \<exists>ps bs. conc = Some ps \<and> map info_id ps = info_partial_uploads info
             \<and> list_all2 (\<lambda>p b. abs (w_store w) (info_id p) = Some (p, b)
                               \<and> info_is_partial p \<and> is_complete p) ps bs
             \<and> abs (w_store w') =
                 (abs (w_store w))(i \<mapsto> (with_total (len_u64 (concat bs)) info, concat bs))"
    and "\<not> (info_is_final info \<and> ext_concatenation (cfg_extensions (h_config h))) \<Longrightarrow>
           r = Inr () \<and> conc = None \<and> w' = w"
proof (cases "info_is_final info \<and> ext_concatenation (cfg_extensions (h_config h))")
  case False
  then show ?thesis
    using run I that [of None] by (auto simp: post_concatenate_def sm_simps conc_log_def)
next
  case True
  obtain r1 where f: "fetch_partial_infos h (info_partial_uploads info) w = (r1, w)"
    using fetch_partial_infos_spec(1) [OF h I v] by (metis prod.exhaust)
  show ?thesis
  proof (cases r1)
    case (Inl er)
    then show ?thesis
      using run I True f that [of None] by (auto simp: post_concatenate_def sm_simps conc_log_def)
  next
    case (Inr ps)
    note ps = fetch_partial_infos_spec(2) [OF h I v f Inr]
    have ids: "map info_id ps = info_partial_uploads info"
      using ps by (induction rule: list_all2_induct) (auto dest: uploads_okD(1) [OF ok])
    have "list_all (\<lambda>p. map_option fst (abs (w_store w) (info_id p)) = Some p) ps"
      using ps by (induction rule: list_all2_induct) (auto dest: uploads_okD(1) [OF ok])
    then have "\<exists>bs. list_all2 (\<lambda>p b. abs (w_store w) (info_id p) = Some (p, b)) ps bs"
      by (intro partial_bytes) (simp add: list_all_iff)
    then obtain bs where bs: "list_all2 (\<lambda>p b. abs (w_store w) (info_id p) = Some (p, b)) ps bs" ..
    have pc: "list_all (\<lambda>p. info_is_partial p \<and> is_complete p) ps"
      using ps by (auto simp: list_all2_conv_all_nth list_all_length)
    have run2: "on_store (up_concatenate ops i ps) w = (r, w')"
      using run True f Inr by (simp add: post_concatenate_def sm_simps h)
    show ?thesis
    proof (cases r)
      case (Inl er)
      with run2 have "up_concatenate ops i ps (w_store w) = (Inl er, w_store w')"
        by (auto elim!: on_store_InlD)
      from c_concat_err [OF I a bs this] show ?thesis
        using that [of None] True Inl by (simp add: conc_log_def)
    next
      case (Inr u)
      with run2 have "up_concatenate ops i ps (w_store w) = (Inr u, w_store w')"
        by (auto elim!: on_store_InrD)
      note st = c_concat_ok [OF I a bs this]
      have "abs_step (abs (w_store w)) (Ev_Concat i ps) (abs (w_store w'))"
        using abs_step.step_concat [of _ i info d ps bs] a True bs pc st by simp
      moreover have "list_all2 (\<lambda>p b. abs (w_store w) (info_id p) = Some (p, b)
                               \<and> info_is_partial p \<and> is_complete p) ps bs"
        using bs pc by (induction rule: list_all2_induct) auto
      ultimately show ?thesis
        using that [of "Some ps"] st True ids Inr by (fastforce simp: conc_log_def)
    qed
  qed
qed

lemma post_first_chunk_refines:
  assumes h: "h_store h = ops" and I: "inv (w_store w)" and fits: "request_fits req"
    and a: "abs (w_store w) i = Some (x, d)"
    and start: "if info_is_final x then info_size x = Some (len_u64 d) else info_offset x = 0"
    and run: "post_first_chunk h req i w = (r, w')"
  obtains wr where "inv (w_store w')"
    and "abs_steps (abs (w_store w)) (chunk_log (info_is_final x) i wr) (abs (w_store w'))"
    and "\<And>er. r = Inl er \<Longrightarrow> wr = None"
    and "\<And>n. r = Inr n \<Longrightarrow> first_chunk (h_config h) req \<noteq> None \<Longrightarrow> wr = Some (body_bytes req)"
    and "first_chunk (h_config h) req = None \<Longrightarrow> wr = None"
    and "abs (w_store w') =
           (case wr of None \<Rightarrow> abs (w_store w)
            | Some b \<Rightarrow> (abs (w_store w))(i \<mapsto> (x\<lparr>info_offset := len_u64 b\<rparr>, write_at d 0 b)))"
proof (cases "first_chunk (h_config h) req")
  case None
  with run have rw: "r = Inr 0" "w' = w" by (simp_all add: post_first_chunk_spec sm_simps)
  show ?thesis
    by (rule that [of None]) (use I rw None in \<open>simp_all add: chunk_log_def\<close>)
next
  case (Some body)
  then have body: "req_body req = Some body" by (auto simp: first_chunk_def split: if_splits)
  then have fb: "fits_vec body" using fits by (simp add: request_fits_def)
  show ?thesis
  proof (cases r)
    case (Inl er)
    with run Some have "up_write_chunk ops i 0 body (w_store w) = (Inl er, w_store w')"
      by (auto simp: post_first_chunk_spec h elim!: on_store_InlD)
    from c_write_err [OF I a fb this] show ?thesis
      using that [of None] Inl Some by (simp add: chunk_log_def)
  next
    case (Inr n)
    with run Some have "up_write_chunk ops i 0 body (w_store w) = (Inr n, w_store w')"
      by (auto simp: post_first_chunk_spec h elim!: on_store_InrD)
    note wr = c_write_ok [OF I a fb this]
    then obtain b where b: "read_to_end body = Inr b" and n: "n = len_u64 b" by blast
    from wr have b2: "chunk_fits x 0 (len_u64 b)" and I': "inv (w_store w')"
      and a': "abs (w_store w') =
        (abs (w_store w))(i \<mapsto> (x\<lparr>info_offset := len_u64 b\<rparr>, write_at d 0 b))"
      by (simp_all add: b n)
    have len: "length b < 2 ^ 63" using fb b by (simp add: fits_vec_def)
    have "abs_step (abs (w_store w)) (if info_is_final x then Ev_Overwrite i b else Ev_Append i b)
            (abs (w_store w'))"
    proof (cases "info_is_final x")
      case True
      then show ?thesis
        using abs_step.step_overwrite [of _ i x d b] a True len b2 start by (simp add: a')
    next
      case False
      then show ?thesis
        using abs_step.step_append [of _ i x d b] a len b2 start by (simp add: a')
    qed
    then have "abs_steps (abs (w_store w)) (chunk_log (info_is_final x) i (Some b)) (abs (w_store w'))"
      by (simp add: chunk_log_def)
    then show ?thesis
      by (rule that [OF I']) (use a' b body Inr Some in \<open>simp_all add: body_bytes_def\<close>)
  qed
qed

lemma open_any:
  assumes "h_store h = ops" and "inv (w_store w)" and "valid_id i"
  shows "on_store (ds_get_upload (h_store h) i) w =
           (case abs (w_store w) i of
              None \<Rightarrow> (Inl (NotFound (as_str i)), w) | Some _ \<Rightarrow> (Inr i, w))"
  using assms c_get_present [OF assms(2,3)] c_get_missing [OF assms(2,3)]
  by (auto simp: on_store_def split: option.split)

lemma post_remove_partial_refines:
  assumes h: "h_store h = ops" and I: "inv (w_store w)" and v: "valid_id j"
    and run: "post_remove_partial h j w = (r, w')"
  shows "inv (w_store w')
     \<and> (\<exists>dels. set dels \<subseteq> {j} \<and> abs_steps (abs (w_store w)) (map Ev_Delete dels) (abs (w_store w'))
          \<and> (r = Inr () \<longrightarrow> dels = [j]))"
proof (cases "abs (w_store w) j")
  case None
  then show ?thesis
    using run I by (auto simp: post_remove_partial_def open_any [OF h I v] sm_simps sm_bind_def
        intro: exI [of _ "[]"])
next
  case (Some u)
  obtain p b where a: "abs (w_store w) j = Some (p, b)" using Some by (cases u) auto
  have info: "on_store (up_get_info (h_store h) j) w = (Inr p, w)"
    using c_get_info [OF I a] by (simp add: on_store_def h)
  let ?cb = "case pre_terminate (cfg_hooks (h_config h)) of
          None \<Rightarrow> sm_return ()
        | Some cb \<Rightarrow>
            sm_bind (on_store (up_get_info (h_store h) j)) (\<lambda>partial_info. sm_lift (cb partial_info))"
  have veto: "?cb w = (run_callback (pre_terminate (cfg_hooks (h_config h))) p, w)"
    using info by (auto simp: run_callback_def sm_simps split: option.split)
  obtain s' where del: "up_delete ops j (w_store w) = (Inr (), s')" "inv s'"
    "abs s' = (abs (w_store w))(j := None)"
    using c_delete [OF I a] by blast
  show ?thesis
  proof (cases "run_callback (pre_terminate (cfg_hooks (h_config h))) p")
    case (Inl er)
    then have "w' = w" "r = Inl er"
      using run veto by (simp_all add: post_remove_partial_def open_any [OF h I v] Some sm_bind_def)
    then show ?thesis using I by (auto intro: exI [of _ "[]"])
  next
    case (Inr _)
    have "on_store (up_delete (h_store h) j) w = (Inr (), w\<lparr>w_store := s'\<rparr>)"
      using del(1) by (simp add: on_store_def h)
    then have "r = Inr ()" "w_store w' = s'"
      using run veto Inr
      by (auto simp: post_remove_partial_def open_any [OF h I v] Some sm_bind_def emit_def)
    moreover have "abs_steps (abs (w_store w)) (map Ev_Delete [j]) (abs s')"
      using abs_step.step_delete [of "abs (w_store w)" j] Some by (simp add: del(3))
    ultimately show ?thesis using del(2) by (auto intro: exI [of _ "[j]"])
  qed
qed

lemma post_remove_partials_refines:
  assumes h: "h_store h = ops" and "inv (w_store w)" and "list_all valid_id ids"
    and "sm_for ids (post_remove_partial h) w = (r, w')"
  shows "inv (w_store w')
     \<and> (\<exists>dels. set dels \<subseteq> set ids \<and> (r = Inr () \<longrightarrow> dels = ids)
          \<and> abs_steps (abs (w_store w)) (map Ev_Delete dels) (abs (w_store w')))"
  using assms(2-)
proof (induction ids arbitrary: w)
  case Nil
  then show ?case by (auto simp: sm_simps)
next
  case (Cons j ids)
  obtain r1 w1 where one: "post_remove_partial h j w = (r1, w1)" by fastforce
  have "valid_id j" using Cons.prems(2) by simp
  from post_remove_partial_refines [OF h Cons.prems(1) this one] obtain d1
    where d1: "inv (w_store w1)" "set d1 \<subseteq> {j}" "r1 = Inr () \<longrightarrow> d1 = [j]"
      "abs_steps (abs (w_store w)) (map Ev_Delete d1) (abs (w_store w1))" by blast
  show ?case
  proof (cases r1)
    case (Inl er)
    then have "r = Inl er" "w' = w1" using Cons.prems(3) one by (simp_all add: sm_simps)
    with d1 show ?thesis by (intro conjI exI [of _ d1]) auto
  next
    case (Inr u)
    then have "sm_for ids (post_remove_partial h) w1 = (r, w')"
      using Cons.prems(3) one by (simp add: sm_simps)
    with Cons.IH [OF d1(1)] Cons.prems(2) obtain d2 where d2: "inv (w_store w')"
      "set d2 \<subseteq> set ids" "r = Inr () \<longrightarrow> d2 = ids"
      "abs_steps (abs (w_store w1)) (map Ev_Delete d2) (abs (w_store w'))" by auto
    have "abs_steps (abs (w_store w)) (map Ev_Delete (d1 @ d2)) (abs (w_store w'))"
      using abs_steps_trans [OF d1(4) d2(4)] by simp
    with d1 d2 Inr show ?thesis by (intro conjI exI [of _ "d1 @ d2"]) auto
  qed
qed

lemma finish_refines:
  assumes h: "h_store h = ops" and I: "inv (w_store w)" and a: "abs (w_store w) i \<noteq> None"
    and run: "finish_if_complete h i info w = (r, w')"
  shows "inv (w_store w')" and "abs (w_store w') = abs (w_store w)"
    and "r = Inl er \<Longrightarrow> pre_finish (cfg_hooks (h_config h)) \<noteq> None"
proof -
  have "inv (w_store w') \<and> abs (w_store w') = abs (w_store w)
    \<and> (\<forall>er. r = Inl er \<longrightarrow> pre_finish (cfg_hooks (h_config h)) \<noteq> None)"
  proof (cases "up_finalize ops i (w_store w)")
    case (Pair r1 s1)
    note f = finalize_abs [OF I a Pair]
    show ?thesis
      using run I f by (auto simp: finish_if_complete_spec h Pair emit_def run_callback_def
          split: if_splits sum.splits option.splits)
  qed
  then show "inv (w_store w')" and "abs (w_store w') = abs (w_store w)"
    and "r = Inl er \<Longrightarrow> pre_finish (cfg_hooks (h_config h)) \<noteq> None" by auto
qed

lemma post_cleanup_refines:
  assumes h: "h_store h = ops" and I: "inv (w_store w)"
    and a: "abs (w_store w) i = Some (y, d)"
    and v: "list_all valid_id (info_partial_uploads y)"
    and own: "final \<Longrightarrow> i \<notin> set (info_partial_uploads y)"
    and run: "post_cleanup h i final y w = (r, w')"
  obtains dels where "inv (w_store w')"
    and "abs_steps (abs (w_store w)) (map Ev_Delete dels) (abs (w_store w'))"
    and "set dels \<subseteq> set (info_partial_uploads y)" and "\<not> final \<Longrightarrow> dels = []"
    and "\<And>fi. r = Inr fi \<Longrightarrow> fi = y \<and> abs (w_store w') i = Some (y, d)
           \<and> dels = (if final \<and> ext_concatenation (cfg_extensions (h_config h))
                        \<and> ext_cleanup_concat_partials (cfg_extensions (h_config h))
                     then info_partial_uploads y else [])"
proof (cases "final \<and> ext_concatenation (cfg_extensions (h_config h))
                \<and> ext_cleanup_concat_partials (cfg_extensions (h_config h))")
  case False
  then have rw: "r = Inr y" "w' = w"
    using run by (simp_all add: post_cleanup_def sm_simps split: if_splits)
  show thesis
    by (rule that [of "[]"]) (use False I a rw in auto)
next
  case True
  with run have run1: "sm_bind (sm_for (info_partial_uploads y) (post_remove_partial h))
      (\<lambda>_. on_store (up_get_info (h_store h) i)) w = (r, w')"
    by (simp add: post_cleanup_def)
  obtain r1 w1 where loop: "sm_for (info_partial_uploads y) (post_remove_partial h) w = (r1, w1)"
    by fastforce
  from post_remove_partials_refines [OF h I v loop] obtain dels
    where d: "inv (w_store w1)" "set dels \<subseteq> set (info_partial_uploads y)"
      "r1 = Inr () \<longrightarrow> dels = info_partial_uploads y"
      "abs_steps (abs (w_store w)) (map Ev_Delete dels) (abs (w_store w1))" by blast
  have "i \<notin> event_id ` set (map Ev_Delete dels)" using own True d(2) by auto
  from abs_steps_frame [OF d(4) this] have a1: "abs (w_store w1) i = Some (y, d)" by (simp add: a)
  have get: "on_store (up_get_info (h_store h) i) w1 = (Inr y, w1)"
    using c_get_info [OF d(1) a1] by (simp add: on_store_def h)
  have "(r, w') = (case r1 of Inl er \<Rightarrow> (Inl er, w1) | Inr _ \<Rightarrow> (Inr y, w1))"
    using run1 loop get by (cases r1) (simp_all add: sm_simps)
  then have w': "w' = w1" and r: "r = Inr fi \<Longrightarrow> r1 = Inr () \<and> fi = y" for fi
    by (simp_all split: sum.splits)
  show thesis
    by (rule that [of dels]) (use d a1 r True w' in auto)
qed

lemma post_tail_refines:
  assumes h: "h_store h = ops" and I: "inv (w_store w)"
    and a: "abs (w_store w) i = Some (y, d)" and id: "info_id y = i"
    and v: "list_all valid_id (info_partial_uploads y)"
    and own: "info_is_final info \<Longrightarrow> i \<notin> set (info_partial_uploads y)"
    and run: "post_tail x h req info i n w = (r, w')"
  obtains dels where "inv (w_store w')"
    and "abs_steps (abs (w_store w)) (map Ev_Delete dels) (abs (w_store w'))"
    and "set dels \<subseteq> set (info_partial_uploads y)" and "\<not> info_is_final info \<Longrightarrow> dels = []"
    and "\<And>resp. r = Inr resp \<Longrightarrow>
           dels = (if info_is_final info \<and> ext_concatenation (cfg_extensions (h_config h))
                      \<and> ext_cleanup_concat_partials (cfg_extensions (h_config h))
                   then info_partial_uploads y else [])
           \<and> (\<exists>headers. post_headers x (h_config h)
                 (build_location (h_config h) i (req_headers req)) y = Inr headers
               \<and> resp = response x (h_config h) 201 headers [])"
proof -
  note result = that
  let ?cleanup = "info_is_final info \<and> ext_concatenation (cfg_extensions (h_config h))
    \<and> ext_cleanup_concat_partials (cfg_extensions (h_config h))"
  have same: thesis if "abs (w_store w') = abs (w_store w)" "inv (w_store w')" "r = Inl er" for er
    by (rule result [of "[]"]) (use that in simp_all)
  have get: "on_store (up_get_info (h_store h) i) w = (Inr y, w)"
    using c_get_info [OF I a] by (simp add: on_store_def h)
  show thesis
  proof (cases "exceeds_declared y n")
    case (Inl er)
    then show thesis using run get same I by (auto simp: post_tail_def sm_simps)
  next
    case (Inr _)
    from run get Inr have run1: "sm_bind (post_cleanup h i (info_is_final info) y) (\<lambda>final_info.
       sm_bind (emit h (UploadCreated final_info)) (\<lambda>_.
       sm_bind (finish_if_complete h i final_info) (\<lambda>_.
       sm_bind (sm_lift (post_headers x (h_config h)
                (build_location (h_config h) (info_id final_info) (req_headers req))
                final_info)) (\<lambda>headers.
       sm_return (response x (h_config h) 201 headers []))))) w = (r, w')"
      by (simp add: post_tail_def sm_simps)
    obtain r1 w1 where cl: "post_cleanup h i (info_is_final info) y w = (r1, w1)" by fastforce
    obtain dels where dels: "inv (w_store w1)"
      "abs_steps (abs (w_store w)) (map Ev_Delete dels) (abs (w_store w1))"
      "set dels \<subseteq> set (info_partial_uploads y)" "\<not> info_is_final info \<Longrightarrow> dels = []"
      and r1: "\<And>fi. r1 = Inr fi \<Longrightarrow> fi = y \<and> abs (w_store w1) i = Some (y, d)
           \<and> dels = (if ?cleanup then info_partial_uploads y else [])"
      by (rule post_cleanup_refines [OF h I a v own cl]) auto
    show thesis
    proof (cases r1)
      case (Inl er)
      then have "r = Inl er" "w' = w1" using run1 cl by (simp_all add: sm_simps)
      with dels show thesis by (intro result [of dels]) auto
    next
      case (Inr fi)
      note fi = r1 [OF Inr]
      define w2 where "w2 = snd (emit h (UploadCreated y) w1)"
      have w2: "emit h (UploadCreated y) w1 = (Inr (), w2)" "w_store w2 = w_store w1"
        by (simp_all add: w2_def emit_eq [symmetric])
      obtain r3 w3 where f: "finish_if_complete h i y w2 = (r3, w3)" by fastforce
      have "inv (w_store w2)" "abs (w_store w2) i \<noteq> None" using fi dels(1) w2(2) by simp_all
      note fin = finish_refines [OF h this f]
      have w': "w' = w3" and r: "r = Inr resp \<Longrightarrow> \<exists>headers. post_headers x (h_config h)
                 (build_location (h_config h) i (req_headers req)) y = Inr headers
               \<and> resp = response x (h_config h) 201 headers []" for resp
        using run1 cl Inr fi w2(1) f id
        by (cases r3; auto simp: sm_simps split: sum.splits)+
      show thesis
        by (rule result [of dels]) (use dels fi r w' w2(2) fin in auto)
    qed
  qed
qed

lemma post_effects_refines:
  assumes h: "h_store h = ops" and I: "inv (w_store w)" and ok: "uploads_ok (abs (w_store w))"
    and vid: "valid_id (info_id info)" and off: "info_offset info = 0"
    and v: "list_all valid_id (info_partial_uploads info)"
    and kinds: "info_is_final info \<Longrightarrow> \<not> info_is_partial info
                  \<and> ext_concatenation (cfg_extensions (h_config h))"
    and fits: "request_fits req"
    and run: "post_effects x h req info w = (r, w')"
  obtains (refused) er where "r = Inl er" "inv (w_store w')" "abs (w_store w') = abs (w_store w)"
    | (created) conc wr dels where "inv (w_store w')"
      "abs_steps (abs (w_store w)) (post_log info conc wr dels) (abs (w_store w'))"
      "set dels \<subseteq> set (info_partial_uploads info)" "\<not> info_is_final info \<Longrightarrow> dels = []"
      "\<And>resp. r = Inr resp \<Longrightarrow> \<exists>u. abs (w_store w') (info_id info) = Some u
           \<and> post_done x (h_config h) req info conc wr dels resp (abs (w_store w)) u"
proof -
  let ?i = "info_id info" and ?cfg = "h_config h"
  obtain r0 s0 where cr: "ds_create_upload ops info (w_store w) = (r0, s0)" by fastforce
  then have cr': "on_store (ds_create_upload (h_store h) info) w = (r0, w\<lparr>w_store := s0\<rparr>)"
    by (simp add: on_store_def h)
  show thesis
  proof (cases r0)
    case (Inl er)
    then have "r = Inl er" "w' = w\<lparr>w_store := s0\<rparr>"
      using run cr' by (simp_all add: post_effects_eq sm_simps)
    with c_create_err [OF I vid] cr Inl show thesis by (intro refused) simp_all
  next
    case (Inr u)
    have c0: "u = ?i" "inv s0" "abs s0 = (abs (w_store w))(?i \<mapsto> (info, []))"
      using c_create_ok [OF I vid] cr Inr by blast+
    define w0 where "w0 = w\<lparr>w_store := s0\<rparr>"
    have w0: "inv (w_store w0)" "abs (w_store w0) = (abs (w_store w))(?i \<mapsto> (info, []))"
      by (simp_all add: w0_def c0)
    have a0: "abs (w_store w0) ?i = Some (info, [])" by (simp add: w0)
    have st0: "abs_step (abs (w_store w)) (Ev_Create info) (abs (w_store w0))"
      using abs_step.step_create [OF off] by (simp add: w0)
    have ok0: "uploads_ok (abs (w_store w0))" by (rule abs_step_ok [OF st0 ok])
    obtain r1 w1 where cc: "post_concatenate h ?i info w0 = (r1, w1)" by fastforce
    obtain conc where c1: "inv (w_store w1)"
      "abs_steps (abs (w_store w0)) (conc_log ?i conc) (abs (w_store w1))"
      "\<And>er. r1 = Inl er \<Longrightarrow> conc = None"
      "r1 = Inr () \<Longrightarrow> info_is_final info \<and> ext_concatenation (cfg_extensions ?cfg) \<Longrightarrow>
         \<exists>ps bs. conc = Some ps \<and> map info_id ps = info_partial_uploads info
           \<and> list_all2 (\<lambda>p b. abs (w_store w0) (info_id p) = Some (p, b)
                             \<and> info_is_partial p \<and> is_complete p) ps bs
           \<and> abs (w_store w1) =
               (abs (w_store w0))(?i \<mapsto> (with_total (len_u64 (concat bs)) info, concat bs))"
      "\<not> (info_is_final info \<and> ext_concatenation (cfg_extensions ?cfg)) \<Longrightarrow>
         r1 = Inr () \<and> conc = None \<and> w1 = w0"
      by (rule post_concatenate_refines [OF h w0(1) ok0 a0 v cc]) auto
    from run cr' Inr have run1: "sm_bind (post_concatenate h ?i info)
        (\<lambda>_. sm_bind (post_first_chunk h req ?i) (post_tail x h req info ?i)) w0 = (r, w')"
      by (simp add: post_effects_eq sm_simps c0(1) w0_def)
    show thesis
    proof (cases r1)
      case (Inl er)
      then have "r = Inl er" "w' = w1" using run1 cc by (simp_all add: sm_simps)
      then show thesis
        using c1(1,2) c1(3) [OF Inl] st0
        by (intro created [of None None "[]"])
           (auto simp: post_log_def conc_log_def chunk_log_def)
    next
      case (Inr u1)
      define u0 where "u0 = the (abs (w_store w1) ?i)"
      have fin: "\<exists>ps bs. conc = Some ps \<and> map info_id ps = info_partial_uploads info
             \<and> list_all2 (\<lambda>p b. abs (w_store w0) (info_id p) = Some (p, b)
                               \<and> info_is_partial p \<and> is_complete p) ps bs
             \<and> abs (w_store w1) =
                 (abs (w_store w0))(?i \<mapsto> (with_total (len_u64 (concat bs)) info, concat bs))"
        if "info_is_final info"
        using c1(4) [OF _ conjI] Inr kinds that by simp
      have other: "info_id p \<noteq> ?i \<and> abs (w_store w) (info_id p) = Some (p, b)"
        if "info_is_final info" "abs (w_store w0) (info_id p) = Some (p, b)" "info_is_partial p"
        for p b
      proof (cases "info_id p = ?i")
        case True
        have "p = info" using that(2) [unfolded True a0] by simp
        then show ?thesis using kinds [OF that(1)] that(3) by simp
      next
        case False
        then show ?thesis using that(2) by (simp add: w0(2))
      qed
      have own: "?i \<notin> set (info_partial_uploads info)" if f: "info_is_final info"
      proof -
        obtain ps bs where "map info_id ps = info_partial_uploads info"
          and "list_all2 (\<lambda>p b. abs (w_store w0) (info_id p) = Some (p, b)
                             \<and> info_is_partial p \<and> is_complete p) ps bs"
          using fin [OF f] by blast
        moreover from this(2) have "list_all (\<lambda>p. info_id p \<noteq> ?i) ps"
          by (induction rule: list_all2_induct) (simp_all, use other [OF f] in blast)
        ultimately show ?thesis by (auto simp: list_all_iff simp flip: \<open>map info_id ps = _\<close>)
      qed
      have asm: "post_assembles info (abs (w_store w)) conc u0"
      proof (cases "info_is_final info")
        case True
        from fin [OF True] obtain ps bs where ps: "conc = Some ps"
          "map info_id ps = info_partial_uploads info"
          "list_all2 (\<lambda>p b. abs (w_store w0) (info_id p) = Some (p, b)
                             \<and> info_is_partial p \<and> is_complete p) ps bs"
          "abs (w_store w1) =
             (abs (w_store w0))(?i \<mapsto> (with_total (len_u64 (concat bs)) info, concat bs))" by blast
        from ps(3) have "list_all2 (\<lambda>p b. abs (w_store w) (info_id p) = Some (p, b)
                             \<and> info_is_partial p \<and> is_complete p) ps bs"
          by (rule list_all2_mono) (use other [OF True] in auto)
        then show ?thesis
          using ps True by (auto simp: post_assembles_def u0_def)
      next
        case False
        then show ?thesis using c1(5) a0 by (simp add: post_assembles_def u0_def)
      qed
      obtain x0 d0 where u0: "u0 = (x0, d0)" by (cases u0)
      have a1: "abs (w_store w1) ?i = Some (x0, d0)"
        using c1(5) fin a0 kinds by (cases "info_is_final info") (auto simp: u0_def u0 [symmetric])
      have x0: "info_id x0 = ?i" "info_partial_uploads x0 = info_partial_uploads info"
        "info_is_final x0 = info_is_final info"
        "if info_is_final x0 then info_size x0 = Some (len_u64 d0) else info_offset x0 = 0"
        using asm off by (auto simp: post_assembles_def u0 with_total_def split: if_splits)
      obtain r2 w2 where ch: "post_first_chunk h req ?i w1 = (r2, w2)" by fastforce
      obtain wr where c2: "inv (w_store w2)"
        "abs_steps (abs (w_store w1)) (chunk_log (info_is_final x0) ?i wr) (abs (w_store w2))"
        "\<And>er. r2 = Inl er \<Longrightarrow> wr = None"
        "\<And>n. r2 = Inr n \<Longrightarrow> first_chunk ?cfg req \<noteq> None \<Longrightarrow> wr = Some (body_bytes req)"
        "first_chunk ?cfg req = None \<Longrightarrow> wr = None"
        "abs (w_store w2) =
           (case wr of None \<Rightarrow> abs (w_store w1)
            | Some b \<Rightarrow> (abs (w_store w1))(?i \<mapsto> (x0\<lparr>info_offset := len_u64 b\<rparr>, write_at d0 0 b)))"
        by (rule post_first_chunk_refines [OF h c1(1) fits a1 x0(4) ch]) auto
      have st2: "abs_steps (abs (w_store w)) (post_log info conc wr []) (abs (w_store w2))"
        using abs_steps_trans [OF c1(2) c2(2)] st0
        by (auto simp: post_log_def x0(3) abs_steps_cons_iff)
      have run2: "sm_bind (post_first_chunk h req ?i) (post_tail x h req info ?i) w1 = (r, w')"
        using run1 cc Inr by (simp add: sm_simps)
      show thesis
      proof (cases r2)
        case (Inl er)
        then have "r = Inl er" "w' = w2" using run2 ch by (simp_all add: sm_simps)
        then show thesis using c2(1) st2 by (intro created [of conc wr "[]"]) auto
      next
        case (Inr n)
        then have run3: "post_tail x h req info ?i n w2 = (r, w')"
          using run2 ch by (simp add: sm_simps)
        obtain y d where yd: "with_chunk wr u0 = (y, d)" by fastforce
        have a2: "abs (w_store w2) ?i = Some (y, d)" and y: "info_id y = ?i"
          "info_partial_uploads y = info_partial_uploads info"
          using yd c2(6) a1 x0 by (auto simp: with_chunk_def u0 split: option.splits)
        have vy: "list_all valid_id (info_partial_uploads y)" using v y(2) by simp
        have owny: "info_is_final info \<Longrightarrow> ?i \<notin> set (info_partial_uploads y)" using own y(2) by simp
        obtain dels where t: "inv (w_store w')"
          "abs_steps (abs (w_store w2)) (map Ev_Delete dels) (abs (w_store w'))"
          "set dels \<subseteq> set (info_partial_uploads y)" "\<not> info_is_final info \<Longrightarrow> dels = []"
          "\<And>resp. r = Inr resp \<Longrightarrow>
             dels = (if info_is_final info \<and> ext_concatenation (cfg_extensions ?cfg)
                        \<and> ext_cleanup_concat_partials (cfg_extensions ?cfg)
                     then info_partial_uploads y else [])
             \<and> (\<exists>headers. post_headers x ?cfg
                   (build_location ?cfg ?i (req_headers req)) y = Inr headers
                 \<and> resp = response x ?cfg 201 headers [])"
          by (rule post_tail_refines [OF h c2(1) a2 y(1) vy owny run3]) auto
        have st3: "abs_steps (abs (w_store w)) (post_log info conc wr dels) (abs (w_store w'))"
          using abs_steps_trans [OF st2 t(2)] by (simp add: post_log_def)
        have "?i \<notin> event_id ` set (map Ev_Delete dels)"
          using owny t(3,4) by (cases "info_is_final info") auto
        from abs_steps_frame [OF t(2) this] have a3: "abs (w_store w') ?i = Some (y, d)"
          by (simp add: a2)
        have wr: "wr = (if first_chunk ?cfg req = None then None else Some (body_bytes req))"
          using c2(4) [OF Inr] c2(5) by auto
        have "post_done x ?cfg req info conc wr dels resp (abs (w_store w)) (y, d)"
          if "r = Inr resp" for resp
          unfolding post_done_def
          using asm wr yd t(5) [OF that] y(2) by (intro exI [of _ u0]) auto
        with a3 show thesis
          using t st3 y(2) by (intro created [of conc wr dels]) auto
      qed
    qed
  qed
qed

lemma post_refines:
  assumes h: "h_store h = ops" and I: "inv (w_store w)" and ok: "uploads_ok (abs (w_store w))"
    and uuid: "valid_id (UploadId (env_uuid e))" and fits: "request_fits req"
    and run: "post_handle x h e req w = (r, w')"
  obtains (refused) er where "r = Inl er" "inv (w_store w')" "abs (w_store w') = abs (w_store w)"
    | (created) info0 info conc wr dels where
      "post_build_info x (h_config h) e (req_headers req) = Inr info0"
      "post_pre_create (h_config h) info0 = Inr info"
      "inv (w_store w')"
      "abs_steps (abs (w_store w)) (post_log info conc wr dels) (abs (w_store w'))"
      "set dels \<subseteq> set (info_partial_uploads info)" "\<not> info_is_final info \<Longrightarrow> dels = []"
      "\<And>resp. r = Inr resp \<Longrightarrow> \<exists>u. abs (w_store w') (info_id info) = Some u
           \<and> post_done x (h_config h) req info conc wr dels resp (abs (w_store w)) u"
proof (cases "check_tus_resumable (req_headers req) = Inr ()
    \<and> ext_creation (cfg_extensions (h_config h))
    \<and> (\<exists>info0 info. post_build_info x (h_config h) e (req_headers req) = Inr info0
         \<and> post_pre_create (h_config h) info0 = Inr info)")
  case False
  then have "(\<exists>er. r = Inl er) \<and> w' = w"
    using run by (auto simp: post_handle_def sm_simps split: sum.splits if_splits)
  with I show thesis by (auto intro: refused)
next
  case True
  then obtain info0 info where b: "post_build_info x (h_config h) e (req_headers req) = Inr info0"
    and p: "post_pre_create (h_config h) info0 = Inr info" by blast
  note b' = post_build_info_InrD [OF b]
  note p' = post_pre_create_InrD [OF p]
  have "post_effects x h req info w = (r, w')"
    using run True b p by (simp add: post_handle_def sm_simps)
  moreover have "valid_id (info_id info)" using p'(7) b'(1) uuid by auto
  moreover have "info_offset info = 0" using p'(1) b'(2) by simp
  moreover have "list_all valid_id (info_partial_uploads info)"
    using post_partials_valid [OF b'(7)] p'(4) by simp
  moreover have "info_is_final info \<Longrightarrow> \<not> info_is_partial info
      \<and> ext_concatenation (cfg_extensions (h_config h))"
    using b'(5,6) p'(2,3) by simp
  ultimately show thesis
    by (rule_tac post_effects_refines [OF h I ok _ _ _ _ fits]) (auto intro: refused created [OF b p])
qed

end

end
