(* ===== verification/Tus_Refinement.thy ===== *)
theory Tus_Refinement
  imports Post_Refinement
begin

text \<open>
  Whole requests and sequences of requests: \<open>handle\<close> refines the abstract protocol, and what
  follows for the well-formedness of the store, for uploads a request is not about, and for the
  bytes a sequence of requests assembles.
\<close>

text \<open>
  The events a request may cause, given its answer. Only PATCH appends; a PATCH answered 204 appends
  exactly its body; one answered otherwise appends nothing, or its body where a \<open>pre_finish\<close> hook may
  have refused the completed upload. Only POST creates, under the fresh identifier or the one its hook chose.
\<close>

definition request_log ::
  "config \<Rightarrow> req_env \<Rightarrow> tus_request \<Rightarrow> tus_response \<Rightarrow> store_event list \<Rightarrow> bool" where
  "request_log cfg e req resp evs =
     (case req_method req of
        PATCH \<Rightarrow>
          (\<exists>i decl wr. evs = patch_log i decl wr
             \<and> (request_id req = Inr i \<or> decl = None \<and> wr = None)
             \<and> (if resp_status resp = 204 then request_id req = Inr i \<and> wr = Some (body_bytes req)
                else wr = None \<or> wr = Some (body_bytes req) \<and> pre_finish (cfg_hooks cfg) \<noteq> None))
      | POST \<Rightarrow>
          evs = []
          \<or> (\<exists>info conc wr dels. evs = post_log info conc wr dels
               \<and> (info_id info = UploadId (env_uuid e) \<or> pre_create (cfg_hooks cfg) \<noteq> None)
               \<and> (\<not> concat_is_final (req_headers req) \<longrightarrow> dels = []))
      | DELETE \<Rightarrow> evs = [] \<or> (\<exists>i. request_id req = Inr i \<and> evs = [Ev_Delete i])
      | _ \<Rightarrow> evs = [])"

text \<open>A request whose fresh identifier is valid and whose body fits in memory.\<close>

definition sane_request :: "req_env \<times> tus_request \<Rightarrow> bool" where
  "sane_request = (\<lambda>(e, req). valid_id (UploadId (env_uuid e)) \<and> request_fits req)"

lemma error_status_not_204: "status_code er \<noteq> 204"
  using status_code_range [of er] by auto

lemma sm_bind_emit: "sm_bind (emit h ev) k w = k () (snd (emit h ev w))"
  by (simp add: sm_bind_def emit_def)

context content_store
begin

lemma delete_veto_same:
  assumes "h_store h = ops" and "inv (w_store w)" and "valid_id i"
  shows "snd (delete_veto h i w) = w"
    and "delete_veto h i w = (Inr u, w') \<Longrightarrow> pre_terminate (cfg_hooks (h_config h)) \<noteq> None \<Longrightarrow>
           abs (w_store w) i \<noteq> None"
proof -
  have spec: "delete_veto h i w =
    (case pre_terminate (cfg_hooks (h_config h)) of
       None \<Rightarrow> (Inr (), w)
     | Some cb \<Rightarrow> (case map_option fst (abs (w_store w) i) of
                    None \<Rightarrow> (Inl (NotFound (as_str i)), w) | Some info \<Rightarrow> (cb info, w)))"
    by (cases "pre_terminate (cfg_hooks (h_config h))")
       (simp_all add: delete_veto_def sm_simps assms open_upload
          split: option.split)
  show "snd (delete_veto h i w) = w"
    by (auto simp: spec split: option.split)
  show "delete_veto h i w = (Inr u, w') \<Longrightarrow> pre_terminate (cfg_hooks (h_config h)) \<noteq> None \<Longrightarrow>
           abs (w_store w) i \<noteq> None"
    by (auto simp: spec split: option.splits)
qed

lemma delete_locked_refines:
  assumes h: "h_store h = ops" and I: "inv (w_store w)" and v: "valid_id i"
  shows "delete_locked x h i w =
    (if abs (w_store w) i = None then (Inl (NotFound (as_str i)), w)
     else (Inr (response x (h_config h) 204 Map.empty []), snd (delete_locked x h i w)))"
    and "inv (w_store (snd (delete_locked x h i w)))"
    and "abs (w_store (snd (delete_locked x h i w))) = (abs (w_store w))(i := None)"
proof -
  have "delete_locked x h i w =
    (if abs (w_store w) i = None then (Inl (NotFound (as_str i)), w)
     else (Inr (response x (h_config h) 204 Map.empty []), snd (delete_locked x h i w)))
    \<and> inv (w_store (snd (delete_locked x h i w)))
    \<and> abs (w_store (snd (delete_locked x h i w))) = (abs (w_store w))(i := None)"
  proof (cases "abs (w_store w) i")
    case None
    then have "delete_locked x h i w = (Inl (NotFound (as_str i)), w)"
      by (simp add: delete_locked_def open_any [OF h I v] sm_bind_def)
    with None I show ?thesis by (simp add: fun_upd_idem)
  next
    case (Some u)
    obtain p b where a: "abs (w_store w) i = Some (p, b)" using Some by (cases u) auto
    obtain s' where del: "up_delete ops i (w_store w) = (Inr (), s')" "inv s'"
      "abs s' = (abs (w_store w))(i := None)"
      using c_delete [OF I a] by blast
    have "on_store (up_delete (h_store h) i) w = (Inr (), w\<lparr>w_store := s'\<rparr>)"
      using del(1) by (simp add: on_store_def h)
    then have "delete_locked x h i w = (Inr (response x (h_config h) 204 Map.empty []),
        snd (emit h (UploadTerminated i) (w\<lparr>w_store := s'\<rparr>)))"
      by (simp add: delete_locked_def open_any [OF h I v] Some sm_bind_emit sm_bind_Inr sm_return_def)
    with Some del show ?thesis by simp
  qed
  then show "delete_locked x h i w =
    (if abs (w_store w) i = None then (Inl (NotFound (as_str i)), w)
     else (Inr (response x (h_config h) 204 Map.empty []), snd (delete_locked x h i w)))"
    and "inv (w_store (snd (delete_locked x h i w)))"
    and "abs (w_store (snd (delete_locked x h i w))) = (abs (w_store w))(i := None)"
    by auto
qed

lemma delete_refines:
  assumes h: "h_store h = ops" and I: "inv (w_store w)" and run: "delete_handle x h e req w = (r, w')"
  obtains (refused) er where "r = Inl er" "inv (w_store w')" "abs (w_store w') = abs (w_store w)"
    | (deleted) i where "request_id req = Inr i" "inv (w_store w')" "abs (w_store w) i \<noteq> None"
        "abs (w_store w') = (abs (w_store w))(i := None)"
        "r = Inr (response x (h_config h) 204 Map.empty [])"
proof (cases "check_tus_resumable (req_headers req) = Inr ()
    \<and> ext_termination (cfg_extensions (h_config h)) \<and> (\<exists>i. request_id req = Inr i)")
  case False
  then have "(\<exists>er. r = Inl er) \<and> w' = w"
    using run by (auto simp: delete_handle_def sm_simps split: sum.splits if_splits)
  with I show thesis by (auto intro: refused)
next
  case True
  then obtain i where i: "request_id req = Inr i" by blast
  note v = request_id_valid [OF i]
  from run True i have run1:
    "sm_bind (delete_veto h i) (\<lambda>_. with_lock h i (delete_locked x h i)) w = (r, w')"
    by (simp add: delete_handle_def sm_simps)
  then show thesis
  proof (cases rule: sm_bind_cases)
    case (fail er)
    then show thesis using delete_veto_same(1) [OF h I v] I by (intro refused [of er]) auto
  next
    case (ok u w0)
    then have "w0 = w" using delete_veto_same(1) [OF h I v] by (metis snd_conv)
    with ok(2) have "with_lock h i (delete_locked x h i) w = (r, w')" by simp
    then show thesis
    proof (cases rule: with_lock_result)
      case (no_lock er)
      then show thesis using I by (intro refused [of er]) simp_all
    next
      case (held l w1)
      define wl where "wl = w\<lparr>w_lock := l\<rparr>"
      have Il: "inv (w_store wl)" using I by (simp add: wl_def)
      note dl = delete_locked_refines [OF h Il v, of x]
      have st: "w_store wl = w_store w" by (simp add: wl_def)
      show thesis
      proof (cases "abs (w_store w) i")
        case None
        then show thesis
          using held dl(1) I by (intro refused [of "NotFound (as_str i)"]) (simp_all add: wl_def)
      next
        case (Some a)
        have "w1 = snd (delete_locked x h i wl)" using held(1) by (simp add: wl_def)
        then show thesis
          using held dl Some st by (intro deleted [OF i]) (simp_all add: wl_def)
      qed
    qed
  qed
qed

lemma read_handlers_same:
  assumes h: "h_store h = ops" and I: "inv (w_store w)"
    and m: "req_method req \<notin> {POST, PATCH, DELETE}" and run: "dispatch x h e req w = (r, w')"
  shows "w_store w' = w_store w"
proof (cases "req_method req")
  case OPTIONS
  then show ?thesis
    using run by (auto simp: dispatch_def options_handle_def sm_simps split: sum.splits)
next
  case HEAD
  then show ?thesis using run head_spec [OF h I] by (simp add: dispatch_def)
next
  case GET
  then show ?thesis using run get_store(1) [OF h I] by (simp add: dispatch_def)
qed (use m run in \<open>auto simp: dispatch_def sm_simps\<close>)

lemma handle_refines:
  assumes h: "h_store h = ops" and I: "inv (w_store w)" and ok: "uploads_ok (abs (w_store w))"
    and sane: "sane_request (e, req)" and run: "handle x h e req w = (resp, w')"
  obtains evs where "inv (w_store w')" and "abs_steps (abs (w_store w)) evs (abs (w_store w'))"
    and "request_log (h_config h) e req resp evs"
proof -
  have uuid: "valid_id (UploadId (env_uuid e))" and fits: "request_fits req"
    using sane by (simp_all add: sane_request_def)
  obtain r where d: "dispatch x h e req w = (r, w')"
    and resp: "resp = (case r of Inr rs \<Rightarrow> rs | Inl er \<Rightarrow> error_response x (h_config h) er)"
    using run by (auto simp: handle_def split: prod.splits sum.splits)
  consider (patch) "req_method req = PATCH" | (post) "req_method req = POST"
    | (delete) "req_method req = DELETE" | (reads) "req_method req \<notin> {POST, PATCH, DELETE}"
    by blast
  then show thesis
  proof cases
    case patch
    then have run': "patch_handle x h e req w = (r, w')" using d by (simp add: dispatch_def)
    obtain i decl wr where p: "inv (w_store w')"
      "abs_steps (abs (w_store w)) (patch_log i decl wr) (abs (w_store w'))"
      "request_id req = Inr i \<or> decl = None \<and> wr = None"
      "case r of Inr rs \<Rightarrow> request_id req = Inr i \<and> wr = Some (body_bytes req) \<and> resp_status rs = 204
       | Inl er \<Rightarrow> wr = None \<or> wr = Some (body_bytes req) \<and> pre_finish (cfg_hooks (h_config h)) \<noteq> None"
      by (rule patch_refines [OF h I fits run'])
    have "request_log (h_config h) e req resp (patch_log i decl wr)"
      unfolding request_log_def patch http_method.case
      using p(3,4) resp error_status_not_204
      by (intro exI [of _ i] exI [of _ decl] exI [of _ wr]) (auto split: sum.splits)
    with p show thesis by (blast intro: that)
  next
    case post
    then have run': "post_handle x h e req w = (r, w')" using d by (simp add: dispatch_def)
    from h I ok uuid fits run' show thesis
    proof (cases rule: post_refines)
      case (refused er)
      then show thesis by (intro that [of "[]"]) (simp_all add: request_log_def post)
    next
      case (created info0 info conc wr dels)
      have "info_id info = UploadId (env_uuid e) \<or> pre_create (cfg_hooks (h_config h)) \<noteq> None"
        using post_build_info_InrD(1) [OF created(1)] post_pre_create_InrD(7) [OF created(2)] by auto
      moreover have "\<not> concat_is_final (req_headers req) \<Longrightarrow> dels = []"
        using created(6) post_build_info_InrD(3) [OF created(1)]
          post_pre_create_InrD(2) [OF created(2)] by simp
      ultimately have "request_log (h_config h) e req resp (post_log info conc wr dels)"
        by (auto simp: request_log_def post)
      with created(3,4) show thesis by (rule that)
    qed
  next
    case delete
    then have run': "delete_handle x h e req w = (r, w')" using d by (simp add: dispatch_def)
    from h I run' show thesis
    proof (cases rule: delete_refines)
      case (refused er)
      then show thesis by (intro that [of "[]"]) (simp_all add: request_log_def delete)
    next
      case (deleted i)
      then show thesis
        using abs_step.step_delete [of "abs (w_store w)" i]
        by (intro that [of "[Ev_Delete i]"]) (simp_all add: request_log_def delete)
    qed
  next
    case reads
    then have "w_store w' = w_store w" by (rule read_handlers_same [OF h I _ d])
    then show thesis
      using I reads by (intro that [of "[]"]) (auto simp: request_log_def split: http_method.split)
  qed
qed


lemma handle_ok:
  assumes "h_store h = ops" and "inv (w_store w)" and "uploads_ok (abs (w_store w))"
    and "sane_request (e, req)" and "handle x h e req w = (resp, w')"
  shows "inv (w_store w')" and "uploads_ok (abs (w_store w'))"
  by (rule handle_refines [OF assms], simp,
      rule handle_refines [OF assms], use assms(3) abs_steps_ok in blast)

lemma handle_all_ok:
  assumes "h_store h = ops"
  shows "inv (w_store w) \<Longrightarrow> uploads_ok (abs (w_store w)) \<Longrightarrow> list_all sane_request rs \<Longrightarrow>
           inv (w_store (snd (handle_all x h rs w)))
           \<and> uploads_ok (abs (w_store (snd (handle_all x h rs w))))"
proof (induction rs arbitrary: w)
  case Nil
  then show ?case by simp
next
  case (Cons r rs)
  obtain e req where r: "r = (e, req)" by fastforce
  obtain resp w1 where one: "handle x h e req w = (resp, w1)" by fastforce
  have "sane_request (e, req)" using Cons.prems(3) r by simp
  note ok = handle_ok [OF assms Cons.prems(1,2) this one]
  show ?case
    using Cons.IH [OF ok] Cons.prems(3) by (cases "handle_all x h rs w1") (simp add: r one)
qed

end

text \<open>The bytes a request adds to \<open>i\<close>: the body of a PATCH on it answered 204.\<close>

definition patched :: "upload_id \<Rightarrow> tus_request \<Rightarrow> tus_response \<Rightarrow> bytes" where
  "patched i req resp =
     (if req_method req = PATCH \<and> request_id req = Inr i \<and> resp_status resp = 204
      then body_bytes req else [])"

lemma request_log_bytes:
  assumes log: "request_log cfg e req resp evs"
    and hooks: "pre_create (cfg_hooks cfg) = None" "pre_finish (cfg_hooks cfg) = None"
    and other: "UploadId (env_uuid e) \<noteq> i"
  shows "list_all (keeps_bytes i) evs" and "appended i evs = patched i req resp"
proof -
  have "list_all (keeps_bytes i) evs \<and> appended i evs = patched i req resp"
  proof (cases "req_method req")
    case PATCH
    then obtain j decl wr where evs: "evs = patch_log j decl wr"
      "request_id req = Inr j \<or> decl = None \<and> wr = None"
      "if resp_status resp = 204 then request_id req = Inr j \<and> wr = Some (body_bytes req)
       else wr = None \<or> wr = Some (body_bytes req) \<and> pre_finish (cfg_hooks cfg) \<noteq> None"
      using log unfolding request_log_def PATCH http_method.case by blast
    then have "appended i evs = patched i req resp"
      using PATCH hooks(2) by (auto simp: patch_log_appended patched_def split: if_splits)
    with evs(1) patch_log_keeps show ?thesis by simp
  next
    case POST
    have dels: "list_all (keeps_bytes i) (map Ev_Delete ds)" "appended i (map Ev_Delete ds) = []" for ds
      by (induction ds) simp_all
    show ?thesis
      using log hooks(1) other POST dels
      by (auto simp: request_log_def patched_def post_log_def conc_log_def chunk_log_def
          appended_append split: option.splits)
  next
    case DELETE
    then show ?thesis using log by (auto simp: request_log_def patched_def)
  qed (use log in \<open>auto simp: request_log_def patched_def\<close>)
  then show "list_all (keeps_bytes i) evs" and "appended i evs = patched i req resp" by auto
qed

context content_store
begin

text \<open>
  What a sequence of requests leaves of an upload: its bytes, and after them the bodies of the
  accepted PATCH requests, each once and in order.
\<close>

lemma handle_all_assembles:
  assumes h: "h_store h = ops"
    and hooks: "pre_create (cfg_hooks (h_config h)) = None" "pre_finish (cfg_hooks (h_config h)) = None"
  shows "inv (w_store w) \<Longrightarrow> uploads_ok (abs (w_store w)) \<Longrightarrow> list_all sane_request rs \<Longrightarrow>
           list_all (\<lambda>(e, req). UploadId (env_uuid e) \<noteq> i) rs \<Longrightarrow>
           handle_all x h rs w = (resps, w') \<Longrightarrow> abs (w_store w') i = Some (y', d') \<Longrightarrow>
           \<exists>y d. abs (w_store w) i = Some (y, d)
               \<and> d' = d @ concat (map2 (patched i) (map snd rs) resps)"
proof (induction rs arbitrary: w resps)
  case Nil
  then show ?case by auto
next
  case (Cons r rs)
  obtain e req where r: "r = (e, req)" by fastforce
  obtain resp w1 where one: "handle x h e req w = (resp, w1)" by fastforce
  obtain rest where rest: "handle_all x h rs w1 = (rest, w')" "resps = resp # rest"
    using Cons.prems(5) by (auto simp: r one split: prod.splits)
  have sane: "sane_request (e, req)" and new: "UploadId (env_uuid e) \<noteq> i"
    using Cons.prems(3,4) r by simp_all
  obtain evs where evs: "abs_steps (abs (w_store w)) evs (abs (w_store w1))"
    "request_log (h_config h) e req resp evs"
    by (rule handle_refines [OF h Cons.prems(1,2) sane one])
  note ok = handle_ok [OF h Cons.prems(1,2) sane one]
  from Cons.IH [OF ok _ _ rest(1) Cons.prems(6)] Cons.prems(3,4)
  obtain y1 d1 where mid: "abs (w_store w1) i = Some (y1, d1)"
    "d' = d1 @ concat (map2 (patched i) (map snd rs) rest)" by auto
  note log = request_log_bytes [OF evs(2) hooks new]
  from abs_steps_content [OF evs(1) Cons.prems(2) log(1) mid(1)] mid(2) log(2)
  show ?case by (auto simp: r rest(2))
qed

text \<open>GET answers with the bytes received, and says how many.\<close>

lemma get_refines:
  assumes h: "h_store h = ops" and I: "inv (w_store w)" and ok: "uploads_ok (abs (w_store w))"
    and run: "get_handle x h e req w = (Inr resp, w')"
  obtains i y d rd where "request_id req = Inr i" and "abs (w_store w) i = Some (y, d)"
    and "is_complete y" and "\<not> is_expired e y" and "resp_status resp = 200"
    and "resp_body resp = Body_Reader rd" and "read_to_end rd = Inr d"
    and "resp_headers resp HDR_CONTENT_LENGTH = Some (u64_header (x_hv_ok x) (len_u64 d))"
proof -
  obtain i where i: "request_id req = Inr i" and "with_lock h i (get_locked x h e i) w = (Inr resp, w')"
    using run by (auto simp: get_handle_def sm_simps split: if_splits sum.splits)
  from this(2) obtain l w1 where run1: "get_locked x h e i (w\<lparr>w_lock := l\<rparr>) = (Inr resp, w1)"
    by (cases rule: with_lock_result) auto
  have Il: "inv (w_store (w\<lparr>w_lock := l\<rparr>))" using I by simp
  from run1 get_locked_spec [OF h Il request_id_valid [OF i], of x e]
  obtain y d where a: "abs (w_store w) i = Some (y, d)" "\<not> is_expired e y" "is_complete y"
    by (auto split: option.splits if_splits)
  obtain rd where rd: "up_read_content ops i (w_store w) = (Inr rd, w_store w)" "read_to_end rd = Inr d"
    using c_read_complete [OF I a(1,3)] by blast
  have resp: "resp = response_with_body x (h_config h) 200 (get_headers x y) (Body_Reader rd)"
    using run1 get_locked_spec [OF h Il request_id_valid [OF i], of x e] a rd(1) by simp
  have "info_size y = Some (len_u64 d)"
    by (rule complete_size [OF uploads_okD(2) [OF ok a(1)] a(3)])
  then have "resp_headers resp HDR_CONTENT_LENGTH = Some (u64_header (x_hv_ok x) (len_u64 d))"
    by (simp add: resp response_with_body_def get_headers_def)
  then show thesis
    using that [OF i a(1,3,2) _ _ rd(2)] resp by (simp add: response_with_body_def)
qed

text \<open>PATCH answered 204: the exact new state of the upload and the offset reported.\<close>

lemma patch_ok:
  assumes h: "h_store h = ops" and I: "inv (w_store w)" and ok: "uploads_ok (abs (w_store w))"
    and fits: "request_fits req" and run: "patch_handle x h e req w = (Inr resp, w')"
  obtains i y d decl y' where "request_id req = Inr i" and "abs (w_store w) i = Some (y, d)"
    and "\<not> info_is_final y" and "\<not> is_expired e y"
    and "parse_upload_offset (req_headers req) = Inr (len_u64 d)"
    and "declared_info (h_config h) (req_headers req) y = Inr decl"
    and "chunk_fits (info_after decl y) (len_u64 d) (len_u64 (body_bytes req))"
    and "y' = (info_after decl y)\<lparr>info_offset := len_u64 (d @ body_bytes req)\<rparr>"
    and "abs (w_store w') = (abs (w_store w))(i \<mapsto> (y', d @ body_bytes req))"
    and "resp = response x (h_config h) 204 (patch_headers x (h_config h) y') []"
    and "\<exists>c. patch_checksum x (h_config h) (req_headers req) = Inr c
           \<and> checksum_accepts x c (body_bytes req)"
proof -
  obtain off i where i: "request_id req = Inr i"
    and off: "parse_upload_offset (req_headers req) = Inr off"
    and lock: "with_lock h i (patch_locked x h e req off i) w = (Inr resp, w')"
    using run by (auto simp: patch_handle_def sm_simps Let_def split: sum.splits if_splits)
  from lock obtain l w1 where run1: "patch_locked x h e req off i (w\<lparr>w_lock := l\<rparr>) = (Inr resp, w1)"
    and st: "w_store w' = w_store w1"
    by (cases rule: with_lock_result) auto
  define wl where "wl = w\<lparr>w_lock := l\<rparr>"
  have Il: "inv (w_store wl)" and sl: "w_store wl = w_store w" using I by (simp_all add: wl_def)
  obtain y decl c b s1 rd s2 y' where
    p: "map_option fst (abs (w_store wl) i) = Some y" "\<not> info_is_final y" "info_offset y = off"
      "\<not> is_expired e y" "declared_info (h_config h) (req_headers req) y = Inr decl"
      "declares (w_store wl) i decl s1" "body_bytes req = b" "read_to_end rd = Inr b" "fits_vec rd"
      "up_write_chunk ops i off rd s1 = (Inr (len_u64 b), s2)"
      "y' = (info_after decl y)\<lparr>info_offset := off + len_u64 b\<rparr>"
      "chunk_fits (info_after decl y) off (len_u64 b)"
      "resp = response x (h_config h) 204 (patch_headers x (h_config h) y') []"
      "patch_checksum x (h_config h) (req_headers req) = Inr c" "checksum_accepts x c b"
    and fin: "if is_complete y' then up_finalize ops i s2 = (Inr (), w_store w1) else w_store w1 = s2"
    by (rule patch_locked_ok [OF h Il request_id_valid [OF i] fits run1 [folded wl_def]]) auto
  then obtain d where a: "abs (w_store wl) i = Some (y, d)" by auto
  have oky: "upload_ok (y, d)" using uploads_okD(2) [OF ok] a sl by simp
  then have offd: "off = len_u64 d" using p(2,3) by (simp add: upload_ok_def)
  have wr: "up_write_chunk ops i (info_offset y) rd s1 = (Inr (len_u64 b), s2)"
    using p(3,10) by simp
  note stp = patch_written_step [OF Il a p(2,6,8,9) wr]
  have a2: "abs s2 = (abs (w_store wl))(i \<mapsto> (y', d @ b))"
    using stp(2) append_at_end [OF oky p(2)] p(3,11) by simp
  then have "abs s2 i \<noteq> None" by simp
  from fin finalize_abs [OF stp(1) this] have "abs (w_store w1) = abs s2"
    by (auto split: if_splits)
  with a2 have "abs (w_store w') = (abs (w_store w))(i \<mapsto> (y', d @ b))" by (simp add: st sl)
  with that [of i y d decl y'] p a i off offd sl show thesis
    by (auto simp: len_u64_append)
qed

end

text \<open>What the log of a request says about an upload it is not about.\<close>

lemma post_log_ids: "event_id ` set (post_log info conc wr dels) \<subseteq> insert (info_id info) (set dels)"
  by (auto simp: post_log_def conc_log_def chunk_log_def split: option.splits if_splits)

lemma request_log_frame:
  assumes log: "request_log cfg e req resp evs" and "pre_create (cfg_hooks cfg) = None"
    and "request_id req \<noteq> Inr j" and "UploadId (env_uuid e) \<noteq> j"
    and "\<not> concat_is_final (req_headers req)"
  shows "j \<notin> event_id ` set evs"
proof (cases "req_method req")
  case PATCH
  with log obtain i decl wr where "evs = patch_log i decl wr"
    "request_id req = Inr i \<or> decl = None \<and> wr = None"
    unfolding request_log_def PATCH http_method.case by blast
  then show ?thesis using assms(3) by (auto simp: patch_log_def split: option.splits)
next
  case POST
  with log assms(2,5) have "evs = [] \<or> (\<exists>info conc wr. evs = post_log info conc wr []
      \<and> info_id info = UploadId (env_uuid e))"
    by (fastforce simp: request_log_def)
  then show ?thesis using post_log_ids assms(4) by fastforce
next
  case DELETE
  then show ?thesis using assms(1,3) by (auto simp: request_log_def)
qed (use log in \<open>auto simp: request_log_def\<close>)

lemma patch_log_declares:
  assumes "abs_steps a (patch_log i decl None) a'"
  shows "map_option snd (a' j) = map_option snd (a j)"
  using assms by (auto simp: patch_log_def elim!: abs_step_declareE split: option.splits)

lemma patch_log_appends:
  assumes "abs_steps a (patch_log i decl (Some b)) a'" and "uploads_ok a"
  obtains y d y' where "a i = Some (y, d)" and "a' i = Some (y', d @ b)"
proof -
  have "patch_log i decl (Some b) = patch_log i decl None @ [Ev_Append i b]" by (simp add: patch_log_def)
  then have "a' i \<noteq> None" using assms(1) by (auto simp: abs_steps_append elim!: abs_step_appendE)
  then obtain y' d' where a': "a' i = Some (y', d')" by auto
  from abs_steps_content [OF assms patch_log_keeps a'] obtain y d where "a i = Some (y, d)" "d' = d @ b"
    by (auto simp: patch_log_appended)
  with a' that show thesis by blast
qed

end
