(* ===== verification/Memory_Store.thy ===== *)
theory Memory_Store
  imports Tus_Refinement
begin

text \<open>
  \<open>fileloft-store-memory/src/store.rs\<close>: the in-memory back end. The shared
  \<open>HashMap<String, MemoryUploadState>\<close> behind its read-write lock is a map; each operation
  takes the lock once around the part modelled as one step.
\<close>

record mem_upload_state =
  mu_info :: upload_info
  mu_data :: bytes

type_synonym mem_store = "string \<rightharpoonup> mem_upload_state"

definition memory_store_new :: mem_store where
  "memory_store_new = Map.empty"

definition mem_create_upload :: "upload_info \<Rightarrow> (mem_store, upload_id) op" where
  "mem_create_upload info s =
     (Inr (info_id info), s(as_str (info_id info) \<mapsto> \<lparr>mu_info = info, mu_data = []\<rparr>))"

definition mem_get_upload :: "upload_id \<Rightarrow> (mem_store, upload_id) op" where
  "mem_get_upload i s =
     (if s (as_str i) \<noteq> None then (Inr i, s) else (Inl (NotFound (as_str i)), s))"

text \<open>
  \<open>data.resize(end, 0)\<close> when the buffer is shorter, then
  \<open>data[start..end].copy_from_slice(buf)\<close>.
\<close>

definition splice_at :: "bytes \<Rightarrow> nat \<Rightarrow> nat \<Rightarrow> bytes \<Rightarrow> bytes" where
  "splice_at dat start stop buf =
     (let grown = (if length dat < stop then dat @ replicate (stop - length dat) (CHR 0x00)
                   else dat)
      in take start grown @ buf @ drop stop grown)"

definition mem_write_chunk :: "upload_id \<Rightarrow> u64 \<Rightarrow> reader \<Rightarrow> (mem_store, u64) op" where
  "mem_write_chunk i off rd s =
     (case read_all rd of
        Inl e \<Rightarrow> (Inl e, s)
      | Inr buf \<Rightarrow>
          (let n = len_u64 buf
           in case s (as_str i) of
                None \<Rightarrow> (Inl (NotFound (as_str i)), s)
              | Some entry \<Rightarrow>
                  (case checked_add off n of
                     None \<Rightarrow> (Inl (Internal ''upload offset overflow''), s)
                   | Some end_offset \<Rightarrow>
                       (let info = mu_info entry;
                            entry' = \<lparr>mu_info = info\<lparr>info_offset := off + n\<rparr>,
                                      mu_data = splice_at (mu_data entry) (unat off)
                                                  (unat (off + n)) buf\<rparr>
                        in case info_size info of
                             Some declared \<Rightarrow>
                               (if declared < end_offset
                                then (Inl (ExceedsUploadLength declared end_offset), s)
                                else (Inr n, s(as_str i \<mapsto> entry')))
                           | None \<Rightarrow> (Inr n, s(as_str i \<mapsto> entry'))))))"

definition mem_get_info :: "upload_id \<Rightarrow> (mem_store, upload_info) op" where
  "mem_get_info i s =
     (case s (as_str i) of
        None \<Rightarrow> (Inl (NotFound (as_str i)), s) | Some e \<Rightarrow> (Inr (mu_info e), s))"

definition mem_finalize :: "upload_id \<Rightarrow> (mem_store, unit) op" where
  "mem_finalize i s = (Inr (), s)"

definition mem_delete :: "upload_id \<Rightarrow> (mem_store, unit) op" where
  "mem_delete i s =
     (case s (as_str i) of
        None \<Rightarrow> (Inl (NotFound (as_str i)), s) | Some e \<Rightarrow> (Inr (), s(as_str i := None)))"

definition mem_declare_length :: "upload_id \<Rightarrow> u64 \<Rightarrow> (mem_store, unit) op" where
  "mem_declare_length i n s =
     (case s (as_str i) of
        None \<Rightarrow> (Inl (NotFound (as_str i)), s)
      | Some e \<Rightarrow>
          (if info_size (mu_info e) \<noteq> None then (Inl UploadLengthAlreadySet, s)
           else (Inr (), s(as_str i \<mapsto>
                   e\<lparr>mu_info := (mu_info e)\<lparr>info_size := Some n,
                                            info_size_is_deferred := False\<rparr>\<rparr>))))"

definition mem_read_content :: "upload_id \<Rightarrow> (mem_store, reader) op" where
  "mem_read_content i s =
     (case s (as_str i) of
        None \<Rightarrow> (Inl (NotFound (as_str i)), s)
      | Some e \<Rightarrow>
          (if \<not> is_complete (mu_info e) then (Inl UploadNotReadyForDownload, s)
           else (Inr [Chunk (mu_data e)], s)))"

text \<open>The loop that collects the partials' bytes, under the read lock.\<close>

fun mem_collect :: "mem_store \<Rightarrow> upload_info list \<Rightarrow> tus_error + bytes" where
  "mem_collect s [] = Inr []"
| "mem_collect s (p # ps) =
     (case s (as_str (info_id p)) of
        None \<Rightarrow> Inl (NotFound (as_str (info_id p)))
      | Some e \<Rightarrow>
          (case mem_collect s ps of Inl err \<Rightarrow> Inl err | Inr b \<Rightarrow> Inr (mu_data e @ b)))"

definition mem_concatenate :: "upload_id \<Rightarrow> upload_info list \<Rightarrow> (mem_store, unit) op" where
  "mem_concatenate i partials s =
     (case mem_collect s partials of
        Inl e \<Rightarrow> (Inl e, s)
      | Inr combined \<Rightarrow>
          (let total = len_u64 combined
           in case s (as_str i) of
                None \<Rightarrow> (Inl (NotFound (as_str i)), s)
              | Some e \<Rightarrow>
                  (Inr (), s(as_str i \<mapsto>
                     \<lparr>mu_info = (mu_info e)\<lparr>info_size := Some total, info_offset := total,
                                             info_is_final := True\<rparr>,
                      mu_data = combined\<rparr>))))"

definition get_upload_data :: "mem_store \<Rightarrow> upload_id \<Rightarrow> bytes option" where
  "get_upload_data s i = map_option mu_data (s (as_str i))"

definition memory_ops :: "mem_store datastore" where
  "memory_ops =
     \<lparr>ds_create_upload = mem_create_upload, ds_get_upload = mem_get_upload,
      up_write_chunk = mem_write_chunk, up_get_info = mem_get_info,
      up_finalize = mem_finalize, up_delete = mem_delete,
      up_declare_length = mem_declare_length, up_concatenate = mem_concatenate,
      up_read_content = mem_read_content\<rparr>"

lemmas mem_defs =
  mem_create_upload_def mem_get_upload_def mem_write_chunk_def mem_get_info_def
  mem_finalize_def mem_delete_def mem_declare_length_def mem_read_content_def
  mem_concatenate_def

lemma memory_ops_sel [simp]:
  "ds_create_upload memory_ops = mem_create_upload"
  "ds_get_upload memory_ops = mem_get_upload"
  "up_write_chunk memory_ops = mem_write_chunk"
  "up_get_info memory_ops = mem_get_info"
  "up_finalize memory_ops = mem_finalize"
  "up_delete memory_ops = mem_delete"
  "up_declare_length memory_ops = mem_declare_length"
  "up_concatenate memory_ops = mem_concatenate"
  "up_read_content memory_ops = mem_read_content"
  by (simp_all add: memory_ops_def)

section \<open>The contract\<close>

definition mem_abs :: "mem_store \<Rightarrow> uploads" where
  "mem_abs s i = map_option (\<lambda>e. (mu_info e, mu_data e)) (s (as_str i))"

lemma mem_abs_SomeD:
  assumes "mem_abs s i = Some (x, d)"
  shows "s (as_str i) = Some \<lparr>mu_info = x, mu_data = d\<rparr>"
  using assms by (auto simp: mem_abs_def)

lemma mem_abs_eq_None: "mem_abs s i = None \<longleftrightarrow> s (as_str i) = None"
  by (simp add: mem_abs_def)

lemma mem_abs_upd:
  "mem_abs (s(as_str i \<mapsto> e)) = (mem_abs s)(i \<mapsto> (mu_info e, mu_data e))"
  by (rule ext) (auto simp: mem_abs_def upload_id.expand)

lemma mem_abs_del: "mem_abs (s(as_str i := None)) = (mem_abs s)(i := None)"
  by (rule ext) (auto simp: mem_abs_def upload_id.expand)

lemma splice_at_eq: "splice_at d off (off + length b) b = write_at d off b"
  by (auto simp: splice_at_def write_at_def Let_def)

text \<open>The two branches of a write.\<close>

lemma mem_write_chunk_InrD:
  assumes "mem_write_chunk i off rd s = (Inr n, s')" and "s (as_str i) = Some entry"
    and "fits_vec rd"
  obtains b where "read_to_end rd = Inr b" and "n = len_u64 b" and "chunk_fits (mu_info entry) off n"
    and "s' = s(as_str i \<mapsto> \<lparr>mu_info = (mu_info entry)\<lparr>info_offset := off + n\<rparr>,
                             mu_data = write_at (mu_data entry) (unat off) b\<rparr>)"
proof -
  obtain b where b: "read_to_end rd = Inr b" "n = len_u64 b" "chunk_fits (mu_info entry) off n"
    "s' = s(as_str i \<mapsto> \<lparr>mu_info = (mu_info entry)\<lparr>info_offset := off + n\<rparr>,
              mu_data = splice_at (mu_data entry) (unat off) (unat (off + n)) b\<rparr>)"
    using assms(1,2)
    by (fastforce simp: mem_write_chunk_def read_all_def chunk_fits_def Let_def
          checked_add_Some_iff not_less
        split: sum.splits option.splits if_splits)
  have "unat (len_u64 b) = length b"
    using assms(3) b(1) by (simp add: fits_vec_def unat_len_u64)
  then have "unat (off + n) = unat off + length b"
    using b(2,3) by (auto simp: chunk_fits_def checked_add_Some_iff unat_word_ariths)
  with b show thesis by (intro that [of b]) (simp_all add: splice_at_eq)
qed

lemma mem_write_chunk_InlD: "mem_write_chunk i off rd s = (Inl e, s') \<Longrightarrow> s' = s"
  by (auto simp: mem_write_chunk_def Let_def split: sum.splits option.splits if_splits)

lemma mem_collect_eq:
  "list_all2 (\<lambda>p b. mem_abs s (info_id p) = Some (p, b)) ps bs \<Longrightarrow>
     mem_collect s ps = Inr (concat bs)"
  by (induction rule: list_all2_induct) (auto dest!: mem_abs_SomeD)

interpretation mem: content_store memory_ops mem_abs "\<lambda>_. True"
proof
  fix s s' :: mem_store and i x d off r n
  assume "mem_abs s i = Some (x, d)" "fits_vec r"
    "up_write_chunk memory_ops i off r s = (Inr n, s')"
  then show "True \<and> (\<exists>b. read_to_end r = Inr b \<and> n = len_u64 b \<and> chunk_fits x off n
      \<and> mem_abs s' = (mem_abs s)(i \<mapsto> (x\<lparr>info_offset := off + n\<rparr>, write_at d (unat off) b)))"
    by (auto dest!: mem_abs_SomeD elim!: mem_write_chunk_InrD simp: mem_abs_upd)
next
  fix s s' :: mem_store and i x d ps bs u
  assume "mem_abs s i = Some (x, d)" "up_concatenate memory_ops i ps s = (Inr u, s')"
    "list_all2 (\<lambda>p b. mem_abs s (info_id p) = Some (p, b)) ps bs"
  then show "True \<and> mem_abs s' =
      (mem_abs s)(i \<mapsto> (with_total (len_u64 (concat bs)) x, concat bs))"
    by (auto simp: mem_concatenate_def mem_collect_eq Let_def mem_abs_upd with_total_def
        dest!: mem_abs_SomeD)
next
  fix s s' :: mem_store and i x d ps bs e
  assume "mem_abs s i = Some (x, d)" "up_concatenate memory_ops i ps s = (Inl e, s')"
    "list_all2 (\<lambda>p b. mem_abs s (info_id p) = Some (p, b)) ps bs"
  then show "True \<and> mem_abs s' = mem_abs s"
    by (auto simp: mem_concatenate_def mem_collect_eq Let_def split: option.splits)
next
  fix s :: mem_store and i x d
  assume "mem_abs s i = Some (x, d)" and "is_complete x"
  then show "\<exists>rd. up_read_content memory_ops i s = (Inr rd, s) \<and> read_to_end rd = Inr d"
    by (auto simp: mem_read_content_def dest!: mem_abs_SomeD)
qed (auto simp: mem_create_upload_def mem_get_upload_def mem_get_info_def mem_finalize_def
       mem_declare_length_def mem_delete_def mem_read_content_def mem_abs_upd mem_abs_del
       mem_abs_eq_None
       with_length_def
       dest: mem_write_chunk_InlD dest!: mem_abs_SomeD split: option.splits if_splits)

end
