(* ===== verification/Memory_Server.thy ===== *)
theory Memory_Server
  imports Memory_Store
begin

text \<open>
  The server over the in-memory store: the properties of the handlers on this back end, through its
  interpretation of \<open>content_store\<close>, with the concrete requests that show their hypotheses can
  hold.
\<close>

section \<open>A concrete server\<close>

text \<open>
  Instances of the third-party functions: every string is a header value, base64 is the identity,
  a digest is the data itself, a date is the empty text.
\<close>

definition demo_externals :: externals where
  "demo_externals =
     \<lparr>x_hv_ok = (\<lambda>s. True), x_b64_decode = Inr, x_b64_encode = (\<lambda>b. b),
      x_digest = (\<lambda>a b. b),
      x_rounds = (\<lambda>k. \<lparr>pr_waits = k mod 2, pr_outside = 0, pr_more = 1\<rparr>), x_format_date = (\<lambda>t. []), x_from_std = (\<lambda>n. Inr (int n)),
      x_map_order = (\<lambda>m. m)\<rparr>"

definition demo_config :: config where
  "demo_config =
     config_default\<lparr>cfg_enable_download := True,
       cfg_extensions := extensions_default\<lparr>ext_concatenation := True\<rparr>\<rparr>"

definition demo_server :: "(mem_store, held_set) tus_handler" where
  "demo_server = tus_handler_new memory_ops (Some memory_locker_ops) demo_config"

definition demo_world :: "(mem_store, held_set) world" where
  "demo_world = \<lparr>w_store = memory_store_new, w_lock = {}, w_events = []\<rparr>"

definition demo_env :: "string \<Rightarrow> req_env" where
  "demo_env u = \<lparr>env_now = 0, env_uuid = u\<rparr>"

definition tus_headers :: "(header_name \<times> string) list \<Rightarrow> header_map" where
  "tus_headers kvs = map_of (map (\<lambda>(k, v). (k, HText v)) ((HDR_TUS_RESUMABLE, ''1.0.0'') # kvs))"

definition demo_post :: "string \<Rightarrow> (header_name \<times> string) list \<Rightarrow> req_env \<times> tus_request" where
  "demo_post u kvs =
     (demo_env u, \<lparr>req_method = POST, req_uri = ''/files/'', req_upload_id = None,
                   req_headers = tus_headers kvs, req_body = None\<rparr>)"

definition demo_patch :: "string \<Rightarrow> string \<Rightarrow> bytes \<Rightarrow> req_env \<times> tus_request" where
  "demo_patch i off b =
     (demo_env ''u0'', \<lparr>req_method = PATCH, req_uri = '''', req_upload_id = Some i,
        req_headers = tus_headers [(HDR_UPLOAD_OFFSET, off),
                                   (HDR_CONTENT_TYPE, ''application/offset+octet-stream'')],
        req_body = Some [Chunk b]\<rparr>)"

definition demo_plain :: "http_method \<Rightarrow> string \<Rightarrow> req_env \<times> tus_request" where
  "demo_plain m i =
     (demo_env ''u0'', \<lparr>req_method = m, req_uri = '''', req_upload_id = Some i,
        req_headers = tus_headers [], req_body = None\<rparr>)"

definition demo_step :: "req_env \<times> tus_request \<Rightarrow> (mem_store, held_set) world
     \<Rightarrow> tus_response \<times> (mem_store, held_set) world" where
  "demo_step r w = handle demo_externals demo_server (fst r) (snd r) w"

lemma demo_server_sel [simp]:
  "h_store demo_server = memory_ops" "h_config demo_server = demo_config"
  "h_locker demo_server = Some memory_locker_ops"
  by (simp_all add: demo_server_def tus_handler_new_def)

lemma demo_hooks [simp]:
  "pre_create (cfg_hooks demo_config) = None" "pre_finish (cfg_hooks demo_config) = None"
  by (simp_all add: demo_config_def config_default_def hook_config_default_def)

lemma mem_abs_new [simp]: "mem_abs memory_store_new = Map.empty"
  by (rule ext) (simp add: mem_abs_def memory_store_new_def)

text \<open>A world with one upload of five bytes, none of them received.\<close>

definition fresh_world :: "(mem_store, held_set) world" where
  "fresh_world =
     demo_world\<lparr>w_store := [''a'' \<mapsto> \<lparr>mu_info = upload_info_new (UploadId ''a'') (Some 5),
                                      mu_data = []\<rparr>]\<rparr>"

lemma fresh_world_abs:
  "mem_abs (w_store fresh_world) = [UploadId ''a'' \<mapsto> (upload_info_new (UploadId ''a'') (Some 5), [])]"
  by (rule ext) (auto simp: mem_abs_def fresh_world_def upload_id.expand)

lemma fresh_world_ok: "uploads_ok (mem_abs (w_store fresh_world))"
  by (simp add: fresh_world_abs uploads_ok_def upload_ok_def upload_info_new_def)

section \<open>Appending\<close>

text \<open>
  C1. A PATCH answered 204 on the in-memory server: the upload existed, was neither final nor
  expired, the client's offset was the number of bytes held, the chunk fits the declared length and
  matches its checksum if there is one; afterwards the upload holds exactly the old bytes followed
  by the request body, its record says so, no other upload changed, and the answer reports the new
  offset.
\<close>

theorem patch_appends:
  assumes "h_store h = memory_ops" and "uploads_ok (mem_abs (w_store w))" and "request_fits req"
    and "req_method req = PATCH" and "handle x h e req w = (resp, w')" and "resp_status resp = 204"
  shows "\<exists>i y d decl y' c. request_id req = Inr i \<and> mem_abs (w_store w) i = Some (y, d)
    \<and> \<not> info_is_final y \<and> \<not> is_expired e y
    \<and> parse_upload_offset (req_headers req) = Inr (len_u64 d)
    \<and> declared_info (h_config h) (req_headers req) y = Inr decl
    \<and> chunk_fits (info_after decl y) (len_u64 d) (len_u64 (body_bytes req))
    \<and> patch_checksum x (h_config h) (req_headers req) = Inr c
    \<and> checksum_accepts x c (body_bytes req)
    \<and> y' = (info_after decl y)\<lparr>info_offset := len_u64 (d @ body_bytes req)\<rparr>
    \<and> mem_abs (w_store w') = (mem_abs (w_store w))(i \<mapsto> (y', d @ body_bytes req))
    \<and> resp = response x (h_config h) 204 (patch_headers x (h_config h) y') []"
proof -
  have "patch_handle x h e req w = (Inr resp, w')"
    using handle_success [OF assms(5)] assms(4,6) by (simp add: dispatch_def)
  then show ?thesis
    by (rule mem.patch_ok [OF assms(1) TrueI assms(2,3)]) blast
qed

theorem patch_appends_witness:
  "\<exists>y. mem_abs (w_store (snd (demo_step (demo_patch ''a'' ''0'' ''abc'')
          fresh_world))) (UploadId ''a'')
        = Some (y, ''abc'')"
proof -
  define w where "w = fresh_world"
  define r where "r = demo_patch ''a'' ''0'' ''abc''"
  have "uploads_ok (mem_abs (w_store w))"
    unfolding w_def by (rule fresh_world_ok)
  moreover have "resp_status (fst (demo_step r w)) = 204"
    unfolding r_def w_def by code_simp
  moreover have "request_fits (snd r)" "req_method (snd r) = PATCH" "body_bytes (snd r) = ''abc''"
    "request_id (snd r) = Inr (UploadId ''a'')"
    unfolding r_def by code_simp+
  moreover have "map_option snd (mem_abs (w_store w) (UploadId ''a'')) = Some []"
    unfolding w_def by code_simp
  ultimately have "\<exists>y. mem_abs (w_store (snd (demo_step r w))) (UploadId ''a'') = Some (y, ''abc'')"
    using patch_appends [of demo_server w "snd r" demo_externals "fst r"
        "fst (demo_step r w)" "snd (demo_step r w)"]
    by (auto simp: demo_step_def)
  then show ?thesis by (simp add: r_def w_def)
qed

section \<open>Whole sessions\<close>


definition demo_session :: "(req_env \<times> tus_request) list" where
  "demo_session =
     [demo_patch ''a'' ''0'' ''abc'', demo_patch ''a'' ''0'' ''zz'',
      demo_patch ''a'' ''3'' ''de'']"




text \<open>
  C4. Every request refines the abstract protocol: what it does to the uploads is a sequence of
  abstract steps, and the events of that sequence are those its method and its answer allow.
\<close>

theorem requests_refine_protocol:
  assumes "h_store h = memory_ops" and "uploads_ok (mem_abs (w_store w))"
    and "sane_request (e, req)" and "handle x h e req w = (resp, w')"
  shows "\<exists>evs. abs_steps (mem_abs (w_store w)) evs (mem_abs (w_store w'))
    \<and> request_log (h_config h) e req resp evs"
  by (rule mem.handle_refines [OF assms(1) TrueI assms(2-4)]) blast

theorem requests_refine_protocol_witness:
  "\<exists>evs. abs_steps Map.empty evs
      (mem_abs (w_store (snd (demo_step (demo_post ''a'' [(HDR_UPLOAD_LENGTH, ''5'')]) demo_world))))
    \<and> evs \<noteq> []"
proof -
  define r where "r = demo_post ''a'' [(HDR_UPLOAD_LENGTH, ''5'')]"
  have m: "mem_abs (w_store demo_world) = Map.empty" by (simp add: demo_world_def)
  have s: "sane_request (fst r, snd r)" unfolding r_def by code_simp
  obtain evs where evs: "abs_steps Map.empty evs (mem_abs (w_store (snd (demo_step r demo_world))))"
    using requests_refine_protocol [of demo_server demo_world "fst r" "snd r" demo_externals
        "fst (demo_step r demo_world)" "snd (demo_step r demo_world)"] m s
    by (auto simp: demo_step_def)
  have "mem_abs (w_store (snd (demo_step r demo_world))) (UploadId ''a'') \<noteq> None"
    unfolding r_def by code_simp
  then have "evs \<noteq> []" using evs by auto
  with evs show ?thesis by (auto simp: r_def)
qed

text \<open>
  C5. The store invariant: from the empty store, any sequence of requests leaves every record under
  its own identifier, the offset of every upload that is not final equal to the number of bytes
  held, and the size of an assembled upload equal to the number of its bytes.
\<close>

theorem reachable_uploads_ok:
  assumes "h_store h = memory_ops" and "w_store w = memory_store_new" and "list_all sane_request rs"
  shows "uploads_ok (mem_abs (w_store (snd (handle_all x h rs w))))"
  using mem.handle_all_ok [OF assms(1) TrueI _ assms(3), of w x] assms(2) by simp

theorem reachable_uploads_ok_witness:
  "uploads_ok (mem_abs (w_store (snd (handle_all demo_externals demo_server
     (demo_post ''a'' [(HDR_UPLOAD_LENGTH, ''5'')] # demo_session) demo_world))))"
  by (rule reachable_uploads_ok) (simp_all add: demo_world_def, code_simp)

end
