(* ===== verification/Lock_Facts.thy ===== *)
theory Lock_Facts
  imports Tus_Dispatch
begin

text \<open>
  What the handlers do to the locker: proved once for every balanced locker, by the structural rules
  of \<open>valid_rules\<close> over the handlers' definitions, and used through the interpretation on
  \<open>MemoryLocker\<close>.
\<close>

definition lock_sat :: "('l \<Rightarrow> bool) \<Rightarrow> ('s, 'l) world \<Rightarrow> bool" where
  "lock_sat P w = P (w_lock w)"

lemma lock_on_store [valid_rules]: "keeps (lock_sat P) (on_store m)"
  by (rule keepsI) (simp add: lock_sat_def on_store_def split: prod.split)

lemma lock_emit [valid_rules]: "keeps (lock_sat P) (emit h ev)"
  by (rule keepsI) (simp add: lock_sat_def)

lemma keeps_prod [valid_rules]:
  "(\<And>a b. keeps I (k a b)) \<Longrightarrow> keeps I (case p of (a, b) \<Rightarrow> k a b)"
  by (cases p) simp

lemma keeps_sum [valid_rules]:
  "(\<And>a. keeps I (f a)) \<Longrightarrow> (\<And>b. keeps I (g b)) \<Longrightarrow> keeps I (case v of Inl a \<Rightarrow> f a | Inr b \<Rightarrow> g b)"
  by (cases v) simp_all

lemma keeps_let [valid_rules]: "keeps I (f v) \<Longrightarrow> keeps I (Let v f)"
  by (simp add: Let_def)

lemma lock_patch_write [valid_rules]: "keeps (lock_sat P) (patch_write x h i off body c)"
  unfolding patch_write_def by (intro valid_rules)

lemma lock_finish [valid_rules]: "keeps (lock_sat P) (finish_if_complete h i info)"
  unfolding finish_if_complete_def by (intro valid_rules)

lemma lock_patch_locked: "keeps (lock_sat P) (patch_locked x h e req off i)"
  unfolding patch_locked_def patch_declare_def by (intro valid_rules)

lemma lock_get_locked: "keeps (lock_sat P) (get_locked x h e i)"
  unfolding get_locked_def by (intro valid_rules)

lemma lock_delete_locked: "keeps (lock_sat P) (delete_locked x h i)"
  unfolding delete_locked_def by (intro valid_rules)

lemma lock_post_effects [valid_rules]: "keeps (lock_sat P) (post_effects x h req info)"
  unfolding post_effects_def post_concatenate_def post_first_chunk_def post_cleanup_def
    post_remove_partial_def fetch_partial_infos_def fetch_partial_info_def
  by (intro valid_rules)

text \<open>
  A lock is taken for the upload the request names, or not at all; so the states of the locker before
  and after a request are equal or in the relation of its contract.
\<close>

definition locker_left :: "('l \<Rightarrow> 'l \<Rightarrow> bool) \<Rightarrow> ('s, 'l) world \<Rightarrow> 'a + 'b \<Rightarrow> ('s, 'l) world \<Rightarrow> bool" where
  "locker_left R w r w' \<longleftrightarrow> w_lock w' = w_lock w \<or> R (w_lock w) (w_lock w')"

lemma lock_untouched:
  assumes "\<And>P. keeps (lock_sat P) m" and "m w = (r, w')"
  shows "w_lock w' = w_lock w"
  using keepsD [OF assms(1) [of "\<lambda>l. l = w_lock w"], of w] assms(2) by (simp add: lock_sat_def)

context locker_contract
begin

lemma with_lock_left:
  fixes h :: "('s, 'l) tus_handler" and body :: "('s, 'l, 'a) hop"
  assumes "h_locker h = Some lk" and "\<And>P. keeps (lock_sat P) body"
    and "with_lock h i body w = (r, w')"
  shows "left i (w_lock w) (w_lock w')"
proof -
  obtain out l1 where a: "lk_acquire lk i (w_lock w) = (out, l1)" by fastforce
  show ?thesis
  proof (cases out)
    case Acquired
    obtain r1 w1 where b: "body (w\<lparr>w_lock := l1\<rparr>) = (r1, w1)" by fastforce
    have "w_lock w1 = l1" using lock_untouched [OF assms(2) b] by simp
    then show ?thesis
      using drop_leaves [of i "w_lock w" l1] a b Acquired assms(1,3) by (auto simp: with_lock_def)
  qed (use a assms(1,3) refusal_leaves [OF a] in \<open>auto simp: with_lock_def\<close>)
qed

text \<open>An operation that leaves the locker alone, followed by one that may take the lock of \<open>i\<close>.\<close>

lemma left_after:
  fixes m :: "('s, 'l, 'a) hop" and k :: "'a \<Rightarrow> ('s, 'l, 'b) hop"
  assumes "\<And>P. keeps (lock_sat P) m" and "sm_bind m k w = (r, w')"
    and "\<And>a w1. k a w1 = (r, w') \<Longrightarrow> w_lock w' = w_lock w1 \<or> left i (w_lock w1) (w_lock w')"
  shows "w_lock w' = w_lock w \<or> left i (w_lock w) (w_lock w')"
proof -
  obtain r1 w1 where m: "m w = (r1, w1)" by fastforce
  have same: "w_lock w1 = w_lock w" by (rule lock_untouched [OF assms(1) m])
  show ?thesis
  proof (cases r1)
    case (Inr a)
    then have "k a w1 = (r, w')" using assms(2) m by (simp add: sm_bind_def)
    from assms(3) [OF this] show ?thesis by (simp add: same)
  qed (use assms(2) m same in \<open>simp add: sm_bind_def\<close>)
qed

lemma get_handle_left:
  fixes h :: "('s, 'l) tus_handler"
  assumes "h_locker h = Some lk" and "get_handle x h e req w = (r, w')"
  shows "w_lock w' = w_lock w \<or> (\<exists>i. request_id req = Inr i \<and> left i (w_lock w) (w_lock w'))"
  using assms(2)
  by (auto simp: get_handle_def sm_simps split: sum.splits if_splits
      dest: with_lock_left [OF assms(1) lock_get_locked])

lemma patch_handle_left:
  fixes h :: "('s, 'l) tus_handler"
  assumes "h_locker h = Some lk" and "patch_handle x h e req w = (r, w')"
  shows "w_lock w' = w_lock w \<or> (\<exists>i. request_id req = Inr i \<and> left i (w_lock w) (w_lock w'))"
  using assms(2)
  by (auto simp: patch_handle_def sm_simps Let_def split: sum.splits if_splits
      dest: with_lock_left [OF assms(1) lock_patch_locked])

lemma delete_handle_left:
  fixes h :: "('s, 'l) tus_handler"
  assumes "h_locker h = Some lk" and "delete_handle x h e req w = (r, w')"
  shows "w_lock w' = w_lock w \<or> (\<exists>i. request_id req = Inr i \<and> left i (w_lock w) (w_lock w'))"
proof -
  have veto: "keeps (lock_sat P) (delete_veto h i)" for P i
    unfolding delete_veto_def by (intro valid_rules)
  have tail: "w_lock w' = w_lock w \<or> left i (w_lock w) (w_lock w')"
    if "sm_bind (delete_veto h i) (\<lambda>_. with_lock h i (delete_locked x h i)) w = (r, w')" for i
    by (rule left_after [OF veto that]) (use with_lock_left [OF assms(1) lock_delete_locked] in blast)
  show ?thesis
    using assms(2)
    by (auto simp: delete_handle_def sm_bind_lift sm_bind_guard split: sum.splits if_splits dest!: tail)
qed

text \<open>
  A lock is taken for the upload the request names, or not at all; so the states of the locker before
  and after a request are equal or in the relation of its contract.
\<close>

lemma handle_left:
  fixes h :: "('s, 'l) tus_handler"
  assumes "h_locker h = Some lk" and "handle x h e req w = (resp, w')"
  shows "w_lock w' = w_lock w
    \<or> (req_method req \<in> {GET, PATCH, DELETE} \<and> (\<exists>i. request_id req = Inr i \<and> left i (w_lock w) (w_lock w')))"
proof -
  obtain r where d: "dispatch x h e req w = (r, w')"
    using assms(2) by (auto simp: handle_def split: prod.splits sum.splits)
  have other: "keeps (lock_sat P) (head_handle x h e req)" "keeps (lock_sat P) (options_handle x h e req)"
    "keeps (lock_sat P) (post_handle x h e req)" for P
    unfolding head_handle_def options_handle_def post_handle_def by (intro valid_rules)+
  show ?thesis
    using d get_handle_left [OF assms(1)] patch_handle_left [OF assms(1)] delete_handle_left [OF assms(1)]
      lock_untouched [OF other(1)] lock_untouched [OF other(2)] lock_untouched [OF other(3)]
    by (cases "req_method req") (auto simp: dispatch_def sm_fail_def)
qed

end

text \<open>An acquired memory lock, spelled out.\<close>

lemma with_memory_lock:
  assumes "h_locker h = Some memory_locker_ops"
  shows "with_lock h i body w =
    (if as_str i \<in> w_lock w then (Inl (LockTimeout (as_str i)), w)
     else (case body (w\<lparr>w_lock := insert (as_str i) (w_lock w)\<rparr>) of
             (r, w') \<Rightarrow> (r, w'\<lparr>w_lock := w_lock w' - {as_str i}\<rparr>)))"
  by (simp add: with_lock_def assms)

end
