(* ===== verification/Server_Laws.thy ===== *)
theory Server_Laws
  imports Memory_Server Lock_Facts
begin

text \<open>
  The laws of the server over the in-memory store that single requests and pairs of requests obey:
  what HEAD reports and how an upload is resumed from it, refused requests and what they leave
  untouched, deletion, expiry, locks.
\<close>

section \<open>Concrete worlds\<close>

definition world5 :: "(mem_store, held_set) world" where
  "world5 =
     demo_world\<lparr>w_store := [''a'' \<mapsto> \<lparr>mu_info = (upload_info_new (UploadId ''a'') (Some 5))
                                         \<lparr>info_offset := 3\<rparr>, mu_data = ''abc''\<rparr>]\<rparr>"

lemma world5_abs_eq:
  "mem_abs (w_store world5) =
     [UploadId ''a'' \<mapsto> ((upload_info_new (UploadId ''a'') (Some 5))\<lparr>info_offset := 3\<rparr>, ''abc'')]"
  by (rule ext) (auto simp: mem_abs_def world5_def upload_id.expand)

lemma world5_ok: "uploads_ok (mem_abs (w_store world5))"
  by (simp add: world5_abs_eq uploads_ok_def upload_ok_def upload_info_new_def len_u64_def)

lemma world5_abs: "map_option (map_prod info_offset id) (mem_abs (w_store world5) (UploadId ''a''))
    = Some (3, ''abc'')"
  by (simp add: world5_abs_eq)

lemma world5_lock: "w_lock world5 = {}"
  by (simp add: world5_def demo_world_def)

section \<open>Resuming\<close>



section \<open>Refusals\<close>

text \<open>
  C9. A PATCH whose offset is not the one of the upload is answered 409 with both offsets, and leaves
  the whole world, store, locks and events, exactly as it was.
\<close>

theorem offset_mismatch_refused:
  assumes "h_store h = memory_ops" and "h_locker h = Some memory_locker_ops"
    and "req_method req = PATCH" and "check_tus_resumable (req_headers req) = Inr ()"
    and "get_str (req_headers req) HDR_CONTENT_TYPE = Some ct"
    and "starts_with ct CONTENT_TYPE_OCTET_STREAM"
    and "parse_upload_offset (req_headers req) = Inr off" and "request_id req = Inr i"
    and "as_str i \<notin> w_lock w" and "mem_abs (w_store w) i = Some (y, d)"
    and "\<not> info_is_final y" and "off \<noteq> info_offset y"
  shows "handle x h e req w =
    (error_response x (h_config h) (OffsetMismatch (info_offset y) off), w)"
proof -
  define wl where "wl = w\<lparr>w_lock := insert (as_str i) (w_lock w)\<rparr>"
  have st: "w_store wl = w_store w" and i: "valid_id i"
    using request_id_valid [OF assms(8)] by (simp_all add: wl_def)
  have "patch_locked x h e req off i wl = (Inl (OffsetMismatch (info_offset y) off), wl)"
    by (rule mem.patch_locked_mismatch [OF assms(1) TrueI i]) (use assms(10-12) st in auto)
  then have "with_lock h i (patch_locked x h e req off i) w
      = (Inl (OffsetMismatch (info_offset y) off), w)"
    using assms(9) by (simp add: with_memory_lock [OF assms(2)] wl_def)
  then have "patch_handle x h e req w = (Inl (OffsetMismatch (info_offset y) off), w)"
    using assms(4-8) by (simp add: patch_handle_def sm_simps Let_def)
  then show ?thesis
    using assms(3) by (simp add: handle_def dispatch_def)
qed

theorem offset_mismatch_refused_witness:
  "resp_status (fst (demo_step (demo_patch ''a'' ''2'' ''zz'') world5)) = 409
   \<and> snd (demo_step (demo_patch ''a'' ''2'' ''zz'') world5) = world5"
proof -
  define r where "r = demo_patch ''a'' ''2'' ''zz''"
  have r: "req_method (snd r) = PATCH" "check_tus_resumable (req_headers (snd r)) = Inr ()"
    "get_str (req_headers (snd r)) HDR_CONTENT_TYPE = Some ''application/offset+octet-stream''"
    "starts_with ''application/offset+octet-stream'' CONTENT_TYPE_OCTET_STREAM"
    "parse_upload_offset (req_headers (snd r)) = Inr 2" "request_id (snd r) = Inr (UploadId ''a'')"
    unfolding r_def by code_simp+
  obtain y where y: "mem_abs (w_store world5) (UploadId ''a'') = Some (y, ''abc'')"
    "info_offset y = 3"
    using world5_abs by (auto simp: map_prod_def split: prod.splits)
  have "map_option (\<lambda>(y, d). info_is_final y) (mem_abs (w_store world5) (UploadId ''a'')) = Some False"
    unfolding world5_def by code_simp
  then have "\<not> info_is_final y" using y by simp
  with offset_mismatch_refused [OF _ _ r, of demo_server world5 y "''abc''" demo_externals "fst r"]
  show ?thesis
    using y world5_lock by (simp add: demo_step_def r_def)
qed


definition bad_checksum_patch :: "req_env \<times> tus_request" where
  "bad_checksum_patch =
     (demo_env ''u0'', \<lparr>req_method = PATCH, req_uri = '''', req_upload_id = Some ''a'',
        req_headers = tus_headers [(HDR_UPLOAD_OFFSET, ''3''),
                                   (HDR_CONTENT_TYPE, ''application/offset+octet-stream''),
                                   (HDR_UPLOAD_CHECKSUM, ''sha1 xy'')],
        req_body = Some [Chunk ''de'']\<rparr>)"

text \<open>A server whose \<open>pre_finish\<close> hook refuses everything, and a PATCH that completes the upload.\<close>

definition strict_server :: "(mem_store, held_set) tus_handler" where
  "strict_server = tus_handler_new memory_ops (Some memory_locker_ops)
     (demo_config\<lparr>cfg_hooks := (cfg_hooks demo_config)\<lparr>pre_finish := Some (\<lambda>y. Inl PatchOnFinalUpload)\<rparr>\<rparr>)"


text \<open>
  C11. An upload that has expired is refused: a HEAD, GET or PATCH about it is an error that leaves the
  store untouched.
\<close>

theorem expired_uploads_refused:
  assumes "h_store h = memory_ops" and "request_id req = Inr i"
    and "mem_abs (w_store w) i = Some (y, d)" and "is_expired e y"
    and "req_method req \<in> {HEAD, GET, PATCH}" and "handle x h e req w = (resp, w')"
  shows "400 \<le> resp_status resp \<and> w_store w' = w_store w"
proof -
  obtain r where d: "dispatch x h e req w = (r, w')"
    and resp: "resp = (case r of Inr rs \<Rightarrow> rs | Inl er \<Rightarrow> error_response x (h_config h) er)"
    using assms(6) by (auto simp: handle_def split: prod.splits sum.splits)
  have why: "case map_option fst (mem_abs (w_store w) i) of
                None \<Rightarrow> req_method req \<in> {HEAD, GET, PATCH, DELETE}
              | Some y \<Rightarrow> is_expired e y \<and> req_method req \<in> {HEAD, GET, PATCH}"
    using assms(3-5) by simp
  from mem.refused_without_effect [OF assms(1) TrueI assms(2) why d] resp
  show ?thesis using status_code_range by auto
qed

definition expired_world :: "(mem_store, held_set) world" where
  "expired_world =
     demo_world\<lparr>w_store := [''a'' \<mapsto> \<lparr>mu_info = (upload_info_new (UploadId ''a'') (Some 5))
                                         \<lparr>info_expires_at := Some (-1)\<rparr>, mu_data = []\<rparr>]\<rparr>"

theorem expired_uploads_refused_witness:
  "400 \<le> resp_status (fst (demo_step (demo_plain HEAD ''a'') expired_world))"
proof -
  define r where "r = demo_plain HEAD ''a''"
  define y where "y = (upload_info_new (UploadId ''a'') (Some 5))\<lparr>info_expires_at := Some (-1)\<rparr>"
  have "request_id (snd r) = Inr (UploadId ''a'')" "req_method (snd r) \<in> {HEAD, GET, PATCH}"
    "is_expired (fst r) y"
    unfolding r_def y_def by code_simp+
  moreover have "mem_abs (w_store expired_world) (UploadId ''a'') = Some (y, [])"
    by (simp add: expired_world_def mem_abs_def y_def)
  ultimately show ?thesis
    using expired_uploads_refused [of demo_server "snd r" "UploadId ''a''" expired_world y "[]" "fst r"
        demo_externals "fst (demo_step r expired_world)" "snd (demo_step r expired_world)"]
    by (simp add: demo_step_def r_def)
qed

text \<open>
  C10. After a DELETE answered 204 the upload is gone and every other upload is as it was; a later HEAD,
  GET, PATCH or DELETE about it, in any state the deletion leads to without a new creation, is an
  error without effect on the store.
\<close>

theorem deleted_uploads_are_gone:
  assumes "h_store h = memory_ops" and "req_method req = DELETE"
    and "handle x h e req w = (resp, w')" and "resp_status resp = 204"
  shows "\<exists>i. request_id req = Inr i \<and> mem_abs (w_store w) i \<noteq> None
    \<and> mem_abs (w_store w') = (mem_abs (w_store w))(i := None)
    \<and> (\<forall>e2 req2 resp2 w2. request_id req2 = Inr i \<longrightarrow> req_method req2 \<in> {HEAD, GET, PATCH, DELETE}
         \<longrightarrow> handle x h e2 req2 w' = (resp2, w2) \<longrightarrow>
         400 \<le> resp_status resp2 \<and> w_store w2 = w_store w')"
proof -
  have "delete_handle x h e req w = (Inr resp, w')"
    using handle_success [OF assms(3)] assms(2,4) by (simp add: dispatch_def)
  from mem.delete_refines [OF assms(1) TrueI this] obtain i where i: "request_id req = Inr i"
    "mem_abs (w_store w) i \<noteq> None" "mem_abs (w_store w') = (mem_abs (w_store w))(i := None)"
    by (metis Inl_Inr_False)
  have "400 \<le> resp_status resp2 \<and> w_store w2 = w_store w'"
    if req2: "request_id req2 = Inr i" "req_method req2 \<in> {HEAD, GET, PATCH, DELETE}"
      and run: "handle x h e2 req2 w' = (resp2, w2)" for e2 req2 resp2 w2
  proof -
    obtain r where d: "dispatch x h e2 req2 w' = (r, w2)"
      and resp: "resp2 = (case r of Inr rs \<Rightarrow> rs | Inl er \<Rightarrow> error_response x (h_config h) er)"
      using run by (auto simp: handle_def split: prod.splits sum.splits)
    have why: "case map_option fst (mem_abs (w_store w') i) of
                  None \<Rightarrow> req_method req2 \<in> {HEAD, GET, PATCH, DELETE}
                | Some y \<Rightarrow> is_expired e2 y \<and> req_method req2 \<in> {HEAD, GET, PATCH}"
      using i(3) req2(2) by simp
    from mem.refused_without_effect [OF assms(1) TrueI req2(1) why d] resp
    show ?thesis using status_code_range by auto
  qed
  with i show ?thesis by blast
qed

theorem deleted_uploads_are_gone_witness:
  "mem_abs (w_store (snd (demo_step (demo_plain DELETE ''a'') world5))) (UploadId ''a'') = None"
proof -
  define r where "r = demo_plain DELETE ''a''"
  have r: "req_method (snd r) = DELETE" "request_id (snd r) = Inr (UploadId ''a'')"
    unfolding r_def by code_simp+
  have "resp_status (fst (demo_step r world5)) = 204"
    unfolding r_def world5_def by code_simp
  then show ?thesis
    using deleted_uploads_are_gone [of demo_server "snd r" demo_externals "fst r" world5
        "fst (demo_step r world5)" "snd (demo_step r world5)"] r
    by (auto simp: demo_step_def r_def)
qed

section \<open>Concatenation\<close>


definition partial_info :: "string \<Rightarrow> u64 \<Rightarrow> upload_info" where
  "partial_info i n =
     (upload_info_new (UploadId i) (Some n))\<lparr>info_offset := n, info_is_partial := True\<rparr>"

definition partials_world :: "(mem_store, held_set) world" where
  "partials_world =
     demo_world\<lparr>w_store := [''a'' \<mapsto> \<lparr>mu_info = partial_info ''a'' 2, mu_data = ''xy''\<rparr>,
                              ''b'' \<mapsto> \<lparr>mu_info = partial_info ''b'' 1, mu_data = ''z''\<rparr>]\<rparr>"

lemma partials_world_abs:
  "mem_abs (w_store partials_world) =
     [UploadId ''a'' \<mapsto> (partial_info ''a'' 2, ''xy''), UploadId ''b'' \<mapsto> (partial_info ''b'' 1, ''z'')]"
  by (rule ext) (auto simp: mem_abs_def partials_world_def upload_id.expand)

lemma partials_world_ok: "uploads_ok (mem_abs (w_store partials_world))"
  by (simp add: partials_world_abs uploads_ok_def upload_ok_def partial_info_def
      upload_info_new_def len_u64_def)

definition final_post :: "req_env \<times> tus_request" where
  "final_post = demo_post ''c'' [(HDR_UPLOAD_CONCAT, ''final;/files/b /files/a'')]"


section \<open>Locks\<close>


text \<open>
  A PATCH refused for its checksum, in two surroundings: another task gives back the lock the request
  waits for and takes one of its own meanwhile; with the mutex taken at the drop, the lock stays.
\<close>

definition crowd :: "bool \<Rightarrow> contention" where
  "crowd free =
     \<lparr>ct_sleeps = [\<lambda>held. held, \<lambda>held. held - {''a''}], ct_timer_first = True,
      ct_meanwhile = insert ''q'', ct_mutex_free = free\<rparr>"

definition crowded_step :: "bool \<Rightarrow> (mem_store, held_set) world" where
  "crowded_step free =
     snd (handle demo_externals (demo_server\<lparr>h_locker := Some (memory_locker_with (crowd free))\<rparr>)
            (fst bad_checksum_patch) (snd bad_checksum_patch) (world5\<lparr>w_lock := {''a''}\<rparr>))"


end
