(* ===== verification/File_System.thy ===== *)
theory File_System
  imports Tus_Error "HOL-Library.AList"
begin

text \<open>
  The part of \<open>std::fs\<close> (through \<open>tokio::fs\<close>) the file-system store uses, as state
  transformers. A path is the list of its segments from the root of the file system; the nodes are
  an association list, whose order is the order in which a directory yields its entries. Every call
  may fail for reasons outside the program: \<open>fs_faults\<close> is the queue of the failures that the next
  calls will meet, and an empty queue is a healthy disk. A failing call has no effect.
\<close>

type_synonym path = "string list"

datatype node = Dir | File bytes

record file_system =
  fs_nodes :: "(path \<times> node) list"
  fs_faults :: "io_error option list"

type_synonym 'a fs_op = "(file_system, io_error, 'a) sm"

definition enoent :: io_error where
  "enoent = Io_Error IoNotFound ''No such file or directory (os error 2)''"
definition enotdir :: io_error where
  "enotdir = Io_Error IoOther ''Not a directory (os error 20)''"
definition eisdir :: io_error where
  "eisdir = Io_Error IoOther ''Is a directory (os error 21)''"
definition eexist :: io_error where
  "eexist = Io_Error IoOther ''File exists (os error 17)''"

section \<open>Calls\<close>

definition syscall :: "'a fs_op \<Rightarrow> 'a fs_op" where
  "syscall f s =
     (case fs_faults s of
        [] \<Rightarrow> f s
      | None # q \<Rightarrow> f (s\<lparr>fs_faults := q\<rparr>)
      | Some e # q \<Rightarrow> (Inl e, s\<lparr>fs_faults := q\<rparr>))"

definition lookup :: "file_system \<Rightarrow> path \<Rightarrow> node option" where
  "lookup s p = (if p = [] then Some Dir else map_of (fs_nodes s) p)"

text \<open>The ancestors of a path, nearest to the root first, and why they stop a call.\<close>

definition ancestors :: "path \<Rightarrow> path list" where
  "ancestors p = map (\<lambda>k. take k p) [0 ..< length p]"

definition path_error :: "file_system \<Rightarrow> path \<Rightarrow> io_error option" where
  "path_error s p =
     (case dropWhile (\<lambda>q. lookup s q = Some Dir) (ancestors p) of
        [] \<Rightarrow> None | q # qs \<Rightarrow> Some (if lookup s q = None then enoent else enotdir))"

definition set_node :: "path \<Rightarrow> node \<Rightarrow> file_system \<Rightarrow> file_system" where
  "set_node p n s = s\<lparr>fs_nodes := AList.update p n (fs_nodes s)\<rparr>"

definition del_node :: "path \<Rightarrow> file_system \<Rightarrow> file_system" where
  "del_node p s = s\<lparr>fs_nodes := AList.delete p (fs_nodes s)\<rparr>"

text \<open>\<open>fs::write\<close>, and \<open>open\<close> with \<open>create, truncate, write\<close> when the bytes are empty.\<close>

definition fs_write :: "path \<Rightarrow> bytes \<Rightarrow> unit fs_op" where
  "fs_write p b = syscall (\<lambda>s.
     (case path_error s p of
        Some e \<Rightarrow> (Inl e, s)
      | None \<Rightarrow> if lookup s p = Some Dir then (Inl eisdir, s) else (Inr (), set_node p (File b) s)))"

definition fs_read :: "path \<Rightarrow> bytes fs_op" where
  "fs_read p = syscall (\<lambda>s.
     (case path_error s p of
        Some e \<Rightarrow> (Inl e, s)
      | None \<Rightarrow> (case lookup s p of
                   None \<Rightarrow> (Inl enoent, s)
                 | Some Dir \<Rightarrow> (Inl eisdir, s)
                 | Some (File b) \<Rightarrow> (Inr b, s))))"

definition fs_try_exists :: "path \<Rightarrow> bool fs_op" where
  "fs_try_exists p = syscall (\<lambda>s.
     (case path_error s p of
        Some e \<Rightarrow> if e = enoent then (Inr False, s) else (Inl e, s)
      | None \<Rightarrow> (Inr (lookup s p \<noteq> None), s)))"

definition fs_remove_file :: "path \<Rightarrow> unit fs_op" where
  "fs_remove_file p = syscall (\<lambda>s.
     (case path_error s p of
        Some e \<Rightarrow> (Inl e, s)
      | None \<Rightarrow> (case lookup s p of
                   None \<Rightarrow> (Inl enoent, s)
                 | Some Dir \<Rightarrow> (Inl eisdir, s)
                 | Some (File b) \<Rightarrow> (Inr (), del_node p s))))"

definition fs_create_dir_all :: "path \<Rightarrow> unit fs_op" where
  "fs_create_dir_all p = syscall (\<lambda>s.
     (case dropWhile (\<lambda>q. lookup s q = Some Dir) (ancestors p @ [p]) of
        [] \<Rightarrow> (Inr (), s)
      | q # qs \<Rightarrow>
          if lookup s q = None then (Inr (), fold (\<lambda>q. set_node q Dir) (q # qs) s)
          else (Inl (if q = p then eexist else enotdir), s)))"

definition children :: "file_system \<Rightarrow> path \<Rightarrow> string list" where
  "children s p =
     map (\<lambda>(q, n). last q) (filter (\<lambda>(q, n). q \<noteq> [] \<and> butlast q = p) (fs_nodes s))"

definition fs_read_dir :: "path \<Rightarrow> string list fs_op" where
  "fs_read_dir p = syscall (\<lambda>s.
     (case path_error s p of
        Some e \<Rightarrow> (Inl e, s)
      | None \<Rightarrow> (case lookup s p of
                   None \<Rightarrow> (Inl enoent, s)
                 | Some (File b) \<Rightarrow> (Inl enotdir, s)
                 | Some Dir \<Rightarrow> (Inr (children s p), s))))"

text \<open>\<open>File::open\<close> for reading; a directory can be opened but not read.\<close>

definition fs_open :: "path \<Rightarrow> unit fs_op" where
  "fs_open p = syscall (\<lambda>s.
     (case path_error s p of
        Some e \<Rightarrow> (Inl e, s)
      | None \<Rightarrow> if lookup s p = None then (Inl enoent, s) else (Inr (), s)))"

text \<open>\<open>tokio::io::copy\<close> from an open file to the end of an open output file.\<close>

definition fs_copy :: "path \<Rightarrow> path \<Rightarrow> unit fs_op" where
  "fs_copy src dst = syscall (\<lambda>s.
     (case lookup s src of
        Some (File b) \<Rightarrow>
          (case lookup s dst of
             Some (File d) \<Rightarrow> (Inr (), set_node dst (File (d @ b)) s)
           | _ \<Rightarrow> (Inr (), s))
      | Some Dir \<Rightarrow> (Inl eisdir, s)
      | None \<Rightarrow> (Inr (), s)))"

definition fs_flush :: "unit fs_op" where
  "fs_flush = syscall (\<lambda>s. (Inr (), s))"

section \<open>Facts\<close>

lemma lookup_root [simp]: "lookup s [] = Some Dir"
  by (simp add: lookup_def)

lemma lookup_set_node: "p \<noteq> [] \<Longrightarrow> lookup (set_node p n s) q = (if q = p then Some n else lookup s q)"
  by (auto simp: lookup_def set_node_def update_conv')

lemma lookup_del_node:
  "p \<noteq> [] \<Longrightarrow> lookup (del_node p s) q = (if q = p then None else lookup s q)"
  by (auto simp: lookup_def del_node_def delete_conv')

lemma faults_set_node [simp]: "fs_faults (set_node p n s) = fs_faults s"
  by (simp add: set_node_def)

lemma faults_del_node [simp]: "fs_faults (del_node p s) = fs_faults s"
  by (simp add: del_node_def)

lemma syscall_healthy: "fs_faults s = [] \<Longrightarrow> syscall f s = f s"
  by (simp add: syscall_def)

text \<open>A directory is there: it and its ancestors are directories.\<close>

definition is_dir :: "file_system \<Rightarrow> path \<Rightarrow> bool" where
  "is_dir s p \<longleftrightarrow> list_all (\<lambda>q. lookup s q = Some Dir) (ancestors p @ [p])"

lemma ancestors_snoc: "ancestors (p @ [n]) = ancestors p @ [p]"
  by (simp add: ancestors_def)

lemma path_error_None:
  assumes "list_all (\<lambda>q. lookup s q = Some Dir) (ancestors p)"
  shows "path_error s p = None"
proof -
  have "dropWhile (\<lambda>q. lookup s q = Some Dir) (ancestors p) = []"
    using assms by (simp only: dropWhile_eq_Nil_conv list_all_iff)
  then show ?thesis by (simp add: path_error_def del: dropWhile_eq_Nil_conv)
qed

lemma path_error_child: "is_dir s p \<Longrightarrow> path_error s (p @ [n]) = None"
  by (rule path_error_None) (simp only: is_dir_def ancestors_snoc)

lemma path_error_dir: "is_dir s p \<Longrightarrow> path_error s p = None"
  by (rule path_error_None) (simp add: is_dir_def)

lemma is_dir_lookup: "is_dir s p \<Longrightarrow> lookup s p = Some Dir"
  by (simp add: is_dir_def)

lemma ancestors_length: "q \<in> set (ancestors p) \<Longrightarrow> length q < length p"
  by (auto simp: ancestors_def)

lemma is_dir_set_file:
  "is_dir s p \<Longrightarrow> is_dir (set_node (p @ [n]) v s) p"
  by (auto simp: is_dir_def list_all_iff lookup_set_node dest!: ancestors_length)

lemma is_dir_del_file: "is_dir s p \<Longrightarrow> is_dir (del_node (p @ [n]) s) p"
  by (auto simp: is_dir_def list_all_iff lookup_del_node dest!: ancestors_length)

text \<open>The calls on the entries of a directory that is there, on a healthy disk.\<close>

lemma fs_write_child:
  assumes "fs_faults s = []" and "is_dir s p"
  shows "fs_write (p @ [n]) b s =
    (if lookup s (p @ [n]) = Some Dir then (Inl eisdir, s)
     else (Inr (), set_node (p @ [n]) (File b) s))"
  by (simp add: fs_write_def syscall_healthy assms path_error_child)

lemma fs_read_child:
  assumes "fs_faults s = []" and "is_dir s p" and "lookup s (p @ [n]) = Some (File b)"
  shows "fs_read (p @ [n]) s = (Inr b, s)"
  by (simp add: fs_read_def syscall_healthy assms path_error_child)

lemma fs_try_exists_child:
  assumes "fs_faults s = []" and "is_dir s p"
  shows "fs_try_exists (p @ [n]) s = (Inr (lookup s (p @ [n]) \<noteq> None), s)"
  by (simp add: fs_try_exists_def syscall_healthy assms path_error_child)

lemma fs_remove_child:
  assumes "fs_faults s = []" and "is_dir s p"
  shows "fs_remove_file (p @ [n]) s =
    (case lookup s (p @ [n]) of
       None \<Rightarrow> (Inl enoent, s)
     | Some Dir \<Rightarrow> (Inl eisdir, s)
     | Some (File b) \<Rightarrow> (Inr (), del_node (p @ [n]) s))"
  by (simp add: fs_remove_file_def syscall_healthy assms path_error_child)

lemma fs_create_dir_all_there:
  assumes "fs_faults s = []" and "is_dir s p"
  shows "fs_create_dir_all p s = (Inr (), s)"
proof -
  have "dropWhile (\<lambda>q. lookup s q = Some Dir) (ancestors p @ [p]) = []"
    using assms(2) by (simp only: is_dir_def dropWhile_eq_Nil_conv list_all_iff)
  then show ?thesis
    by (simp add: fs_create_dir_all_def syscall_healthy assms(1))
qed

lemma fs_read_dir_there:
  assumes "fs_faults s = []" and "is_dir s p"
  shows "fs_read_dir p s = (Inr (children s p), s)"
  by (simp add: fs_read_dir_def syscall_healthy assms path_error_dir is_dir_lookup)

lemma fs_open_child:
  assumes "fs_faults s = []" and "is_dir s p" and "lookup s (p @ [n]) \<noteq> None"
  shows "fs_open (p @ [n]) s = (Inr (), s)"
  using assms(3) by (simp add: fs_open_def syscall_healthy assms(1,2) path_error_child)

lemma children_iff:
  assumes "distinct (map fst (fs_nodes s))"
  shows "n \<in> set (children s p) \<longleftrightarrow> lookup s (p @ [n]) \<noteq> None"
proof -
  have "n \<in> set (children s p) \<longleftrightarrow> (\<exists>v. (p @ [n], v) \<in> set (fs_nodes s))"
    by (force simp: children_def image_iff)
  also have "\<dots> \<longleftrightarrow> lookup s (p @ [n]) \<noteq> None"
    using assms by (auto simp: lookup_def)
  finally show ?thesis .
qed

text \<open>How the listing of a directory changes with its entries.\<close>

lemma distinct_set_node:
  "distinct (map fst (fs_nodes s)) \<Longrightarrow> distinct (map fst (fs_nodes (set_node p n s)))"
  by (simp add: set_node_def distinct_update)

lemma distinct_del_node:
  "distinct (map fst (fs_nodes s)) \<Longrightarrow> distinct (map fst (fs_nodes (del_node p s)))"
  by (simp add: del_node_def distinct_delete)

lemma update_new: "k \<notin> fst ` set xs \<Longrightarrow> AList.update k v xs = xs @ [(k, v)]"
  by (induction xs) auto

lemma children_set_new:
  assumes "lookup s (p @ [n]) = None"
  shows "children (set_node (p @ [n]) v s) p = children s p @ [n]"
proof -
  have "p @ [n] \<notin> fst ` set (fs_nodes s)"
    using assms by (simp add: lookup_def map_of_eq_None_iff)
  then show ?thesis by (simp add: children_def set_node_def update_new)
qed

lemma filter_update_known:
  "k \<in> fst ` set xs \<Longrightarrow> map fst (AList.update k v xs) = map fst xs"
  by (induction xs) auto

lemma children_fst: "children s p = map last (filter (\<lambda>q. q \<noteq> [] \<and> butlast q = p) (map fst (fs_nodes s)))"
  by (simp add: children_def filter_map o_def split_def)

lemma children_set_known:
  assumes "lookup s q \<noteq> None" and "q \<noteq> []"
  shows "children (set_node q v s) p = children s p"
proof -
  have "q \<in> fst ` set (fs_nodes s)"
    using assms by (metis lookup_def map_of_eq_None_iff)
  then show ?thesis by (simp add: children_fst set_node_def filter_update_known)
qed

lemma children_set_other:
  assumes "butlast q \<noteq> p"
  shows "children (set_node q v s) p = children s p"
proof -
  have "filter (\<lambda>r. r \<noteq> [] \<and> butlast r = p) (map fst (AList.update q v xs))
      = filter (\<lambda>r. r \<noteq> [] \<and> butlast r = p) (map fst xs)" for xs
    using assms by (induction xs) auto
  then show ?thesis by (simp add: children_fst set_node_def)
qed

lemma children_del: "children (del_node (p @ [n]) s) p = filter (\<lambda>m. m \<noteq> n) (children s p)"
proof -
  have "map last (filter (\<lambda>q. q \<noteq> [] \<and> butlast q = p) (map fst (AList.delete (p @ [n]) xs)))
      = filter (\<lambda>m. m \<noteq> n) (map last (filter (\<lambda>q. q \<noteq> [] \<and> butlast q = p) (map fst xs)))" for xs
  proof (induction xs)
    case (Cons a xs)
    have "fst a = p @ [n] \<longleftrightarrow> fst a \<noteq> [] \<and> butlast (fst a) = p \<and> last (fst a) = n"
      by (auto simp: snoc_eq_iff_butlast)
    with Cons show ?case by (cases "fst a = p @ [n]"; cases a) auto
  qed simp
  then show ?thesis by (simp add: children_fst del_node_def)
qed

end
