(* ===== verification/File_Store.thy ===== *)
theory File_Store
  imports File_System Tus_Refinement
begin

text \<open>
  \<open>fileloft-store-fs/src/store.rs\<close>: uploads as files of a directory, \<open>{id}.info\<close> for the
  record, \<open>{id}_part_{n}\<close> for the chunks, \<open>{id}\<close> for the assembled bytes. The JSON codec of
  \<open>serde_json\<close> is third-party code and an argument. An upload handle holds a copy of the store's
  directory and prefix and the identifier.
\<close>

section \<open>Paths\<close>

record json_codec =
  to_json :: "upload_info \<Rightarrow> string + bytes"
  from_json :: "bytes \<Rightarrow> string + upload_info"

record file_store =
  st_root :: path
  st_prefix :: string

definition file_store_new :: "path \<Rightarrow> file_store" where
  "file_store_new root = \<lparr>st_root = root, st_prefix = []\<rparr>"

definition with_prefix :: "path \<Rightarrow> string \<Rightarrow> file_store" where
  "with_prefix root pre =
     (let pre' = (if pre \<noteq> [] \<and> \<not> ends_with pre ''/'' then pre @ ''/'' else pre)
      in \<lparr>st_root = root, st_prefix = pre'\<rparr>)"

text \<open>\<open>key.split('/').filter(|s| !s.is_empty())\<close>, each segment pushed on the root.\<close>

definition key_to_path :: "file_store \<Rightarrow> string \<Rightarrow> path" where
  "key_to_path st key = st_root st @ filter (\<lambda>s. s \<noteq> []) (split_on (CHR ''/'') key)"

definition object_key_info :: "file_store \<Rightarrow> upload_id \<Rightarrow> string" where
  "object_key_info st i = st_prefix st @ as_str i @ ''.info''"

definition object_key_data :: "file_store \<Rightarrow> upload_id \<Rightarrow> string" where
  "object_key_data st i = st_prefix st @ as_str i"

definition info_path :: "file_store \<Rightarrow> upload_id \<Rightarrow> path" where
  "info_path st i = key_to_path st (object_key_info st i)"

definition data_path :: "file_store \<Rightarrow> upload_id \<Rightarrow> path" where
  "data_path st i = key_to_path st (object_key_data st i)"

definition partial_data_path :: "file_store \<Rightarrow> upload_id \<Rightarrow> path" where
  "partial_data_path st i = key_to_path st (st_prefix st @ as_str i)"

definition part_path :: "file_store \<Rightarrow> upload_id \<Rightarrow> u32 \<Rightarrow> path" where
  "part_path st i k = key_to_path st (st_prefix st @ as_str i @ ''_part_'' @ dec (unat k))"

text \<open>\<open>Path::parent\<close>\<close>

definition parent :: "path \<Rightarrow> path option" where
  "parent p = (if p = [] then None else Some (butlast p))"

section \<open>Operations\<close>

text \<open>A file-system call with \<open>.map_err(TusError::Io)?\<close>.\<close>

definition fs_io :: "'a fs_op \<Rightarrow> (file_system, 'a) op" where
  "fs_io m s = (case m s of (r, s') \<Rightarrow> (map_sum Io id r, s'))"

definition ensure_parent :: "path \<Rightarrow> (file_system, unit) op" where
  "ensure_parent p =
     (case parent p of None \<Rightarrow> sm_return () | Some d \<Rightarrow> fs_io (fs_create_dir_all d))"

definition read_info :: "json_codec \<Rightarrow> file_store \<Rightarrow> upload_id \<Rightarrow> (file_system, upload_info) op" where
  "read_info js st i =
     sm_bind (fs_io (fs_read (info_path st i))) (\<lambda>bytes.
     sm_lift (map_sum Internal id (from_json js bytes)))"

definition write_info :: "json_codec \<Rightarrow> file_store \<Rightarrow> upload_id \<Rightarrow> upload_info \<Rightarrow> (file_system, unit) op"
where
  "write_info js st i info =
     sm_bind (sm_lift (map_sum Internal id (to_json js info))) (\<lambda>json.
     fs_io (fs_write (info_path st i) json))"

text \<open>
  The entries of the directory whose names are the part prefix followed by a number, with that
  number, in the order of the directory; then sorted by the number (the sort is stable).
\<close>

definition indexed_parts :: "path \<Rightarrow> string \<Rightarrow> string list \<Rightarrow> (u32 \<times> path) list" where
  "indexed_parts dir name_prefix names =
     List.map_filter (\<lambda>name.
       (case strip_prefix_str name name_prefix of
          None \<Rightarrow> None
        | Some rest \<Rightarrow> (case parse_u32 rest of None \<Rightarrow> None | Some idx \<Rightarrow> Some (idx, dir @ [name]))))
       names"

definition list_part_paths_sorted :: "file_store \<Rightarrow> upload_id \<Rightarrow> (file_system, path list) op" where
  "list_part_paths_sorted st i =
     (case parent (info_path st i) of
        None \<Rightarrow> sm_return []
      | Some dir \<Rightarrow>
          sm_bind (fs_io (fs_try_exists dir)) (\<lambda>there.
            if \<not> there then sm_return []
            else
              sm_bind (fs_io (fs_read_dir dir)) (\<lambda>names.
              sm_return (map snd (sort_key fst
                (indexed_parts dir (as_str i @ ''_part_'') names))))))"

definition remove_file_ignore_not_found :: "path \<Rightarrow> (file_system, unit) op" where
  "remove_file_ignore_not_found p s =
     (case fs_remove_file p s of
        (Inr u, s') \<Rightarrow> (Inr (), s')
      | (Inl e, s') \<Rightarrow> if io_kind e = IoNotFound then (Inr (), s') else (Inl (Io e), s'))"

definition fs_create_upload :: "json_codec \<Rightarrow> file_store \<Rightarrow> upload_info \<Rightarrow> (file_system, upload_id) op"
where
  "fs_create_upload js st info =
     sm_bind (sm_lift (upload_id_validate (info_id info))) (\<lambda>_.
     sm_bind (ensure_parent (info_path st (info_id info))) (\<lambda>_.
     sm_bind (write_info js st (info_id info) info) (\<lambda>_.
     sm_return (info_id info))))"

definition fs_get_upload :: "file_store \<Rightarrow> upload_id \<Rightarrow> (file_system, upload_id) op" where
  "fs_get_upload st i =
     sm_bind (sm_lift (upload_id_validate i)) (\<lambda>_.
     sm_bind (fs_io (fs_try_exists (info_path st i))) (\<lambda>there.
     sm_bind (sm_guard there (NotFound (as_str i))) (\<lambda>_.
     sm_return i)))"

definition exceeds :: "u64 option \<Rightarrow> u64 \<Rightarrow> tus_error + unit" where
  "exceeds sz end_offset =
     (case sz of
        Some declared \<Rightarrow>
          if declared < end_offset then Inl (ExceedsUploadLength declared end_offset) else Inr ()
      | None \<Rightarrow> Inr ())"

definition fs_write_chunk ::
  "json_codec \<Rightarrow> file_store \<Rightarrow> upload_id \<Rightarrow> u64 \<Rightarrow> reader \<Rightarrow> (file_system, u64) op" where
  "fs_write_chunk js st i off rd =
     sm_bind (read_info js st i) (\<lambda>info.
     sm_bind (sm_guard (info_offset info = off) (OffsetMismatch (info_offset info) off)) (\<lambda>_.
     sm_bind (sm_lift (read_all rd)) (\<lambda>buf.
       (let n = len_u64 buf
        in sm_bind (sm_lift (opt_to_res (Internal ''upload offset overflow'') (checked_add off n)))
             (\<lambda>end_offset.
           sm_bind (sm_lift (exceeds (info_size info) end_offset)) (\<lambda>_.
           sm_bind (list_part_paths_sorted st i) (\<lambda>parts.
             (let part = part_path st i (word_of_nat (length parts))
              in sm_bind (ensure_parent part) (\<lambda>_.
                 sm_bind (fs_io (fs_write part buf)) (\<lambda>_.
                 sm_bind (write_info js st i (info\<lparr>info_offset := end_offset\<rparr>)) (\<lambda>_.
                 sm_return n)))))))))))"

definition fs_finalize :: "file_store \<Rightarrow> upload_id \<Rightarrow> (file_system, unit) op" where
  "fs_finalize st i =
     sm_bind (list_part_paths_sorted st i) (\<lambda>parts.
       (let dest = data_path st i
        in sm_bind (ensure_parent dest) (\<lambda>_.
             if parts = [] then fs_io (fs_write dest [])
             else
               sm_bind (fs_io (fs_write dest [])) (\<lambda>_.
               sm_bind (sm_for parts (\<lambda>part.
                 sm_bind (fs_io (fs_open part)) (\<lambda>_. fs_io (fs_copy part dest)))) (\<lambda>_.
               sm_bind (fs_io fs_flush) (\<lambda>_.
               sm_for parts remove_file_ignore_not_found))))))"

definition fs_delete :: "file_store \<Rightarrow> upload_id \<Rightarrow> (file_system, unit) op" where
  "fs_delete st i =
     sm_bind (remove_file_ignore_not_found (data_path st i)) (\<lambda>_.
     sm_bind (remove_file_ignore_not_found (info_path st i)) (\<lambda>_.
     sm_bind (list_part_paths_sorted st i) (\<lambda>parts.
     sm_for parts remove_file_ignore_not_found)))"

definition fs_declare_length ::
  "json_codec \<Rightarrow> file_store \<Rightarrow> upload_id \<Rightarrow> u64 \<Rightarrow> (file_system, unit) op" where
  "fs_declare_length js st i n =
     sm_bind (read_info js st i) (\<lambda>info.
     sm_bind (sm_guard (info_size info = None) UploadLengthAlreadySet) (\<lambda>_.
     write_info js st i (info\<lparr>info_size := Some n, info_size_is_deferred := False\<rparr>)))"

text \<open>The returned file is read later; the reader is its contents at the time of the call.\<close>

definition fs_read_content :: "json_codec \<Rightarrow> file_store \<Rightarrow> upload_id \<Rightarrow> (file_system, reader) op"
where
  "fs_read_content js st i =
     sm_bind (read_info js st i) (\<lambda>info.
     sm_bind (sm_guard (is_complete info) UploadNotReadyForDownload) (\<lambda>_.
     sm_bind (fs_io (fs_try_exists (data_path st i))) (\<lambda>there.
     sm_bind (sm_guard there UploadNotReadyForDownload) (\<lambda>_.
     sm_bind (fs_io (fs_open (data_path st i))) (\<lambda>_ s.
       (Inr (case lookup s (data_path st i) of
               Some (File b) \<Rightarrow> [Chunk b] | _ \<Rightarrow> [Fault eisdir]), s))))))"

text \<open>\<open>partials.iter().filter_map(|p| p.size).sum()\<close>, wrapping as a release build does.\<close>

definition sum_sizes :: "upload_info list \<Rightarrow> u64" where
  "sum_sizes ps = sum_list (List.map_filter info_size ps)"

definition fs_concatenate ::
  "json_codec \<Rightarrow> file_store \<Rightarrow> upload_id \<Rightarrow> upload_info list \<Rightarrow> (file_system, unit) op" where
  "fs_concatenate js st i partials =
     (let dest = data_path st i
      in sm_bind (ensure_parent dest) (\<lambda>_.
         sm_bind (fs_io (fs_write dest [])) (\<lambda>_.
         sm_bind (sm_for partials (\<lambda>p.
           sm_bind (sm_lift (upload_id_validate (info_id p))) (\<lambda>_.
           sm_bind (fs_io (fs_open (partial_data_path st (info_id p)))) (\<lambda>_.
           fs_io (fs_copy (partial_data_path st (info_id p)) dest))))) (\<lambda>_.
         sm_bind (fs_io fs_flush) (\<lambda>_.
         (let total = sum_sizes partials
          in sm_bind (read_info js st i) (\<lambda>info.
             write_info js st i (info\<lparr>info_size := Some total, info_offset := total,
                                      info_is_final := True\<rparr>))))))))"

definition file_ops :: "json_codec \<Rightarrow> file_store \<Rightarrow> file_system datastore" where
  "file_ops js st =
     \<lparr>ds_create_upload = fs_create_upload js st, ds_get_upload = fs_get_upload st,
      up_write_chunk = fs_write_chunk js st, up_get_info = read_info js st,
      up_finalize = fs_finalize st, up_delete = fs_delete st,
      up_declare_length = fs_declare_length js st, up_concatenate = fs_concatenate js st,
      up_read_content = fs_read_content js st\<rparr>"

lemma file_ops_sel [simp]:
  "ds_create_upload (file_ops js st) = fs_create_upload js st"
  "ds_get_upload (file_ops js st) = fs_get_upload st"
  "up_write_chunk (file_ops js st) = fs_write_chunk js st"
  "up_get_info (file_ops js st) = read_info js st"
  "up_finalize (file_ops js st) = fs_finalize st"
  "up_delete (file_ops js st) = fs_delete st"
  "up_declare_length (file_ops js st) = fs_declare_length js st"
  "up_concatenate (file_ops js st) = fs_concatenate js st"
  "up_read_content (file_ops js st) = fs_read_content js st"
  by (simp_all add: file_ops_def)

end
