(* ===== verification/File_Names.thy ===== *)
theory File_Names
  imports File_Store
begin

text \<open>
  The names of the file-system store. With a normalised prefix every file of a valid identifier is
  an entry of one directory, and no entry belongs to two uploads: the reserved suffixes that
  \<open>UploadId::validate\<close> refuses are exactly the ones that could collide.
\<close>

section \<open>Segments\<close>

text \<open>A prefix as \<open>with_prefix\<close> makes it.\<close>

definition prefix_ok :: "file_store \<Rightarrow> bool" where
  "prefix_ok st \<longleftrightarrow> st_prefix st = [] \<or> ends_with (st_prefix st) ''/''"

lemma prefix_ok_new: "prefix_ok (file_store_new root)"
  by (simp add: prefix_ok_def file_store_new_def)

lemma prefix_ok_with: "prefix_ok (with_prefix root pre)"
  by (simp add: prefix_ok_def with_prefix_def ends_with_def Let_def suffix_def)

definition store_dir :: "file_store \<Rightarrow> path" where
  "store_dir st = key_to_path st (st_prefix st)"

lemma key_to_path_entry:
  assumes "prefix_ok st" and "name \<noteq> []" and "CHR ''/'' \<notin> set name"
  shows "key_to_path st (st_prefix st @ name) = store_dir st @ [name]"
proof (cases "st_prefix st = []")
  case True
  then show ?thesis
    using assms by (simp add: key_to_path_def store_dir_def split_on_no_sep)
next
  case False
  with assms(1) obtain p where p: "st_prefix st = p @ [CHR ''/'']"
    by (auto simp: prefix_ok_def ends_with_def suffix_def)
  have "split_on (CHR ''/'') (p @ CHR ''/'' # name) = split_on (CHR ''/'') p @ [name]"
    using assms(3) by (simp add: split_on_sep split_on_no_sep)
  moreover have "split_on (CHR ''/'') (p @ [CHR ''/'']) = split_on (CHR ''/'') p @ [[]]"
    by (simp add: split_on_sep)
  ultimately show ?thesis
    using assms(2) by (simp add: key_to_path_def store_dir_def p)
qed

section \<open>Names of a valid identifier\<close>

definition info_name :: "upload_id \<Rightarrow> string" where
  "info_name i = as_str i @ ''.info''"

definition part_stem :: "upload_id \<Rightarrow> string" where
  "part_stem i = as_str i @ ''_part_''"

definition part_name :: "upload_id \<Rightarrow> u32 \<Rightarrow> string" where
  "part_name i k = as_str i @ ''_part_'' @ dec (unat k)"

lemma part_name_stem: "part_name i k = part_stem i @ dec (unat k)"
  by (simp add: part_name_def part_stem_def)

lemma valid_idD:
  assumes "valid_id i"
  shows "as_str i \<noteq> []" and "list_all id_char (as_str i)"
    and "\<not> collides_with_reserved_key (as_str i)"
  using assms by (auto simp: upload_id_validate_def validate_str_Inr_iff)

lemma id_char_not_slash: "id_char c \<Longrightarrow> c \<noteq> CHR ''/''"
  by (auto simp: id_char_def is_alnum_def is_digit_def)

lemma id_char_not_plus: "id_char c \<Longrightarrow> c \<noteq> CHR ''+''"
  by (auto simp: id_char_def is_alnum_def is_digit_def)

lemma digit_not_slash: "is_digit c \<Longrightarrow> c \<noteq> CHR ''/''"
  by (auto simp: is_digit_def)

lemma digit_not_us: "is_digit c \<Longrightarrow> c \<noteq> CHR ''_''"
  by (auto simp: is_digit_def)

lemma digit_not_o: "is_digit c \<Longrightarrow> c \<noteq> CHR ''o''"
  by (auto simp: is_digit_def)

lemma valid_no_slash: "valid_id i \<Longrightarrow> CHR ''/'' \<notin> set (as_str i)"
  using valid_idD(2) [of i] id_char_not_slash by (auto simp: list_all_iff)

lemma valid_no_plus: "valid_id i \<Longrightarrow> CHR ''+'' \<notin> set (as_str i)"
  using valid_idD(2) [of i] id_char_not_plus by (auto simp: list_all_iff)

lemma dec_no_slash: "CHR ''/'' \<notin> set (dec n)"
  using dec_digits [of n] digit_not_slash by (auto simp: list_all_iff)

lemma info_path_eq:
  "prefix_ok st \<Longrightarrow> valid_id i \<Longrightarrow> info_path st i = store_dir st @ [info_name i]"
  using valid_no_slash [of i] key_to_path_entry [of st "info_name i"]
  by (simp add: info_path_def object_key_info_def info_name_def)

lemma data_path_eq:
  "prefix_ok st \<Longrightarrow> valid_id i \<Longrightarrow> data_path st i = store_dir st @ [as_str i]"
  using valid_no_slash [of i] valid_idD(1) [of i] key_to_path_entry [of st "as_str i"]
  by (simp add: data_path_def object_key_data_def)

lemma partial_data_path_eq [simp]: "partial_data_path st i = data_path st i"
  by (simp add: partial_data_path_def data_path_def object_key_data_def)

lemma part_path_eq:
  "prefix_ok st \<Longrightarrow> valid_id i \<Longrightarrow> part_path st i k = store_dir st @ [part_name i k]"
  using valid_no_slash [of i] dec_no_slash key_to_path_entry [of st "part_name i k"]
  by (simp add: part_path_def part_name_def)

section \<open>No name belongs to two uploads\<close>

lemma parse_u32_chars:
  assumes "parse_u32 rest = Some k"
  shows "rest \<noteq> []" and "CHR ''_'' \<notin> set rest" and "last rest \<noteq> CHR ''o''"
    and "CHR ''+'' \<notin> set rest \<Longrightarrow> list_all is_digit rest"
proof -
  obtain c r where r: "rest = c # r"
    using assms by (cases rest) (auto simp: parse_u32_def parse_uint_def)
  define ds where "ds = (if c = CHR ''+'' \<and> r \<noteq> [] then r else rest)"
  have ds: "ds \<noteq> []" "list_all is_digit ds"
    using assms by (auto simp: parse_u32_def parse_uint_def ds_def r Let_def split: if_splits)
  show "rest \<noteq> []" by (simp add: r)
  show "CHR ''_'' \<notin> set rest"
    using ds digit_not_us by (fastforce simp: ds_def r list_all_iff split: if_splits)
  have "last rest = last ds" by (simp add: ds_def r)
  with ds show "last rest \<noteq> CHR ''o''"
    using digit_not_o last_in_set by (fastforce simp: list_all_iff)
  show "CHR ''+'' \<notin> set rest \<Longrightarrow> list_all is_digit rest"
    using ds by (auto simp: ds_def r split: if_splits)
qed

lemma parse_u32_dec [simp]: "parse_u32 (dec (unat k)) = Some k"
  using unsigned_less [of k] by (simp add: parse_u32_def parse_uint_dec)

lemma part_stem_rfind:
  "CHR ''_'' \<notin> set t \<Longrightarrow> rfind (part_stem i @ t) ''_part_'' = Some (length (as_str i))"
  using rfind_append_last [of "''_part_''" t "as_str i"] by (simp add: part_stem_def)

lemma dec_no_us: "CHR ''_'' \<notin> set (dec n)"
  using dec_digits [of n] digit_not_us by (auto simp: list_all_iff)

lemma part_stem_inject:
  assumes "part_stem i @ t = part_stem j @ u" and "CHR ''_'' \<notin> set t" and "CHR ''_'' \<notin> set u"
  shows "i = j" and "t = u"
proof -
  have "length (as_str i) = length (as_str j)"
    using part_stem_rfind [OF assms(2), of i] part_stem_rfind [OF assms(3), of j] assms(1) by simp
  with assms(1) have "as_str i = as_str j" "t = u" by (simp_all add: part_stem_def)
  then show "i = j" "t = u" by (simp_all add: upload_id.expand)
qed

lemma part_name_inject [simp]: "part_name i k = part_name j l \<longleftrightarrow> i = j \<and> k = l"
proof
  assume "part_name i k = part_name j l"
  from part_stem_inject [OF this [unfolded part_name_stem] dec_no_us dec_no_us]
  show "i = j \<and> k = l" by (simp add: unsigned_word_eqI)
qed simp

lemma info_name_inject [simp]: "info_name i = info_name j \<longleftrightarrow> i = j"
  by (auto simp: info_name_def upload_id.expand)

lemma as_str_inject [simp]: "as_str i = as_str j \<longleftrightarrow> i = j"
  by (auto simp: upload_id.expand)

text \<open>What \<open>list_part_paths_sorted\<close> takes for a part of upload \<open>i\<close>.\<close>

definition part_index :: "upload_id \<Rightarrow> string \<Rightarrow> u32 option" where
  "part_index i name =
     (case strip_prefix_str name (part_stem i) of None \<Rightarrow> None | Some rest \<Rightarrow> parse_u32 rest)"

lemma part_index_SomeD:
  assumes "part_index i name = Some k"
  obtains rest where "name = part_stem i @ rest" and "parse_u32 rest = Some k"
  using assms
  by (auto simp: part_index_def strip_prefix_str_def prefix_def split: if_splits option.splits)

lemma part_index_own [simp]: "part_index i (part_name i k) = Some k"
  by (simp add: part_index_def strip_prefix_str_def part_name_stem)

lemma part_index_part: "part_index i (part_name j k) = (if i = j then Some k else None)"
proof (cases "part_index i (part_name j k)")
  case None
  then show ?thesis by auto
next
  case (Some l)
  then obtain rest where rest: "part_name j k = part_stem i @ rest" "parse_u32 rest = Some l"
    by (rule part_index_SomeD)
  from part_stem_inject(1) [OF this(1) [unfolded part_name_stem] dec_no_us] parse_u32_chars(2) [OF rest(2)]
  have "j = i" by blast
  with Some show ?thesis by simp
qed

lemma part_index_unique:
  assumes "part_index i n = Some k" and "part_index j n = Some l"
  shows "i = j"
proof -
  obtain t u where "n = part_stem i @ t" "parse_u32 t = Some k" "n = part_stem j @ u" "parse_u32 u = Some l"
    using assms by (meson part_index_SomeD)
  then show ?thesis using part_stem_inject(1) [of i t j u] parse_u32_chars(2) by metis
qed

lemma part_index_info [simp]: "part_index i (info_name j) = None"
proof (rule ccontr)
  assume "part_index i (info_name j) \<noteq> None"
  then obtain k where "part_index i (info_name j) = Some k" by auto
  then obtain rest where rest: "info_name j = part_stem i @ rest" "parse_u32 rest = Some k"
    by (rule part_index_SomeD)
  then have "last (info_name j) = last rest"
    using parse_u32_chars(1) by fastforce
  moreover have "last (info_name j) = CHR ''o''" by (simp add: info_name_def)
  ultimately show False using parse_u32_chars(3) [OF rest(2)] by simp
qed

lemma part_index_data [simp]:
  assumes "valid_id j"
  shows "part_index i (as_str j) = None"
proof (rule ccontr)
  assume "part_index i (as_str j) \<noteq> None"
  then obtain k where "part_index i (as_str j) = Some k" by auto
  then obtain rest where rest: "as_str j = part_stem i @ rest" "parse_u32 rest = Some k"
    by (rule part_index_SomeD)
  have "list_all is_digit rest"
    using valid_no_plus [OF assms] parse_u32_chars(4) [OF rest(2)] by (simp add: rest(1))
  moreover have "rfind (as_str j) ''_part_'' = Some (length (as_str i))"
    unfolding rest(1) by (rule part_stem_rfind) (rule parse_u32_chars(2) [OF rest(2)])
  ultimately have "reserved_tail (as_str j) ''_part_''"
    using parse_u32_chars(1) [OF rest(2)]
    by (simp add: reserved_tail_def rest(1) part_stem_def)
  then show False
    using valid_idD(3) [OF assms] by (auto simp: collides_with_reserved_key_def split: if_splits)
qed

lemma part_index_not_info: "part_index i n = Some k \<Longrightarrow> n \<noteq> info_name j"
  by auto

lemma part_index_not_data: "part_index i n = Some k \<Longrightarrow> valid_id j \<Longrightarrow> n \<noteq> as_str j"
  by auto

lemma part_name_not_data [simp]: "valid_id j \<Longrightarrow> part_name i k \<noteq> as_str j"
  using part_index_data [of j i] by (metis option.distinct(1) part_index_own)

lemma part_name_not_info [simp]: "part_name i k \<noteq> info_name j"
  using part_index_info [of i j] by (metis option.distinct(1) part_index_own)

lemma data_not_info [simp]:
  assumes "valid_id j"
  shows "as_str j \<noteq> info_name i"
proof
  assume "as_str j = info_name i"
  then have "collides_with_reserved_key (as_str j)"
    by (simp add: collides_with_reserved_key_def ends_with_def info_name_def suffix_def)
  with valid_idD(3) [OF assms] show False by simp
qed

lemmas names_distinct = data_not_info part_name_not_data part_name_not_info
  data_not_info [symmetric] part_name_not_data [symmetric] part_name_not_info [symmetric]

lemma indexed_parts_eq:
  "indexed_parts dir (part_stem i) names =
     List.map_filter (\<lambda>n. map_option (\<lambda>k. (k, dir @ [n])) (part_index i n)) names"
  unfolding indexed_parts_def
  by (rule arg_cong [where f = "\<lambda>f. List.map_filter f names"])
     (auto simp: part_index_def fun_eq_iff split: option.splits)

end
