(* ===== verification/File_Store_Facts.thy ===== *)
theory File_Store_Facts
  imports File_Names
begin

text \<open>
  The file-system store on a healthy disk: the exact effect of every operation on the directory
  entries, the parts of an upload as a list of chunks, and the contract \<open>upload_store\<close> that the
  request handlers rely on.
\<close>

section \<open>The invariant\<close>

text \<open>
  The documented behaviour of \<open>serde_json\<close> on these types: what it serialises it reads back. A
  hash map is its list of entries, so the law also fixes their order.
\<close>

definition codec_ok :: "json_codec \<Rightarrow> bool" where
  "codec_ok js \<longleftrightarrow> (\<forall>x b. to_json js x = Inr b \<longrightarrow> from_json js b = Inr x)"

abbreviation entry :: "file_store \<Rightarrow> string \<Rightarrow> path" where
  "entry st n \<equiv> store_dir st @ [n]"

text \<open>
  The disk is healthy, the directory of the store is there, and every record in it can be read back.
  It may hold directories too, as the one of the lock files that \<open>fileloft-server\<close> makes in it, but
  none with the name of a record or of a part.
\<close>

definition fs_inv :: "json_codec \<Rightarrow> file_store \<Rightarrow> file_system \<Rightarrow> bool" where
  "fs_inv js st s \<longleftrightarrow>
     codec_ok js \<and> prefix_ok st \<and> fs_faults s = [] \<and> is_dir s (store_dir st)
     \<and> distinct (map fst (fs_nodes s))
     \<and> (\<forall>n. lookup s (entry st n) = Some Dir \<longrightarrow>
              (\<forall>i. n \<noteq> info_name i \<and> part_index i n = None))
     \<and> (\<forall>i b. valid_id i \<longrightarrow> lookup s (entry st (info_name i)) = Some (File b) \<longrightarrow>
              (\<exists>x. from_json js b = Inr x))"

lemma fs_invD:
  assumes "fs_inv js st s"
  shows "prefix_ok st" and "fs_faults s = []" and "is_dir s (store_dir st)"
    and "distinct (map fst (fs_nodes s))" and "lookup s (entry st (info_name i)) \<noteq> Some Dir"
    and "part_index i n = Some k \<Longrightarrow> lookup s (entry st n) \<noteq> Some Dir"
  using assms by (auto simp: fs_inv_def)

text \<open>The directory of the lock files has a name that is neither.\<close>

lemma locks_name_free: "''locks'' \<noteq> info_name i" "part_index i ''locks'' = None"
proof -
  show "''locks'' \<noteq> info_name i"
  proof
    assume "''locks'' = info_name i"
    then have "last ''locks'' = last (info_name i)" by (rule arg_cong)
    then show False by (simp add: info_name_def)
  qed
  show "part_index i ''locks'' = None"
  proof (cases "part_index i ''locks''")
    case (Some k)
    then obtain rest where "''locks'' = part_stem i @ rest" by (rule part_index_SomeD)
    then have "set (part_stem i) \<subseteq> set ''locks''" by (metis set_append Un_upper1)
    then show ?thesis by (simp add: part_stem_def)
  qed simp
qed

definition fs_info_of :: "json_codec \<Rightarrow> file_store \<Rightarrow> file_system \<Rightarrow> upload_id \<Rightarrow> upload_info option"
where
  "fs_info_of js st s i =
     (if valid_id i
      then (case lookup s (entry st (info_name i)) of
              Some (File b) \<Rightarrow> (case from_json js b of Inr x \<Rightarrow> Some x | Inl e \<Rightarrow> None)
            | _ \<Rightarrow> None)
      else None)"

lemma fs_info_SomeD:
  assumes "fs_info_of js st s i = Some x"
  obtains b where "valid_id i" and "lookup s (entry st (info_name i)) = Some (File b)"
    and "from_json js b = Inr x"
  using assms
  by (auto simp: fs_info_of_def split: if_splits option.splits node.splits sum.splits)

lemma fs_info_valid: "fs_info_of js st s i = Some x \<Longrightarrow> valid_id i"
  by (rule fs_info_SomeD)

lemma fs_info_None:
  assumes "fs_inv js st s" and "valid_id i"
  shows "fs_info_of js st s i = None \<longleftrightarrow> lookup s (entry st (info_name i)) = None"
proof (cases "lookup s (entry st (info_name i))")
  case None
  then show ?thesis by (simp add: fs_info_of_def)
next
  case (Some n)
  then obtain b where b: "n = File b" using fs_invD(5) [OF assms(1)] by (cases n) auto
  then obtain x where "from_json js b = Inr x"
    using assms Some unfolding fs_inv_def by blast
  with Some b assms(2) show ?thesis by (simp add: fs_info_of_def)
qed

text \<open>Writing or removing one entry of the directory.\<close>

lemma lookup_set_entry [simp]:
  "lookup (set_node (entry st n) v s) (entry st m) = (if m = n then Some v else lookup s (entry st m))"
  by (simp add: lookup_set_node)

lemma lookup_del_entry [simp]:
  "lookup (del_node (entry st n) s) (entry st m) = (if m = n then None else lookup s (entry st m))"
  by (simp add: lookup_del_node)

lemma set_entry_inv:
  assumes "fs_inv js st s" and "\<And>i. valid_id i \<Longrightarrow> n \<noteq> info_name i"
  shows "fs_inv js st (set_node (entry st n) (File b) s)"
    and "fs_info_of js st (set_node (entry st n) (File b) s) = fs_info_of js st s"
proof -
  show "fs_inv js st (set_node (entry st n) (File b) s)"
    using assms by (auto simp: fs_inv_def is_dir_set_file distinct_set_node)
  show "fs_info_of js st (set_node (entry st n) (File b) s) = fs_info_of js st s"
    using assms(2) by (intro ext) (auto simp: fs_info_of_def)
qed

lemma set_dir_inv:
  assumes "fs_inv js st s" and "\<And>i. n \<noteq> info_name i \<and> part_index i n = None"
  shows "fs_inv js st (set_node (entry st n) Dir s)"
    and "lookup s (entry st n) = None \<Longrightarrow>
           fs_info_of js st (set_node (entry st n) Dir s) = fs_info_of js st s"
proof -
  show "fs_inv js st (set_node (entry st n) Dir s)"
    using assms by (auto simp: fs_inv_def is_dir_set_file distinct_set_node)
  show "fs_info_of js st (set_node (entry st n) Dir s) = fs_info_of js st s"
    using assms(2) by (intro ext) (auto simp: fs_info_of_def)
qed

lemma del_entry_inv:
  assumes "fs_inv js st s"
  shows "fs_inv js st (del_node (entry st n) s)"
    and "(\<And>i. valid_id i \<Longrightarrow> n \<noteq> info_name i) \<Longrightarrow>
           fs_info_of js st (del_node (entry st n) s) = fs_info_of js st s"
proof -
  show "fs_inv js st (del_node (entry st n) s)"
    using assms by (auto simp: fs_inv_def is_dir_del_file distinct_del_node)
  show "fs_info_of js st (del_node (entry st n) s) = fs_info_of js st s"
    if "\<And>i. valid_id i \<Longrightarrow> n \<noteq> info_name i"
    using that by (intro ext) (auto simp: fs_info_of_def)
qed

lemma set_info_inv:
  assumes "fs_inv js st s" and "valid_id i" and "to_json js x = Inr b"
  shows "fs_inv js st (set_node (entry st (info_name i)) (File b) s)"
    and "fs_info_of js st (set_node (entry st (info_name i)) (File b) s)
         = (fs_info_of js st s)(i \<mapsto> x)"
proof -
  have x: "from_json js b = Inr x" using assms(1,3) by (simp add: fs_inv_def codec_ok_def)
  then show "fs_inv js st (set_node (entry st (info_name i)) (File b) s)"
    using assms(1) by (auto simp: fs_inv_def is_dir_set_file distinct_set_node)
  show "fs_info_of js st (set_node (entry st (info_name i)) (File b) s)
         = (fs_info_of js st s)(i \<mapsto> x)"
    using assms(2) x by (intro ext) (auto simp: fs_info_of_def)
qed

lemma del_info:
  "fs_info_of js st (del_node (entry st (info_name i)) s) = (fs_info_of js st s)(i := None)"
  by (intro ext) (auto simp: fs_info_of_def)

section \<open>The helpers\<close>

lemma fs_io_apply: "m s = (r, s') \<Longrightarrow> fs_io m s = (map_sum Io id r, s')"
  by (simp add: fs_io_def)

lemma read_info_some:
  assumes "fs_inv js st s" and "fs_info_of js st s i = Some x"
  shows "read_info js st i s = (Inr x, s)"
proof -
  obtain b where b: "valid_id i" "lookup s (entry st (info_name i)) = Some (File b)"
    "from_json js b = Inr x"
    using assms(2) by (rule fs_info_SomeD)
  have "fs_read (info_path st i) s = (Inr b, s)"
    unfolding info_path_eq [OF fs_invD(1) [OF assms(1)] b(1)]
    by (rule fs_read_child [OF fs_invD(2,3) [OF assms(1)] b(2)])
  then show ?thesis by (simp add: read_info_def fs_io_def sm_simps b(3))
qed

lemma write_entry:
  assumes "fs_inv js st s"
  shows "fs_io (fs_write (entry st n) b) s =
    (if lookup s (entry st n) = Some Dir then (Inl (Io eisdir), s)
     else (Inr (), set_node (entry st n) (File b) s))"
  by (simp add: fs_io_def fs_write_child fs_invD(2,3) [OF assms])

lemma write_info_eq:
  assumes "fs_inv js st s" and "valid_id i"
  shows "write_info js st i x s =
    (case to_json js x of
       Inl e \<Rightarrow> (Inl (Internal e), s)
     | Inr b \<Rightarrow> (Inr (), set_node (entry st (info_name i)) (File b) s))"
  using fs_invD(5) [OF assms(1), of i]
  by (cases "to_json js x")
     (simp_all add: write_info_def sm_simps info_path_eq fs_invD(1) [OF assms(1)] assms(2)
        write_entry [OF assms(1)])

lemma write_info_cases:
  assumes "fs_inv js st s" and "valid_id i" and "write_info js st i x s = (r, s')"
  obtains (failed) e where "r = Inl e" and "s' = s"
    | (written) "r = Inr ()" and "fs_inv js st s'" and "fs_info_of js st s' = (fs_info_of js st s)(i \<mapsto> x)"
proof (cases "to_json js x")
  case (Inl e)
  with assms(3) failed show ?thesis by (auto simp: write_info_eq [OF assms(1,2)])
next
  case (Inr b)
  with assms(3) have "r = Inr ()" "s' = set_node (entry st (info_name i)) (File b) s"
    by (simp_all add: write_info_eq [OF assms(1,2)])
  with set_info_inv [OF assms(1,2) Inr] show ?thesis using written by simp
qed

lemma ensure_parent_entry:
  assumes "fs_inv js st s"
  shows "ensure_parent (entry st n) s = (Inr (), s)"
  by (simp add: ensure_parent_def parent_def fs_io_def fs_create_dir_all_there fs_invD(2,3) [OF assms])

lemma try_exists_entry:
  assumes "fs_inv js st s"
  shows "fs_io (fs_try_exists (entry st n)) s = (Inr (lookup s (entry st n) \<noteq> None), s)"
  by (simp add: fs_io_def fs_try_exists_child fs_invD(2,3) [OF assms])

lemma delete_absent: "k \<notin> fst ` set xs \<Longrightarrow> AList.delete k xs = xs"
  by (induction xs) auto

lemma del_absent: "lookup s p = None \<Longrightarrow> del_node p s = s"
  by (cases "p = []") (simp_all add: lookup_def del_node_def delete_absent map_of_eq_None_iff)

lemma remove_entry:
  assumes "fs_inv js st s"
  shows "remove_file_ignore_not_found (entry st n) s =
    (if lookup s (entry st n) = Some Dir then (Inl (Io eisdir), s)
     else (Inr (), del_node (entry st n) s))"
  by (auto simp: remove_file_ignore_not_found_def fs_remove_child fs_invD(2,3) [OF assms] del_absent
        enoent_def eisdir_def split: option.split node.split)

lemma remove_entries:
  assumes "fs_inv js st s" and "\<And>n. n \<in> set ns \<Longrightarrow> lookup s (entry st n) \<noteq> Some Dir"
  shows "sm_for (map (entry st) ns) remove_file_ignore_not_found s
         = (Inr (), fold (\<lambda>n. del_node (entry st n)) ns s)"
  using assms
  by (induction ns arbitrary: s) (simp_all add: sm_simps remove_entry del_entry_inv(1))

lemma del_entries_lookup:
  "lookup (fold (\<lambda>n. del_node (entry st n)) ns s) (entry st m)
   = (if m \<in> set ns then None else lookup s (entry st m))"
  by (induction ns arbitrary: s) auto

lemma del_entries_inv:
  assumes "fs_inv js st s"
  shows "fs_inv js st (fold (\<lambda>n. del_node (entry st n)) ns s)"
  using assms by (induction ns arbitrary: s) (simp_all add: del_entry_inv(1))

lemma del_entries_info:
  assumes "fs_inv js st s" and "\<And>n i. n \<in> set ns \<Longrightarrow> valid_id i \<Longrightarrow> n \<noteq> info_name i"
  shows "fs_info_of js st (fold (\<lambda>n. del_node (entry st n)) ns s) = fs_info_of js st s"
  using assms by (induction ns arbitrary: s) (simp_all add: del_entry_inv)

section \<open>The parts of an upload\<close>

definition part_entries :: "file_store \<Rightarrow> file_system \<Rightarrow> upload_id \<Rightarrow> (u32 \<times> string) list" where
  "part_entries st s i =
     List.map_filter (\<lambda>n. map_option (\<lambda>k. (k, n)) (part_index i n)) (children s (store_dir st))"

definition part_names :: "file_store \<Rightarrow> file_system \<Rightarrow> upload_id \<Rightarrow> string list" where
  "part_names st s i = map snd (sort_key fst (part_entries st s i))"

lemma part_entries_iff:
  assumes "fs_inv js st s"
  shows "(k, n) \<in> set (part_entries st s i) \<longleftrightarrow>
           part_index i n = Some k \<and> lookup s (entry st n) \<noteq> None"
  using children_iff [OF fs_invD(4) [OF assms], of n "store_dir st"]
  by (force simp: part_entries_def List.map_filter_def image_iff)

lemma part_names_iff:
  assumes "fs_inv js st s"
  shows "n \<in> set (part_names st s i) \<longleftrightarrow> part_index i n \<noteq> None \<and> lookup s (entry st n) \<noteq> None"
  using part_entries_iff [OF assms, of _ n i] by (force simp: part_names_def image_iff)

text \<open>No part is a directory.\<close>

lemma part_not_dir:
  assumes "fs_inv js st s" and "n \<in> set (part_names st s i)"
  shows "lookup s (entry st n) \<noteq> Some Dir"
  using assms(2) fs_invD(6) [OF assms(1), of i n] by (auto simp: part_names_iff [OF assms(1)])

lemma map_filter_map:
  "List.map_filter (\<lambda>x. map_option f (g x)) xs = map f (List.map_filter g xs)"
  by (induction xs) (auto simp: List.map_filter_simps split: option.split)

lemma sort_key_map: "sort_key f (map g xs) = map g (sort_key (f \<circ> g) xs)"
proof -
  have ins: "insort_key f (g x) (map g ys) = map g (insort_key (f \<circ> g) x ys)" for x ys
    by (induction ys) auto
  show ?thesis by (induction xs) (auto simp: ins [unfolded o_def])
qed

lemma list_parts_eq:
  assumes "fs_inv js st s" and "valid_id i"
  shows "list_part_paths_sorted st i s = (Inr (map (entry st) (part_names st s i)), s)"
proof -
  note inv = fs_invD(1-4) [OF assms(1)]
  have "fs_io (fs_try_exists (store_dir st)) s = (Inr True, s)"
    using inv by (simp add: fs_io_def fs_try_exists_def syscall_healthy path_error_dir is_dir_lookup)
  moreover have "fs_io (fs_read_dir (store_dir st)) s = (Inr (children s (store_dir st)), s)"
    using inv by (simp add: fs_io_def fs_read_dir_there)
  moreover have "indexed_parts (store_dir st) (part_stem i) ns
      = map (\<lambda>(k, n). (k, entry st n))
          (List.map_filter (\<lambda>n. map_option (\<lambda>k. (k, n)) (part_index i n)) ns)" for ns
    by (simp add: indexed_parts_eq map_filter_map [symmetric] option.map_comp o_def)
  moreover have "map snd (sort_key fst (map (\<lambda>(k, n). (k, entry st n)) xs))
      = map (entry st) (map snd (sort_key fst xs))" for xs :: "(u32 \<times> string) list"
    by (simp add: sort_key_map o_def case_prod_unfold)
  ultimately show ?thesis
    unfolding list_part_paths_sorted_def info_path_eq [OF inv(1) assms(2)]
    by (simp add: parent_def sm_simps part_names_def part_entries_def part_stem_def)
qed

end
