(* ===== verification/File_Contract.thy ===== *)
theory File_Contract
  imports File_Store_Facts
begin

text \<open>
  The operations of the file-system store, one by one, and the contract \<open>upload_store\<close>: the
  records of the uploads behave as the handlers expect, for every codec, root and prefix. The
  stronger contract \<open>content_store\<close> does not hold here, because \<open>finalize\<close> of an upload whose
  parts are gone empties its file; what holds of the bytes is stated in \<open>File_Laws\<close>.
\<close>

section \<open>Assembling\<close>

definition file_bytes :: "file_store \<Rightarrow> file_system \<Rightarrow> string \<Rightarrow> bytes" where
  "file_bytes st s n = (case lookup s (entry st n) of Some (File b) \<Rightarrow> b | _ \<Rightarrow> [])"

lemma update_twice: "AList.update k v (AList.update k w xs) = AList.update k v xs"
  by (induction xs) auto

lemma set_node_twice [simp]: "set_node p v (set_node p w s) = set_node p v s"
  by (simp add: set_node_def update_twice)

lemma update_same: "map_of xs k = Some v \<Longrightarrow> AList.update k v xs = xs"
  by (induction xs) auto

lemma set_node_same: "p \<noteq> [] \<Longrightarrow> lookup s p = Some v \<Longrightarrow> set_node p v s = s"
  by (cases s) (simp add: set_node_def lookup_def update_same)

lemma open_entry:
  assumes "fs_inv js st s" and "lookup s (entry st n) \<noteq> None"
  shows "fs_io (fs_open (entry st n)) s = (Inr (), s)"
  using assms(2) by (simp add: fs_io_def fs_open_child fs_invD(2,3) [OF assms(1)])

lemma copy_entry:
  assumes "fs_inv js st s" and "lookup s (entry st n) \<noteq> None" and "lookup s (entry st n) \<noteq> Some Dir"
    and "lookup s (entry st m) = Some (File d)"
  shows "fs_io (fs_copy (entry st n) (entry st m)) s =
    (Inr (), set_node (entry st m) (File (d @ file_bytes st s n)) s)"
proof -
  obtain b where "lookup s (entry st n) = Some (File b)"
    using assms(2,3) by (cases "lookup s (entry st n)"; cases "the (lookup s (entry st n))") auto
  then show ?thesis
    using assms(4)
    by (simp add: fs_io_def fs_copy_def syscall_healthy fs_invD(2) [OF assms(1)] file_bytes_def)
qed

lemma file_bytes_set_other [simp]:
  "n \<noteq> m \<Longrightarrow> file_bytes st (set_node (entry st m) v s) n = file_bytes st s n"
  by (simp add: file_bytes_def)

lemma sm_for_step: "f x s = (Inr (), s') \<Longrightarrow> sm_for (x # xs) f s = sm_for xs f s'"
  by (simp add: sm_bind_def)

lemma copy_entries:
  assumes "fs_inv js st s" and "lookup s (entry st m) = Some (File d)"
    and "\<And>i. valid_id i \<Longrightarrow> m \<noteq> info_name i"
    and "\<And>n. n \<in> set ns \<Longrightarrow> n \<noteq> m \<and> lookup s (entry st n) \<noteq> None
           \<and> lookup s (entry st n) \<noteq> Some Dir"
  shows "sm_for (map (entry st) ns)
           (\<lambda>p. sm_bind (fs_io (fs_open p)) (\<lambda>_. fs_io (fs_copy p (entry st m)))) s
         = (Inr (), set_node (entry st m) (File (d @ concat (map (file_bytes st s) ns))) s)"
  using assms
proof (induction ns arbitrary: s d)
  case Nil
  then show ?case by (simp add: sm_simps set_node_same)
next
  case (Cons n ns)
  let ?s = "set_node (entry st m) (File (d @ file_bytes st s n)) s"
  have step: "sm_bind (fs_io (fs_open (entry st n))) (\<lambda>_. fs_io (fs_copy (entry st n) (entry st m))) s
      = (Inr (), ?s)"
    using Cons.prems by (simp add: sm_simps open_entry copy_entry)
  have inv: "fs_inv js st ?s"
    using Cons.prems(1,3) by (rule set_entry_inv(1))
  have bytes: "concat (map (file_bytes st ?s) ns) = concat (map (file_bytes st s) ns)"
    using Cons.prems(4) by (intro arg_cong [where f = concat] map_cong) auto
  have "sm_for (map (entry st) ns)
      (\<lambda>p. sm_bind (fs_io (fs_open p)) (\<lambda>_. fs_io (fs_copy p (entry st m)))) ?s
    = (Inr (), set_node (entry st m) (File ((d @ file_bytes st s n)
         @ concat (map (file_bytes st ?s) ns))) ?s)"
    using Cons.prems by (intro Cons.IH inv) auto
  then show ?case
    unfolding bytes list.map
    by (subst sm_for_step [where f = "\<lambda>p. sm_bind (fs_io (fs_open p)) (\<lambda>_. fs_io (fs_copy p (entry st m)))", OF step])
       simp
qed

lemma part_names_other:
  assumes "fs_inv js st s" and "n \<in> set (part_names st s i)"
  shows "n \<noteq> info_name j" and "valid_id j \<Longrightarrow> n \<noteq> as_str j" and "lookup s (entry st n) \<noteq> None"
    and "lookup s (entry st n) \<noteq> Some Dir"
  using assms(2) part_not_dir [OF assms] by (auto simp: part_names_iff [OF assms(1)])

text \<open>
  \<open>finalize\<close>: the file becomes the concatenation of the parts, in the order of their numbers, and
  the parts go. With no parts the file becomes empty, whatever it was. It fails only where a directory
  has the upload's name.
\<close>

definition assembled :: "file_store \<Rightarrow> file_system \<Rightarrow> upload_id \<Rightarrow> bytes" where
  "assembled st s i = concat (map (file_bytes st s) (part_names st s i))"

lemma fs_finalize_eq:
  assumes "fs_inv js st s" and "valid_id i"
  shows "fs_finalize st i s =
    (if lookup s (entry st (as_str i)) = Some Dir then (Inl (Io eisdir), s)
     else (Inr (), fold (\<lambda>n. del_node (entry st n)) (part_names st s i)
               (set_node (entry st (as_str i)) (File (assembled st s i)) s)))"
proof (cases "lookup s (entry st (as_str i)) = Some Dir")
  case True
  then show ?thesis
    by (simp add: fs_finalize_def sm_simps list_parts_eq [OF assms] assms(2)
        data_path_eq [OF fs_invD(1) [OF assms(1)]] ensure_parent_entry [OF assms(1)]
        write_entry [OF assms(1)] Let_def)
next
  case nodir: False
  let ?d = "entry st (as_str i)"
  let ?s0 = "set_node ?d (File []) s"
  let ?s1 = "set_node ?d (File (assembled st s i)) s"
  have no: "\<And>j. valid_id j \<Longrightarrow> as_str i \<noteq> info_name j" using assms(2) by simp
  note inv0 = set_entry_inv(1) [OF assms(1) no, of "[]"]
  note inv1 = set_entry_inv(1) [OF assms(1) no, of "assembled st s i"]
  have parts: "n \<noteq> as_str i \<and> lookup ?s0 (entry st n) \<noteq> None
      \<and> lookup ?s0 (entry st n) \<noteq> Some Dir" if "n \<in> set (part_names st s i)" for n
    using part_names_other [OF assms(1) that] assms(2) by auto
  have bytes: "concat (map (file_bytes st ?s0) (part_names st s i)) = assembled st s i"
    unfolding assembled_def using parts by (intro arg_cong [where f = concat] map_cong) auto
  have "sm_for (map (entry st) (part_names st s i))
      (\<lambda>p. sm_bind (fs_io (fs_open p)) (\<lambda>_. fs_io (fs_copy p ?d))) ?s0
    = (Inr (), set_node ?d (File ([] @ concat (map (file_bytes st ?s0) (part_names st s i)))) ?s0)"
    by (rule copy_entries [OF inv0 _ no parts]) simp_all
  then have copy: "sm_for (map (entry st) (part_names st s i))
      (\<lambda>p. sm_bind (fs_io (fs_open p)) (\<lambda>_. fs_io (fs_copy p ?d))) ?s0 = (Inr (), ?s1)"
    unfolding bytes by simp
  have flush: "fs_io fs_flush ?s1 = (Inr (), ?s1)"
    by (simp add: fs_io_def fs_flush_def syscall_healthy fs_invD(2) [OF assms(1)])
  have gone: "lookup ?s1 (entry st n) \<noteq> Some Dir" if "n \<in> set (part_names st s i)" for n
    using part_names_other [OF assms(1) that] by simp
  show ?thesis
  proof (cases "part_names st s i = []")
    case True
    then show ?thesis
      using nodir
      by (simp add: fs_finalize_def sm_simps list_parts_eq [OF assms] assms(2) data_path_eq [OF fs_invD(1) [OF assms(1)]]
          ensure_parent_entry [OF assms(1)] write_entry [OF assms(1)] assembled_def Let_def)
  next
    case False
    then show ?thesis
      using copy remove_entries [OF inv1, of "part_names st s i"] gone nodir
      by (simp add: fs_finalize_def sm_simps list_parts_eq [OF assms] assms(2) data_path_eq [OF fs_invD(1) [OF assms(1)]]
          ensure_parent_entry [OF assms(1)] write_entry [OF assms(1)] flush Let_def)
  qed
qed

lemma fs_finalize_inv:
  assumes "fs_inv js st s" and "valid_id i" and "fs_finalize st i s = (r, s')"
  shows "fs_inv js st s'" and "fs_info_of js st s' = fs_info_of js st s"
proof -
  let ?s1 = "set_node (entry st (as_str i)) (File (assembled st s i)) s"
  have no: "\<And>j. valid_id j \<Longrightarrow> as_str i \<noteq> info_name j" using assms(2) by simp
  note s1 = set_entry_inv [OF assms(1) no, of "assembled st s i"]
  have "s' = s \<or> s' = fold (\<lambda>n. del_node (entry st n)) (part_names st s i) ?s1"
    using assms(3) by (simp add: fs_finalize_eq [OF assms(1,2)] split: if_splits)
  moreover have "\<And>n j. n \<in> set (part_names st s i) \<Longrightarrow> valid_id j \<Longrightarrow> n \<noteq> info_name j"
    using part_names_other(1) [OF assms(1)] by blast
  ultimately show "fs_inv js st s'" "fs_info_of js st s' = fs_info_of js st s"
    using s1 assms(1) by (elim disjE; simp add: del_entries_inv del_entries_info [OF s1(1)])+
qed

section \<open>The other operations\<close>

lemma fs_create_eq:
  assumes "fs_inv js st s" and "valid_id (info_id x)"
  shows "fs_create_upload js st x s =
    (case write_info js st (info_id x) x s of (r, s') \<Rightarrow> (map_sum id (\<lambda>_. info_id x) r, s'))"
  using assms
  by (cases "to_json js x")
     (simp_all add: fs_create_upload_def sm_simps info_path_eq fs_invD(1) ensure_parent_entry
        write_info_eq)

lemma fs_get_eq:
  assumes "fs_inv js st s" and "valid_id i"
  shows "fs_get_upload st i s =
    (if fs_info_of js st s i = None then Inl (NotFound (as_str i)) else Inr i, s)"
  using assms
  by (simp add: fs_get_upload_def sm_simps info_path_eq fs_invD(1) try_exists_entry fs_info_None)

lemma fs_declare_eq:
  assumes "fs_inv js st s" and "fs_info_of js st s i = Some x"
  shows "fs_declare_length js st i n s =
    (if info_size x = None then write_info js st i (with_length n x) s
     else (Inl UploadLengthAlreadySet, s))"
  by (simp add: fs_declare_length_def sm_simps read_info_some [OF assms] with_length_def)

text \<open>
  A chunk: everything is checked before anything is written; then the part, then the record.
\<close>

lemma fs_write_chunk_eq:
  assumes "fs_inv js st s" and "fs_info_of js st s i = Some x"
  shows "fs_write_chunk js st i off rd s =
    (if info_offset x \<noteq> off then (Inl (OffsetMismatch (info_offset x) off), s)
     else (case read_all rd of Inl e \<Rightarrow> (Inl e, s)
       | Inr buf \<Rightarrow>
          (case checked_add off (len_u64 buf) of
             None \<Rightarrow> (Inl (Internal ''upload offset overflow''), s)
           | Some end_offset \<Rightarrow>
              (case exceeds (info_size x) end_offset of
                 Inl e \<Rightarrow> (Inl e, s)
               | Inr u \<Rightarrow>
                  (case write_info js st i (x\<lparr>info_offset := end_offset\<rparr>)
                     (set_node (entry st (part_name i (word_of_nat (length (part_names st s i)))))
                        (File buf) s) of
                     (Inl e, s') \<Rightarrow> (Inl e, s') | (Inr u, s') \<Rightarrow> (Inr (len_u64 buf), s'))))))"
proof -
  note i = fs_info_valid [OF assms(2)]
  note pp = part_path_eq [OF fs_invD(1) [OF assms(1)] i]
  have nodir: "lookup s (entry st (part_name i k)) \<noteq> Some Dir" for k
    using fs_invD(6) [OF assms(1) part_index_own] .
  show ?thesis
  proof (cases "read_all rd")
    case (Inl e)
    then show ?thesis
      by (simp add: fs_write_chunk_def sm_simps read_info_some [OF assms])
  next
    case (Inr buf)
    show ?thesis
    proof (cases "checked_add off (len_u64 buf)")
      case None
      with Inr show ?thesis
        by (simp add: fs_write_chunk_def sm_simps read_info_some [OF assms])
    next
      case (Some end_offset)
      with Inr show ?thesis
        by (simp add: fs_write_chunk_def sm_simps read_info_some [OF assms] Let_def
            list_parts_eq [OF assms(1) i] pp ensure_parent_entry [OF assms(1)] nodir
            write_entry [OF assms(1)] sm_bind_def sm_return_def split: sum.split)
    qed
  qed
qed

lemma exceeds_Inr: "exceeds sz m = Inr u \<longleftrightarrow> (case sz of None \<Rightarrow> True | Some d \<Rightarrow> m \<le> d)"
  by (auto simp: exceeds_def not_less split: option.splits if_splits)

lemma fs_delete_eq:
  assumes "fs_inv js st s" and "valid_id i"
  shows "fs_delete st i s =
    (if lookup s (entry st (as_str i)) = Some Dir then (Inl (Io eisdir), s) else
     let s1 = del_node (entry st (info_name i)) (del_node (entry st (as_str i)) s)
     in (Inr (), fold (\<lambda>n. del_node (entry st n)) (part_names st s1 i) s1))"
proof -
  note p = fs_invD(1) [OF assms(1)]
  note d1 = del_entry_inv(1) [OF assms(1), of "as_str i"]
  note d2 = del_entry_inv(1) [OF d1, of "info_name i"]
  let ?s1 = "del_node (entry st (as_str i)) s"
  let ?s2 = "del_node (entry st (info_name i)) ?s1"
  have parts: "sm_for (map (entry st) (part_names st ?s2 i)) remove_file_ignore_not_found ?s2
      = (Inr (), fold (\<lambda>n. del_node (entry st n)) (part_names st ?s2 i) ?s2)"
    by (rule remove_entries [OF d2]) (rule part_not_dir [OF d2])
  have "lookup ?s1 (entry st (info_name i)) \<noteq> Some Dir" using fs_invD(5) [OF d1] .
  then show ?thesis
    using parts
    by (simp add: fs_delete_def sm_simps info_path_eq data_path_eq p assms(2) remove_entry [OF assms(1)]
        remove_entry [OF d1] list_parts_eq [OF d2] Let_def)
qed

lemma fs_delete_inv:
  assumes "fs_inv js st s" and "valid_id i" and "fs_delete st i s = (Inr u, s')"
  shows "fs_inv js st s'" and "fs_info_of js st s' = (fs_info_of js st s)(i := None)"
proof -
  let ?s1 = "del_node (entry st (as_str i)) s"
  let ?s2 = "del_node (entry st (info_name i)) ?s1"
  note d1 = del_entry_inv [OF assms(1), of "as_str i"]
  note d2 = del_entry_inv(1) [OF d1(1), of "info_name i"]
  have s': "s' = fold (\<lambda>n. del_node (entry st n)) (part_names st ?s2 i) ?s2"
    using assms(3) by (simp add: fs_delete_eq [OF assms(1,2)] Let_def split: if_splits)
  have "\<And>n j. n \<in> set (part_names st ?s2 i) \<Longrightarrow> valid_id j \<Longrightarrow> n \<noteq> info_name j"
    using part_names_other(1) [OF d2] by blast
  then have "fs_info_of js st s' = fs_info_of js st ?s2"
    unfolding s' by (rule del_entries_info [OF d2])
  also have "\<dots> = (fs_info_of js st s)(i := None)"
    using d1(2) assms(2) by (simp add: del_info)
  finally show "fs_info_of js st s' = (fs_info_of js st s)(i := None)" .
  show "fs_inv js st s'" unfolding s' by (rule del_entries_inv [OF d2])
qed

section \<open>Concatenation\<close>

text \<open>Copying into the file of an upload leaves every record as it was, whatever is copied.\<close>

definition records_are ::
  "json_codec \<Rightarrow> file_store \<Rightarrow> (upload_id \<Rightarrow> upload_info option) \<Rightarrow> file_system \<Rightarrow> bool" where
  "records_are js st m s \<longleftrightarrow> fs_inv js st s \<and> fs_info_of js st s = m"

lemma keeps_copy:
  assumes "\<And>i. valid_id i \<Longrightarrow> m \<noteq> info_name i"
  shows "keeps (records_are js st f) (fs_io (fs_copy (entry st n) (entry st m)))"
proof (rule keepsI)
  fix s
  assume "records_are js st f s"
  then have s: "fs_inv js st s" "fs_info_of js st s = f" by (simp_all add: records_are_def)
  have "records_are js st f (set_node (entry st m) (File b) s)" for b
    using set_entry_inv [OF s(1) assms, of b] s(2) by (simp add: records_are_def)
  with s show "records_are js st f (snd (fs_io (fs_copy (entry st n) (entry st m)) s))"
    by (auto simp: fs_io_def fs_copy_def syscall_healthy fs_invD(2) [OF s(1)] records_are_def
        split: option.split node.split)
qed

lemma keeps_open: "keeps (records_are js st f) (fs_io (fs_open (entry st n)))"
proof (rule keepsI)
  fix s
  assume s: "records_are js st f s"
  then have i: "fs_inv js st s" by (simp add: records_are_def)
  from s show "records_are js st f (snd (fs_io (fs_open (entry st n)) s))"
    by (simp add: fs_io_def fs_open_def syscall_healthy fs_invD(2) [OF i]
        path_error_child [OF fs_invD(3) [OF i]])
qed

lemma keeps_copy_partial:
  assumes "prefix_ok st" and "valid_id i"
  shows "keeps (records_are js st f)
    (sm_bind (sm_lift (upload_id_validate (info_id p))) (\<lambda>_.
     sm_bind (fs_io (fs_open (partial_data_path st (info_id p)))) (\<lambda>_.
     fs_io (fs_copy (partial_data_path st (info_id p)) (entry st (as_str i))))))"
proof (cases "valid_id (info_id p)")
  case True
  then show ?thesis
    unfolding partial_data_path_eq data_path_eq [OF assms(1) True]
    using assms(2) by (intro keeps_bind keeps_lift keeps_open keeps_copy) simp
next
  case False
  then obtain e where "upload_id_validate (info_id p) = Inl e"
    by (cases "upload_id_validate (info_id p)") auto
  then show ?thesis by (intro keepsI) (simp add: sm_simps)
qed

lemma fs_concatenate_cases:
  assumes "fs_inv js st s" and "fs_info_of js st s i = Some x"
    and "fs_concatenate js st i ps s = (r, s')"
  obtains (failed) e where "r = Inl e" and "fs_inv js st s'"
      and "fs_info_of js st s' = fs_info_of js st s"
    | (joined) "r = Inr ()" and "fs_inv js st s'"
      and "fs_info_of js st s' = (fs_info_of js st s)(i \<mapsto> with_total (sum_sizes ps) x)"
proof -
  note i = fs_info_valid [OF assms(2)]
  note p = fs_invD(1) [OF assms(1)]
  let ?body = "\<lambda>p. sm_bind (sm_lift (upload_id_validate (info_id p))) (\<lambda>_.
     sm_bind (fs_io (fs_open (partial_data_path st (info_id p)))) (\<lambda>_.
     fs_io (fs_copy (partial_data_path st (info_id p)) (entry st (as_str i)))))"
  let ?s0 = "set_node (entry st (as_str i)) (File []) s"
  have no: "\<And>j. valid_id j \<Longrightarrow> as_str i \<noteq> info_name j" using i by simp
  obtain rl s1 where loop: "sm_for ps ?body ?s0 = (rl, s1)" by fastforce
  have "records_are js st (fs_info_of js st s) ?s0"
    using set_entry_inv [OF assms(1) no] by (simp add: records_are_def)
  with keepsD [OF keeps_for [of "records_are js st (fs_info_of js st s)" ?body ps]]
  have "records_are js st (fs_info_of js st s) (snd (sm_for ps ?body ?s0))"
    using keeps_copy_partial [OF p i] by blast
  with loop have s1: "fs_inv js st s1" "fs_info_of js st s1 = fs_info_of js st s"
    by (simp_all add: records_are_def)
  have flush: "fs_io fs_flush s1 = (Inr (), s1)"
    by (simp add: fs_io_def fs_flush_def syscall_healthy fs_invD(2) [OF s1(1)])
  have x: "fs_info_of js st s1 i = Some x" using s1(2) assms(2) by simp
  have run: "fs_concatenate js st i ps s =
      (if lookup s (entry st (as_str i)) = Some Dir then (Inl (Io eisdir), s) else
       case rl of Inl e \<Rightarrow> (Inl e, s1)
       | Inr u \<Rightarrow> write_info js st i (with_total (sum_sizes ps) x) s1)"
    using loop
    by (cases rl)
       (simp_all add: fs_concatenate_def Let_def data_path_eq [OF p i] sm_simps
         ensure_parent_entry [OF assms(1)] write_entry [OF assms(1)] flush
         read_info_some [OF s1(1) x] with_total_def)
  show ?thesis
  proof (cases rl)
    case (Inl e)
    with run assms(1,3) s1 failed show ?thesis by (simp split: if_splits)
  next
    case (Inr u)
    show ?thesis
    proof (cases "lookup s (entry st (as_str i)) = Some Dir")
      case True
      with run assms(1,3) failed show ?thesis by simp
    next
      case False
    with Inr run assms(3) have "write_info js st i (with_total (sum_sizes ps) x) s1 = (r, s')" by simp
    then show ?thesis
      by (rule write_info_cases [OF s1(1) i]) (use s1 failed joined in auto)
    qed
  qed
qed

section \<open>The contract\<close>

lemma fs_write_chunk_cases:
  assumes "fs_inv js st s" and "fs_info_of js st s i = Some x" and "fits_vec rd"
    and "fs_write_chunk js st i off rd s = (r, s')"
  obtains (failed) e where "r = Inl e" and "fs_inv js st s'"
      and "fs_info_of js st s' = fs_info_of js st s"
    | (written) b where "r = Inr (len_u64 b)" and "read_to_end rd = Inr b" and "fs_inv js st s'"
      and "info_offset x = off" and "chunk_fits x off (len_u64 b)"
      and "write_info js st i (x\<lparr>info_offset := off + len_u64 b\<rparr>)
             (set_node (entry st (part_name i (word_of_nat (length (part_names st s i)))))
                        (File b) s) = (Inr (), s')"
      and "fs_info_of js st s' =
             (fs_info_of js st s)(i \<mapsto> x\<lparr>info_offset := off + len_u64 b\<rparr>)"
proof -
  note i = fs_info_valid [OF assms(2)]
  note eq = fs_write_chunk_eq [OF assms(1,2), of off rd, unfolded assms(4)]
  show ?thesis
  proof (cases "info_offset x = off")
    case False
    with eq assms(1) failed show ?thesis by simp
  next
    case off: True
    show ?thesis
    proof (cases "read_all rd")
      case (Inl e)
      with eq off assms(1) failed show ?thesis by simp
    next
      case (Inr b)
      show ?thesis
      proof (cases "checked_add off (len_u64 b)")
        case None
        with eq off Inr assms(1) failed show ?thesis by simp
      next
        case (Some m)
        show ?thesis
        proof (cases "exceeds (info_size x) m")
          case (Inl e)
          with eq off Inr Some assms(1) failed show ?thesis by simp
        next
          case fits: (Inr u)
          let ?n = "part_name i (word_of_nat (length (part_names st s i)))"
          let ?s = "set_node (entry st ?n) (File b) s"
          have no: "\<And>j. valid_id j \<Longrightarrow> ?n \<noteq> info_name j" by simp
          note s = set_entry_inv [OF assms(1) no, of b]
          obtain w s2 where w: "write_info js st i (x\<lparr>info_offset := m\<rparr>) ?s = (w, s2)" by fastforce
          have m: "m = off + len_u64 b" using checked_add_SomeD(1) [OF Some] .
          have rs: "(r, s') = (case w of Inl e \<Rightarrow> (Inl e, s2) | Inr u \<Rightarrow> (Inr (len_u64 b), s2))"
            using eq off Inr Some fits w by (simp split: sum.splits)
          show ?thesis
          proof (cases w)
            case (Inl e)
            from w Inl have "s2 = ?s" by (cases rule: write_info_cases [OF s(1) i w]) auto
            with rs Inl s failed [of e] show ?thesis by simp
          next
            case ok: (Inr u)
            from w ok have "fs_inv js st s2" "fs_info_of js st s2 = (fs_info_of js st ?s)(i \<mapsto> x\<lparr>info_offset := m\<rparr>)"
              by (cases rule: write_info_cases [OF s(1) i w]; auto)+
            moreover have "read_to_end rd = Inr b" using Inr by (auto simp: read_all_def split: sum.splits)
            moreover have "chunk_fits x off (len_u64 b)"
              using Some fits m by (auto simp: chunk_fits_def exceeds_Inr)
            ultimately show ?thesis
              using rs ok s w m off by (intro written [of b]) simp_all
          qed
        qed
      qed
    qed
  qed
qed

interpretation file_store: upload_store "file_ops js st" "fs_info_of js st" "fs_inv js st"
  for js :: json_codec and st :: file_store
proof
  fix s x h s'
  assume a: "fs_inv js st s" "valid_id (info_id x)" "ds_create_upload (file_ops js st) x s = (Inr h, s')"
  obtain r s2 where w: "write_info js st (info_id x) x s = (r, s2)" by fastforce
  show "h = info_id x \<and> fs_inv js st s' \<and> fs_info_of js st s' = (fs_info_of js st s)(info_id x \<mapsto> x)"
    using a(3) by (cases rule: write_info_cases [OF a(1,2) w]) (auto simp: fs_create_eq [OF a(1,2)] w)
next
  fix s x e s'
  assume a: "fs_inv js st s" "valid_id (info_id x)" "ds_create_upload (file_ops js st) x s = (Inl e, s')"
  obtain r s2 where w: "write_info js st (info_id x) x s = (r, s2)" by fastforce
  show "fs_inv js st s' \<and> fs_info_of js st s' = fs_info_of js st s"
    using a by (cases rule: write_info_cases [OF a(1,2) w]) (auto simp: fs_create_eq [OF a(1,2)] w)
next
  fix s i x rd off n s'
  assume a: "fs_inv js st s" "fs_info_of js st s i = Some x" "fits_vec rd"
    "up_write_chunk (file_ops js st) i off rd s = (Inr n, s')"
  from a(4) have "fs_write_chunk js st i off rd s = (Inr n, s')" by simp
  then show "fs_inv js st s' \<and> (\<exists>b. read_to_end rd = Inr b \<and> n = len_u64 b) \<and> chunk_fits x off n
    \<and> fs_info_of js st s' = (fs_info_of js st s)(i \<mapsto> x\<lparr>info_offset := off + n\<rparr>)"
    by (cases rule: fs_write_chunk_cases [OF a(1-3)]) auto
next
  fix s i x rd off e s'
  assume a: "fs_inv js st s" "fs_info_of js st s i = Some x" "fits_vec rd"
    "up_write_chunk (file_ops js st) i off rd s = (Inl e, s')"
  from a(4) have "fs_write_chunk js st i off rd s = (Inl e, s')" by simp
  then show "fs_inv js st s' \<and> fs_info_of js st s' = fs_info_of js st s"
    by (cases rule: fs_write_chunk_cases [OF a(1-3)]) auto
next
  fix s i x res s'
  assume "fs_inv js st s" "fs_info_of js st s i = Some x" "up_finalize (file_ops js st) i s = (res, s')"
  then show "fs_inv js st s' \<and> fs_info_of js st s' = fs_info_of js st s"
    using fs_finalize_inv fs_info_valid by (metis file_ops_sel(5))
next
  fix s i x n u s'
  assume a: "fs_inv js st s" "fs_info_of js st s i = Some x"
    "up_declare_length (file_ops js st) i n s = (Inr u, s')"
  obtain r s2 where w: "write_info js st i (with_length n x) s = (r, s2)" by fastforce
  show "fs_inv js st s' \<and> info_size x = None
    \<and> fs_info_of js st s' = (fs_info_of js st s)(i \<mapsto> with_length n x)"
    using a(3)
    by (cases rule: write_info_cases [OF a(1) fs_info_valid [OF a(2)] w])
       (auto simp: fs_declare_eq [OF a(1,2)] w split: if_splits)
next
  fix s i x n e s'
  assume a: "fs_inv js st s" "fs_info_of js st s i = Some x"
    "up_declare_length (file_ops js st) i n s = (Inl e, s')"
  obtain r s2 where w: "write_info js st i (with_length n x) s = (r, s2)" by fastforce
  show "fs_inv js st s' \<and> fs_info_of js st s' = fs_info_of js st s"
    using a
    by (cases rule: write_info_cases [OF a(1) fs_info_valid [OF a(2)] w])
       (auto simp: fs_declare_eq [OF a(1,2)] w split: if_splits)
next
  fix s i x u s'
  assume "fs_inv js st s" "fs_info_of js st s i = Some x" "up_delete (file_ops js st) i s = (Inr u, s')"
  then show "fs_inv js st s' \<and> fs_info_of js st s' = (fs_info_of js st s)(i := None)"
    using fs_delete_inv [of js st s i u s'] fs_info_valid by simp
next
  fix s i x ps u s'
  assume a: "fs_inv js st s" "fs_info_of js st s i = Some x"
    "up_concatenate (file_ops js st) i ps s = (Inr u, s')"
  from a(3) have "fs_concatenate js st i ps s = (Inr u, s')" by simp
  then show "fs_inv js st s' \<and> (\<exists>n. fs_info_of js st s' = (fs_info_of js st s)(i \<mapsto> with_total n x))"
    by (cases rule: fs_concatenate_cases [OF a(1,2)]) auto
next
  fix s i x ps e s'
  assume a: "fs_inv js st s" "fs_info_of js st s i = Some x"
    "up_concatenate (file_ops js st) i ps s = (Inl e, s')"
  from a(3) have "fs_concatenate js st i ps s = (Inl e, s')" by simp
  then show "fs_inv js st s' \<and> fs_info_of js st s' = fs_info_of js st s"
    by (cases rule: fs_concatenate_cases [OF a(1,2)]) auto
next
  fix s i x res' s'
  assume a: "fs_inv js st s" "fs_info_of js st s i = Some x"
    "up_read_content (file_ops js st) i s = (res', s')"
  note p = data_path_eq [OF fs_invD(1) [OF a(1)] fs_info_valid [OF a(2)]]
  show "s' = s"
    using a(3) open_entry [OF a(1), of "as_str i"]
    by (auto simp: fs_read_content_def sm_simps read_info_some [OF a(1,2)] p
        try_exists_entry [OF a(1)] split: if_splits)
qed (simp_all add: fs_get_eq read_info_some)

end
