(* ===== verification/File_Parts.thy ===== *)
theory File_Parts
  imports File_Contract
begin

text \<open>
  The bytes of an unfinished upload of the file-system store: the chunks its part files hold, in
  the order of their numbers. What writing a chunk, finalizing and reading do to them, and that
  none of it touches another upload.
\<close>

section \<open>How the list of parts changes\<close>

lemma map_filter_append: "List.map_filter f (xs @ ys) = List.map_filter f xs @ List.map_filter f ys"
  by (simp add: List.map_filter_def)

lemma part_entries_set_other:
  assumes "part_index i n = None"
  shows "part_entries st (set_node (entry st n) v s) i = part_entries st s i"
proof (cases "lookup s (entry st n)")
  case None
  then show ?thesis
    using assms by (simp add: part_entries_def children_set_new map_filter_append List.map_filter_simps)
next
  case (Some v')
  then show ?thesis by (simp add: part_entries_def children_set_known)
qed

lemma part_entries_set_new:
  assumes "part_index i n = Some k" and "lookup s (entry st n) = None"
  shows "part_entries st (set_node (entry st n) v s) i = part_entries st s i @ [(k, n)]"
  using assms by (simp add: part_entries_def children_set_new map_filter_append List.map_filter_simps)

lemma map_filter_filter:
  "List.map_filter (\<lambda>x. map_option (\<lambda>k. (k, x)) (g x)) (filter P xs)
   = filter (P \<circ> snd) (List.map_filter (\<lambda>x. map_option (\<lambda>k. (k, x)) (g x)) xs)"
  by (induction xs) (auto simp: List.map_filter_simps split: option.split)

lemma part_entries_del:
  "part_entries st (del_node (entry st n) s) i = filter ((\<lambda>m. m \<noteq> n) \<circ> snd) (part_entries st s i)"
  by (simp add: part_entries_def children_del map_filter_filter)

lemma part_entries_dels:
  "part_entries st (fold (\<lambda>n. del_node (entry st n)) ns s) i
   = filter ((\<lambda>m. m \<notin> set ns) \<circ> snd) (part_entries st s i)"
  by (induction ns arbitrary: s) (simp_all add: part_entries_del o_def)

lemma sort_key_snoc:
  assumes "\<And>y. y \<in> set xs \<Longrightarrow> f y \<le> f x"
  shows "sort_key f (xs @ [x]) = sort_key f xs @ [x]"
proof -
  have ins: "insort_key f y (zs @ [x]) = insort_key f y zs @ [x]" if "f y \<le> f x" for y zs
    using that by (induction zs) auto
  show ?thesis using assms by (induction xs) (simp_all add: ins)
qed

section \<open>The chunks of an upload\<close>

definition has_parts :: "file_store \<Rightarrow> file_system \<Rightarrow> upload_id \<Rightarrow> bytes list \<Rightarrow> bool" where
  "has_parts st s i bs \<longleftrightarrow>
     length bs < 2 ^ 32
     \<and> part_names st s i = map (\<lambda>k. part_name i (word_of_nat k)) [0 ..< length bs]
     \<and> map (file_bytes st s) (part_names st s i) = bs"

lemma has_parts_assembled: "has_parts st s i bs \<Longrightarrow> assembled st s i = concat bs"
  unfolding has_parts_def assembled_def by (elim conjE) (simp only:)

lemma word_of_nat_32_less:
  "k < 2 ^ 32 \<Longrightarrow> l < 2 ^ 32 \<Longrightarrow> (word_of_nat k :: u32) \<le> word_of_nat l \<longleftrightarrow> k \<le> l"
  by (simp add: word_le_nat_alt unat_of_nat)

lemma word_of_nat_32_eq:
  "k < 2 ^ 32 \<Longrightarrow> l < 2 ^ 32 \<Longrightarrow> (word_of_nat k :: u32) = word_of_nat l \<longleftrightarrow> k = l"
  using word_of_nat_32_less [of k l] word_of_nat_32_less [of l k] by (auto intro: antisym)

lemma has_parts_entries:
  assumes "fs_inv js st s" and "has_parts st s i bs" and "(k, n) \<in> set (part_entries st s i)"
  obtains l where "l < length bs" and "k = word_of_nat l" and "n = part_name i k"
proof -
  have "n \<in> set (part_names st s i)"
    using assms(3) by (force simp: part_names_def)
  then obtain l where l: "l < length bs" "n = part_name i (word_of_nat l)"
    using assms(2) by (auto simp: has_parts_def)
  moreover have "part_index i n = Some k"
    using assms(3) by (simp add: part_entries_iff [OF assms(1)])
  ultimately show thesis using that [of l] by (simp add: part_index_part)
qed

lemma has_parts_fresh:
  assumes "fs_inv js st s" and "has_parts st s i bs" and "length bs \<le> k" and "k < 2 ^ 32"
  shows "lookup s (entry st (part_name i (word_of_nat k))) = None"
proof (rule ccontr)
  assume "lookup s (entry st (part_name i (word_of_nat k))) \<noteq> None"
  then have "(word_of_nat k, part_name i (word_of_nat k)) \<in> set (part_entries st s i)"
    by (simp add: part_entries_iff [OF assms(1)])
  then obtain l where "l < length bs" "(word_of_nat k :: u32) = word_of_nat l"
    using has_parts_entries [OF assms(1,2)] by blast
  moreover have "l < 2 ^ 32" using \<open>l < length bs\<close> assms(3,4) by linarith
  ultimately show False using word_of_nat_32_eq [of k l] assms(3,4) by simp
qed

text \<open>An entry that is not a part of the upload leaves its chunks alone.\<close>

lemma has_parts_set_other:
  assumes "part_index i n = None"
  shows "has_parts st (set_node (entry st n) v s) i bs = has_parts st s i bs"
proof -
  have names: "part_names st (set_node (entry st n) v s) i = part_names st s i"
    by (simp add: part_names_def part_entries_set_other [OF assms])
  have "m \<noteq> n" if "m \<in> set (map (\<lambda>k. part_name i (word_of_nat k)) [0 ..< length bs])" for m
    using that assms by (auto simp: part_index_part)
  then have "map (file_bytes st (set_node (entry st n) v s)) ns = map (file_bytes st s) ns"
    if "ns = map (\<lambda>k. part_name i (word_of_nat k)) [0 ..< length bs]" for ns
    using that by (intro map_cong) auto
  then show ?thesis
    unfolding has_parts_def names by metis
qed

text \<open>The next chunk.\<close>

lemma has_parts_write:
  assumes "fs_inv js st s" and "has_parts st s i bs" and "Suc (length bs) < 2 ^ 32"
  shows "has_parts st (set_node (entry st (part_name i (word_of_nat (length bs)))) (File b) s) i (bs @ [b])"
proof -
  let ?k = "word_of_nat (length bs) :: u32"
  let ?s = "set_node (entry st (part_name i ?k)) (File b) s"
  have fresh: "lookup s (entry st (part_name i ?k)) = None"
    using has_parts_fresh [OF assms(1,2)] assms(3) by simp
  have "fst y \<le> fst (?k, part_name i ?k)" if "y \<in> set (part_entries st s i)" for y
  proof -
    obtain k n where y: "y = (k, n)" by fastforce
    then obtain l where "l < length bs" "k = word_of_nat l"
      using has_parts_entries [OF assms(1,2), of k n] \<open>y \<in> _\<close> by blast
    then show ?thesis
      using assms(3) word_of_nat_32_less [of l "length bs"] by (simp add: y)
  qed
  then have names: "part_names st ?s i = part_names st s i @ [part_name i ?k]"
    by (simp add: part_names_def part_entries_set_new [OF part_index_own fresh] sort_key_snoc)
  have "file_bytes st ?s n = file_bytes st s n" if "n \<in> set (part_names st s i)" for n
    using part_names_iff [OF assms(1), of n i] that fresh by (cases "n = part_name i ?k") auto
  then have "map (file_bytes st ?s) (part_names st s i) = map (file_bytes st s) (part_names st s i)"
    by (intro map_cong) auto
  also have "\<dots> = bs" using assms(2) unfolding has_parts_def by blast
  finally have "map (file_bytes st ?s) (part_names st s i) = bs" .
  then show ?thesis
    using assms(2,3) unfolding has_parts_def names by (simp add: file_bytes_def)
qed

section \<open>Finalizing\<close>

definition data_bytes :: "file_store \<Rightarrow> file_system \<Rightarrow> upload_id \<Rightarrow> bytes option" where
  "data_bytes st s i =
     (case lookup s (entry st (as_str i)) of Some (File b) \<Rightarrow> Some b | _ \<Rightarrow> None)"

lemma data_bytes_set_other [simp]:
  "n \<noteq> as_str i \<Longrightarrow> data_bytes st (set_node (entry st n) v s) i = data_bytes st s i"
  by (simp add: data_bytes_def)

lemma finalize_parts:
  assumes "fs_inv js st s" and "valid_id i" and "fs_finalize st i s = (Inr u, s')"
  shows "data_bytes st s' i = Some (assembled st s i)"
    and "has_parts st s' i []"
    and "j \<noteq> i \<Longrightarrow> has_parts st s' j cs = has_parts st s j cs"
    and "j \<noteq> i \<Longrightarrow> data_bytes st s' j = data_bytes st s j \<or> \<not> valid_id j"
proof -
  let ?ns = "part_names st s i"
  let ?s1 = "set_node (entry st (as_str i)) (File (assembled st s i)) s"
  have s': "s' = fold (\<lambda>n. del_node (entry st n)) ?ns ?s1"
    using assms(3) by (simp add: fs_finalize_eq [OF assms(1,2)] split: if_splits)
  have other: "n \<noteq> as_str j" if "n \<in> set ?ns" "valid_id j" for n j
    using part_names_other(2) [OF assms(1) that(1)] that(2) by blast
  show "data_bytes st s' i = Some (assembled st s i)"
    using other assms(2) by (auto simp: data_bytes_def s' del_entries_lookup)
  have ent1: "part_entries st ?s1 j = part_entries st s j" for j
    by (rule part_entries_set_other) (simp add: assms(2))
  show "has_parts st s' i []"
    by (auto simp: has_parts_def part_names_def s' part_entries_dels ent1 filter_empty_conv)
  show "has_parts st s' j cs = has_parts st s j cs" if ne: "j \<noteq> i"
  proof -
    have out: "n \<notin> set ?ns \<and> n \<noteq> as_str i" if "part_index j n = Some k" for n k
    proof -
      have "part_index i n = None"
        using part_index_unique [OF _ that, of i] ne by (cases "part_index i n") auto
      then show ?thesis using that assms(2) by (auto simp: part_names_iff [OF assms(1)])
    qed
    have idx: "\<exists>k. part_index j (snd y) = Some k" if "y \<in> set (part_entries st s j)" for y
      using that part_entries_iff [OF assms(1), of "fst y" "snd y" j] by auto
    then have "part_entries st s' j = part_entries st s j"
      unfolding s' part_entries_dels ent1 using out by (auto simp: filter_id_conv)
    then have names: "part_names st s' j = part_names st s j" by (simp add: part_names_def)
    have "map (file_bytes st s') (part_names st s j) = map (file_bytes st s) (part_names st s j)"
    proof (rule map_cong [OF refl])
      fix n
      assume "n \<in> set (part_names st s j)"
      then obtain k where "part_index j n = Some k"
        by (auto simp: part_names_iff [OF assms(1)])
      from out [OF this] show "file_bytes st s' n = file_bytes st s n"
        by (simp add: file_bytes_def s' del_entries_lookup)
    qed
    then show ?thesis unfolding has_parts_def names by metis
  qed
  show "data_bytes st s' j = data_bytes st s j \<or> \<not> valid_id j" if "j \<noteq> i"
    using other that by (auto simp: data_bytes_def s' del_entries_lookup)
qed

section \<open>Reading\<close>

lemma fs_read_content_eq:
  assumes "fs_inv js st s" and "fs_info_of js st s i = Some x"
  shows "fs_read_content js st i s =
    (if \<not> is_complete x then Inl UploadNotReadyForDownload
     else (case data_bytes st s i of
             None \<Rightarrow> if lookup s (entry st (as_str i)) = None then Inl UploadNotReadyForDownload
                     else Inr [Fault eisdir]
           | Some d \<Rightarrow> Inr [Chunk d]), s)"
proof -
  note p = data_path_eq [OF fs_invD(1) [OF assms(1)] fs_info_valid [OF assms(2)]]
  note ex = sm_bind_Inr [where m = "fs_io (fs_try_exists (entry st (as_str i)))",
      OF try_exists_entry [OF assms(1)]]
  show ?thesis
  proof (cases "lookup s (entry st (as_str i))")
    case None
    from None show ?thesis
      by (simp add: fs_read_content_def sm_simps read_info_some [OF assms] p
          ex data_bytes_def)
  next
    case (Some n)
    then show ?thesis
      using open_entry [OF assms(1), of "as_str i"]
      by (cases n) (simp_all add: fs_read_content_def sm_simps read_info_some [OF assms] p
          ex data_bytes_def)
  qed
qed

end
