(* ===== verification/File_Demo.thy ===== *)
theory File_Demo
  imports File_Parts Memory_Server
begin

text \<open>
  A concrete server on the file-system store, for the witnesses: a codec of records that can be
  evaluated and is proved to read back what it writes, a directory with one open upload, and the
  handler of the in-memory witnesses on it.
\<close>

section \<open>A codec\<close>

text \<open>A list of strings: every character marked, every string closed.\<close>

definition put_string :: "string \<Rightarrow> bytes" where
  "put_string s = concat (map (\<lambda>c. [CHR ''x'', c]) s) @ ''e''"

definition put_strings :: "string list \<Rightarrow> bytes" where
  "put_strings ss = concat (map put_string ss)"

fun get_strings :: "string \<Rightarrow> bytes \<Rightarrow> string list option" where
  "get_strings acc [] = (if acc = [] then Some [] else None)"
| "get_strings acc [c] = (if c = CHR ''e'' then Some [acc] else None)"
| "get_strings acc (c # d # r) =
     (if c = CHR ''e'' then map_option (Cons acc) (get_strings [] (d # r))
      else get_strings (acc @ [d]) r)"

lemma get_put_string:
  "get_strings acc (put_string s @ t) = map_option (Cons (acc @ s)) (get_strings [] t)"
proof (induction s arbitrary: acc)
  case Nil
  show ?case by (cases t) (simp_all add: put_string_def)
next
  case (Cons c s)
  from Cons [of "acc @ [c]"] show ?case by (simp add: put_string_def)
qed

lemma get_put_strings [simp]: "get_strings [] (put_strings ss) = Some ss"
  by (induction ss) (simp_all add: put_strings_def get_put_string)

text \<open>The fields of a record.\<close>

definition put_opt :: "('a \<Rightarrow> string) \<Rightarrow> 'a option \<Rightarrow> string" where
  "put_opt f v = (case v of None \<Rightarrow> [] | Some x \<Rightarrow> CHR ''v'' # f x)"

definition get_opt :: "(string \<Rightarrow> 'a) \<Rightarrow> string \<Rightarrow> 'a option" where
  "get_opt g s = (case s of [] \<Rightarrow> None | c # r \<Rightarrow> Some (g r))"

lemma get_put_opt: "(\<And>x. g (f x) = x) \<Longrightarrow> get_opt g (put_opt f v) = v"
  by (cases v) (simp_all add: get_opt_def put_opt_def)

definition put_int :: "int \<Rightarrow> string" where
  "put_int t = (if t < 0 then CHR ''-'' # dec (nat (- t)) else CHR ''+'' # dec (nat t))"

definition get_int :: "string \<Rightarrow> int" where
  "get_int s = (case s of [] \<Rightarrow> 0 | c # r \<Rightarrow>
     if c = CHR ''-'' then - int (digits_val r) else int (digits_val r))"

lemma get_put_int: "get_int (put_int t) = t"
  by (simp add: get_int_def put_int_def)

definition put_word :: "u64 \<Rightarrow> string" where
  "put_word n = dec (unat n)"

definition get_word :: "string \<Rightarrow> u64" where
  "get_word s = word_of_nat (digits_val s)"

lemma get_put_word: "get_word (put_word n) = n"
  by (simp add: get_word_def put_word_def)

definition put_bool :: "bool \<Rightarrow> string" where
  "put_bool b = (if b then ''1'' else [])"

lemma put_bool_iff [simp]: "put_bool b \<noteq> [] \<longleftrightarrow> b"
  by (simp add: put_bool_def)

fun pairs :: "string list \<Rightarrow> (string \<times> string) list" where
  "pairs (a # b # r) = (a, b) # pairs r"
| "pairs _ = []"

lemma pairs_flat [simp]: "pairs (concat (map (\<lambda>(a, b). [f a, g b]) xs)) = map (map_prod f g) xs"
  by (induction xs) auto

definition put_info :: "upload_info \<Rightarrow> string + bytes" where
  "put_info x = Inr (put_strings
     [as_str (info_id x), put_opt put_word (info_size x), put_word (info_offset x),
      put_strings (concat (map (\<lambda>(k, v). [k, put_opt id v]) (info_metadata x))),
      put_bool (info_size_is_deferred x), put_opt put_int (info_expires_at x),
      put_bool (info_is_partial x), put_bool (info_is_final x),
      put_strings (map as_str (info_partial_uploads x)),
      put_strings (concat (map (\<lambda>(k, v). [k, v]) (info_storage x)))])"

definition get_list :: "bytes \<Rightarrow> string list" where
  "get_list b = (case get_strings [] b of Some ss \<Rightarrow> ss | None \<Rightarrow> [])"

definition get_info :: "bytes \<Rightarrow> string + upload_info" where
  "get_info b =
     (case get_strings [] b of
        Some [i, sz, off, md, df, ex, pa, fi, ps, sto] \<Rightarrow>
          Inr \<lparr>info_id = UploadId i, info_size = get_opt get_word sz, info_offset = get_word off,
               info_metadata = map (map_prod id (get_opt id)) (pairs (get_list md)),
               info_size_is_deferred = (df \<noteq> []), info_expires_at = get_opt get_int ex,
               info_is_partial = (pa \<noteq> []), info_is_final = (fi \<noteq> []),
               info_partial_uploads = map UploadId (get_list ps),
               info_storage = pairs (get_list sto)\<rparr>
      | _ \<Rightarrow> Inl ''not a record'')"

definition demo_codec :: json_codec where
  "demo_codec = \<lparr>to_json = put_info, from_json = get_info\<rparr>"

lemma demo_codec_ok: "codec_ok demo_codec"
proof -
  have "get_info (projr (put_info x)) = Inr x" for x
    using pairs_flat [of id id "info_storage x"] pairs_flat [of id "put_opt id" "info_metadata x"]
    by (simp add: get_info_def put_info_def get_list_def get_put_opt get_put_word get_put_int
        comp_def map_prod.compositionality case_prod_unfold map_idI map_prod.id)
  then show ?thesis
    by (auto simp: codec_ok_def demo_codec_def put_info_def)
qed

section \<open>A server\<close>

definition demo_store :: file_store where
  "demo_store = file_store_new [''data'']"

definition file_server :: "(file_system, held_set) tus_handler" where
  "file_server = tus_handler_new (file_ops demo_codec demo_store) (Some memory_locker_ops) demo_config"

text \<open>The directory with one upload of five bytes, none of them received.\<close>

definition file_world :: "(file_system, held_set) world" where
  "file_world =
     \<lparr>w_store = \<lparr>fs_nodes =
        [([''data''], Dir), ([''data'', ''locks''], Dir),
         ([''data'', ''a.info''],
            File (projr (put_info (upload_info_new (UploadId ''a'') (Some 5)))))],
        fs_faults = []\<rparr>,
      w_lock = {}, w_events = []\<rparr>"

definition file_step :: "req_env \<times> tus_request \<Rightarrow> (file_system, held_set) world
     \<Rightarrow> tus_response \<times> (file_system, held_set) world" where
  "file_step r w = handle demo_externals file_server (fst r) (snd r) w"

lemma file_server_sel [simp]:
  "h_store file_server = file_ops demo_codec demo_store" "h_config file_server = demo_config"
  "h_locker file_server = Some memory_locker_ops"
  by (simp_all add: file_server_def tus_handler_new_def)

lemma demo_store_dir [simp]: "store_dir demo_store = [''data'']"
  by code_simp

lemma demo_prefix_ok: "prefix_ok demo_store"
  by (simp add: demo_store_def prefix_ok_new)

text \<open>
  Worlds of these witnesses: the layout of \<open>fileloft-server\<close>, the directory of the store with the
  directory of the lock files in it, and files in the first.
\<close>

lemma file_inv_intro:
  assumes "fs_nodes s = ([''data''], Dir) # ([''data'', ''locks''], Dir) # map (\<lambda>(n, b). ([''data'', n], File b)) fs"
    and "fs_faults s = []" and "distinct (map fst fs)" and "''locks'' \<notin> fst ` set fs"
    and "list_all (\<lambda>(n, b). ends_with n ''.info'' \<longrightarrow> \<not> isl (get_info b)) fs"
  shows "fs_inv demo_codec demo_store s"
proof -
  have look: "lookup s (entry demo_store n)
      = (if n = ''locks'' then Some Dir else map_option File (map_of fs n))" for n
  proof -
    have "map_of (map (\<lambda>(n, b). ([''data'', n], File b)) fs) [''data'', n]
        = map_option File (map_of fs n)"
      by (induction fs) auto
    then show ?thesis by (simp add: lookup_def assms(1))
  qed
  have "is_dir s [''data'']"
    by (simp add: is_dir_def ancestors_def lookup_def assms(1) upt_rec)
  moreover have "distinct (map fst (fs_nodes s))"
  proof -
    have "map fst (map (\<lambda>(n, b). ([''data'', n], File b)) fs) = map (\<lambda>n. [''data'', n]) (map fst fs)"
      by auto
    then show ?thesis
      using assms(3,4) by (force simp: assms(1) distinct_map inj_on_def)
  qed
  moreover have "\<exists>x. get_info b = Inr x" if "map_of fs (info_name i) = Some b" for i b
  proof -
    have "ends_with (info_name i) ''.info''" by (simp add: ends_with_def info_name_def suffix_def)
    then have "\<not> isl (get_info b)"
      using map_of_SomeD [OF that] assms(5) by (auto simp: list_all_iff)
    then show ?thesis by (cases "get_info b") simp_all
  qed
  ultimately show ?thesis
    using assms(2) demo_codec_ok demo_prefix_ok look locks_name_free
    by (auto simp: fs_inv_def) (simp add: demo_codec_def)
qed

lemma file_world_inv: "fs_inv demo_codec demo_store (w_store file_world)"
proof (rule file_inv_intro)
  show "fs_nodes (w_store file_world) = ([''data''], Dir) # ([''data'', ''locks''], Dir) #
      map (\<lambda>(n, b). ([''data'', n], File b))
        [(''a.info'', projr (put_info (upload_info_new (UploadId ''a'') (Some 5))))]"
    by (simp add: file_world_def)
qed (code_simp, simp, code_simp, code_simp)

end
