(* ===== verification/Parted_Store.thy ===== *)
theory Parted_Store
  imports Tus_Refinement
begin

text \<open>
  The contract of a store that keeps every chunk as a part of its own and assembles the parts when the
  upload is complete, as the file-system store and the three object stores do; and what the request
  handlers make of it, proved once: a PATCH adds its body as the next part or assembles, and after a
  session of PATCH requests a download streams their bodies.
\<close>

section \<open>The contract\<close>

text \<open>
  \<open>parts s i bs\<close>: the chunks of upload \<open>i\<close> that are stored and not yet assembled are \<open>bs\<close>, in order.
  \<open>data s i\<close>: its assembled bytes, if any.
\<close>

locale parted_store = opened_store ops info_of inv
  for ops :: "'s datastore"
    and info_of :: "'s \<Rightarrow> upload_id \<Rightarrow> upload_info option"
    and inv :: "'s \<Rightarrow> bool" +
  fixes parts :: "'s \<Rightarrow> upload_id \<Rightarrow> bytes list \<Rightarrow> bool"
    and data :: "'s \<Rightarrow> upload_id \<Rightarrow> bytes option"
  assumes write_parts:
    "inv s \<Longrightarrow> info_of s i = Some x \<Longrightarrow> fits_vec rd \<Longrightarrow>
       up_write_chunk ops i off rd s = (Inr n, s') \<Longrightarrow> read_to_end rd = Inr b \<Longrightarrow>
       parts s i bs \<Longrightarrow> Suc (length bs) < 2 ^ 32 \<Longrightarrow>
       parts s' i (bs @ [b]) \<and> (\<forall>j. j \<noteq> i \<longrightarrow> parts s' j = parts s j)
       \<and> (\<forall>j. valid_id j \<longrightarrow> data s' j = data s j)"
    and declare_parts:
    "inv s \<Longrightarrow> info_of s i = Some x \<Longrightarrow> up_declare_length ops i m s = (Inr u, s') \<Longrightarrow>
       parts s' = parts s \<and> (\<forall>j. valid_id j \<longrightarrow> data s' j = data s j)"
    and finalize_data:
    "inv s \<Longrightarrow> info_of s i = Some x \<Longrightarrow> parts s i bs \<Longrightarrow> up_finalize ops i s = (Inr u, s') \<Longrightarrow>
       data s' i = Some (concat bs) \<and> parts s' i [] \<and> (\<forall>j. j \<noteq> i \<longrightarrow> parts s' j = parts s j)
       \<and> (\<forall>j. j \<noteq> i \<longrightarrow> valid_id j \<longrightarrow> data s' j = data s j)"
    and read_data:
    "inv s \<Longrightarrow> info_of s i = Some x \<Longrightarrow> is_complete x \<Longrightarrow> up_read_content ops i s = (Inr rd, s') \<Longrightarrow>
       data s i = Some d \<Longrightarrow> read_to_end rd = Inr d"

text \<open>A session of PATCH requests with bytes.\<close>

definition chunk_request :: "upload_id \<Rightarrow> req_env \<times> tus_request \<Rightarrow> bool" where
  "chunk_request i r \<longleftrightarrow>
     req_method (snd r) = PATCH \<and> request_id (snd r) = Inr i \<and> request_fits (snd r)
     \<and> body_bytes (snd r) \<noteq> []"

context parted_store
begin

section \<open>Chunks\<close>

lemma declares_parts:
  assumes "inv s" and "info_of s i = Some x" and "declares s i decl s'"
  shows "parts s' = parts s" and "valid_id j \<Longrightarrow> data s' j = data s j"
  using assms declare_parts [OF assms(1,2)] by (auto simp: declares_def split: option.splits)

lemma patch_step:
  assumes "h_store h = ops" and "inv (w_store w)" and "request_fits req"
    and "req_method req = PATCH" and "handle x h e req w = (resp, w')" and "resp_status resp = 204"
    and "request_id req = Inr i"
    and "parts (w_store w) i bs" and "Suc (length bs) < 2 ^ 32"
  shows "\<exists>y y'. info_of (w_store w) i = Some y \<and> inv (w_store w')
    \<and> (is_complete y \<longrightarrow> body_bytes req = [] \<and> is_complete y')
    \<and> info_of (w_store w') = (info_of (w_store w))(i \<mapsto> y')
    \<and> info_offset y' = info_offset y + len_u64 (body_bytes req)
    \<and> (if is_complete y'
       then data (w_store w') i = Some (concat bs @ body_bytes req) \<and> parts (w_store w') i []
       else data (w_store w') i = data (w_store w) i
            \<and> parts (w_store w') i (bs @ [body_bytes req]))
    \<and> (\<forall>j. j \<noteq> i \<longrightarrow> parts (w_store w') j = parts (w_store w) j)
    \<and> (\<forall>j. j \<noteq> i \<longrightarrow> valid_id j \<longrightarrow> data (w_store w') j = data (w_store w) j)"
proof -
  note i = request_id_valid [OF assms(7)]
  have "patch_handle x h e req w = (Inr resp, w')"
    using handle_success [OF assms(5)] assms(4,6) by (simp add: dispatch_def)
  then obtain off where lock: "with_lock h i (patch_locked x h e req off i) w = (Inr resp, w')"
    using assms(7) by (cases rule: patch_handle_lock) auto
  then obtain l w1 where run: "patch_locked x h e req off i (w\<lparr>w_lock := l\<rparr>) = (Inr resp, w1)"
    and st: "w_store w' = w_store w1"
    by (cases rule: with_lock_result) auto
  define wl where "wl = w\<lparr>w_lock := l\<rparr>"
  have I: "inv (w_store wl)" and sl: "w_store wl = w_store w"
    using assms(2) by (simp_all add: wl_def)
  obtain y decl b s1 rd s2 y' where
    p: "info_of (w_store wl) i = Some y" "info_offset y = off"
      "declares (w_store wl) i decl s1" "body_bytes req = b"
      "read_to_end rd = Inr b" "fits_vec rd" "up_write_chunk ops i off rd s1 = (Inr (len_u64 b), s2)"
      "inv s2" "y' = (info_after decl y)\<lparr>info_offset := off + len_u64 b\<rparr>"
      "info_of (w_store w1) = (info_of (w_store wl))(i \<mapsto> y')"
      "declared_info (h_config h) (req_headers req) y = Inr decl"
      "chunk_fits (info_after decl y) off (len_u64 b)" "inv (w_store w1)"
    and fin: "if is_complete y' then up_finalize ops i s2 = (Inr (), w_store w1)
              else w_store w1 = s2"
    by (rule patch_locked_ok [OF assms(1) I i assms(3) run [folded wl_def]]) auto
  have empty: "b = [] \<and> is_complete y'" if "is_complete y"
  proof -
    have none: "decl = None"
      using that p(11) by (cases decl) (auto simp: is_complete_iff dest: declared_info_SomeD)
    with that have "checked_add off (len_u64 b) \<noteq> None" "off + len_u64 b \<le> off"
      using that p(2,12) by (auto simp: chunk_fits_def is_complete_iff info_after_def)
    then have "unat (len_u64 b) = 0"
      by (auto simp: checked_add_def word_le_nat_alt unat_word_ariths split: if_splits)
    moreover have "length b < 2 ^ 64" using p(5,6) by (simp add: fits_vec_def)
    ultimately show ?thesis
      using unat_len_u64 [of b] that p(2) by (simp add: p(9) none is_complete_iff info_after_def)
  qed
  note d = declares_info [OF p(3) I p(1)]
  note frame1 = declares_parts [OF I p(1,3)]
  have hp: "parts s1 i bs" using assms(8) frame1(1) sl by simp
  have x1: "info_of s1 i = Some (info_after decl y)" by (simp add: d(2))
  note wr = write_parts [OF d(1) x1 p(6,7,5) hp assms(9)]
  from write_ok [OF d(1) x1 p(6,7)] have "info_of s2 i \<noteq> None" by auto
  then obtain x2 where x2: "info_of s2 i = Some x2" by auto
  have f: "(if is_complete y' then data (w_store w1) i = Some (concat (bs @ [b])) \<and> parts (w_store w1) i []
      else data (w_store w1) i = data s2 i \<and> parts (w_store w1) i (bs @ [b]))
    \<and> (\<forall>j. j \<noteq> i \<longrightarrow> parts (w_store w1) j = parts s2 j)
    \<and> (\<forall>j. j \<noteq> i \<longrightarrow> valid_id j \<longrightarrow> data (w_store w1) j = data s2 j)"
    using fin wr finalize_data [OF p(8) x2, of "bs @ [b]" "()" "w_store w1"] by (auto split: if_splits)
  have d1: "data s1 j = data (w_store w) j" if "valid_id j" for j
    using frame1(2) [OF that] sl by simp
  show ?thesis
    unfolding p(4) st
    by (rule exI [of _ y], rule exI [of _ y'])
       (use p(1,10,13) f wr d1 frame1(1) i sl empty in \<open>auto simp: p(2,9) split: if_splits\<close>)
qed

section \<open>Downloads\<close>

lemma get_data:
  assumes "h_store h = ops" and "inv (w_store w)"
    and "req_method req = GET" and "request_id req = Inr i"
    and "handle x h e req w = (resp, w')" and "resp_status resp = 200"
  obtains y rd where "info_of (w_store w) i = Some y" and "is_complete y"
    and "resp_body resp = Body_Reader rd"
    and "\<And>d. data (w_store w) i = Some d \<Longrightarrow> read_to_end rd = Inr d"
proof -
  note i = request_id_valid [OF assms(4)]
  have "get_handle x h e req w = (Inr resp, w')"
    using handle_success [OF assms(5)] assms(3,6) by (simp add: dispatch_def)
  then have "with_lock h i (get_locked x h e i) w = (Inr resp, w')"
    using assms(4) by (simp add: get_handle_def sm_simps split: if_splits)
  then obtain l w1 where run: "get_locked x h e i (w\<lparr>w_lock := l\<rparr>) = (Inr resp, w1)"
    by (cases rule: with_lock_result) auto
  have I: "inv (w_store (w\<lparr>w_lock := l\<rparr>))" using assms(2) by simp
  obtain v s' where v: "up_read_content ops i (w_store w) = (v, s')" by fastforce
  from run obtain y where y: "info_of (w_store w) i = Some y" "is_complete y"
    and m: "map_sum id (\<lambda>rd. response_with_body x (h_config h) 200 (get_headers x y) (Body_Reader rd)) v
        = Inr resp"
    by (auto simp: get_locked_spec [OF assms(1) I i] v split: option.splits if_splits)
  from m obtain rd where rd: "up_read_content ops i (w_store w) = (Inr rd, s')"
    and resp: "resp = response_with_body x (h_config h) 200 (get_headers x y) (Body_Reader rd)"
    by (cases v) (auto simp: v)
  then show thesis using that [OF y _ read_data [OF assms(2) y rd]] by (simp add: response_with_body_def)
qed

text \<open>What an upload holds: its assembled bytes once it is complete, its parts before.\<close>

definition holds :: "'s \<Rightarrow> upload_id \<Rightarrow> bytes list \<Rightarrow> bool" where
  "holds s i bs \<longleftrightarrow>
     (\<exists>y. info_of s i = Some y
        \<and> (if is_complete y then data s i = Some (concat bs) \<and> parts s i [] else parts s i bs))"

lemma holds_step:
  assumes "h_store h = ops" and "inv (w_store w)" and "chunk_request i r"
    and "handle x h (fst r) (snd r) w = (resp, w')" and "resp_status resp = 204"
    and "holds (w_store w) i bs" and "Suc (length bs) < 2 ^ 32"
  shows "inv (w_store w')" and "holds (w_store w') i (bs @ [body_bytes (snd r)])"
proof -
  have r: "request_fits (snd r)" "req_method (snd r) = PATCH" "request_id (snd r) = Inr i"
    "body_bytes (snd r) \<noteq> []"
    using assms(3) by (simp_all add: chunk_request_def)
  note step = patch_step [OF assms(1,2) r(1,2) assms(4,5) r(3)]
  obtain y where y: "info_of (w_store w) i = Some y"
    and hp: "if is_complete y then parts (w_store w) i [] else parts (w_store w) i bs"
    using assms(6) by (auto simp: holds_def split: if_splits)
  have "\<not> is_complete y"
  proof
    assume c: "is_complete y"
    with hp have "parts (w_store w) i []" by simp
    from step [OF this] y c r(4) show False by auto
  qed
  with hp have "parts (w_store w) i bs" by simp
  from step [OF this assms(7)] obtain y' where y': "inv (w_store w')"
    "info_of (w_store w') i = Some y'"
    "if is_complete y'
       then data (w_store w') i = Some (concat bs @ body_bytes (snd r)) \<and> parts (w_store w') i []
       else data (w_store w') i = data (w_store w) i
            \<and> parts (w_store w') i (bs @ [body_bytes (snd r)])"
    by auto
  then show "inv (w_store w')" by blast
  show "holds (w_store w') i (bs @ [body_bytes (snd r)])"
    using y'(2,3) by (auto simp: holds_def split: if_splits)
qed

lemma holds_session:
  assumes "h_store h = ops"
  shows "inv (w_store w) \<Longrightarrow> list_all (chunk_request i) rs \<Longrightarrow>
    handle_all x h rs w = (resps, w') \<Longrightarrow> list_all (\<lambda>r. resp_status r = 204) resps \<Longrightarrow>
    holds (w_store w) i bs \<Longrightarrow> length bs + length rs < 2 ^ 32 \<Longrightarrow>
    inv (w_store w') \<and> holds (w_store w') i (bs @ map (body_bytes \<circ> snd) rs)"
proof (induction rs arbitrary: w bs resps)
  case Nil
  then show ?case by simp
next
  case (Cons r rs)
  obtain resp w1 where h1: "handle x h (fst r) (snd r) w = (resp, w1)" by fastforce
  obtain resps1 where h2: "handle_all x h rs w1 = (resps1, w')" and resps: "resps = resp # resps1"
    using Cons.prems(3) h1 by (cases r) (auto split: prod.splits)
  have ok: "resp_status resp = 204" "list_all (\<lambda>r. resp_status r = 204) resps1"
    using Cons.prems(4) resps by simp_all
  have rr: "chunk_request i r" "list_all (chunk_request i) rs" using Cons.prems(2) by simp_all
  note st = holds_step [OF assms Cons.prems(1) rr(1) h1 ok(1) Cons.prems(5)]
  show ?case
    using Cons.IH [OF st(1) rr(2) h2 ok(2) st(2)] Cons.prems(6) by simp
qed

lemma session_download:
  assumes "h_store h = ops" and "inv (w_store w)"
    and "info_of (w_store w) i = Some y" and "\<not> is_complete y" and "parts (w_store w) i []"
    and "list_all (chunk_request i) rs" and "length rs < 2 ^ 32"
    and "handle_all x h rs w = (resps, w')" and "list_all (\<lambda>r. resp_status r = 204) resps"
    and "req_method req = GET" and "request_id req = Inr i"
    and "handle x h e req w' = (resp, w'')" and "resp_status resp = 200"
  shows "\<exists>rd. resp_body resp = Body_Reader rd
    \<and> read_to_end rd = Inr (concat (map (body_bytes \<circ> snd) rs))"
proof -
  have "holds (w_store w) i []" using assms(3-5) by (simp add: holds_def)
  from holds_session [OF assms(1,2,6,8,9) this] have "inv (w_store w')"
    and h: "holds (w_store w') i (map (body_bytes \<circ> snd) rs)"
    using assms(7) by simp_all
  from get_data [OF assms(1) this(1) assms(10-13)] obtain y' rd where
    "info_of (w_store w') i = Some y'" "is_complete y'" "resp_body resp = Body_Reader rd"
    "\<And>d. data (w_store w') i = Some d \<Longrightarrow> read_to_end rd = Inr d"
    by blast
  with h show ?thesis by (auto simp: holds_def)
qed

end

end
