(* ===== verification/File_Laws.thy ===== *)
theory File_Laws
  imports File_Demo Parted_Store
begin

text \<open>
  What requests do to the bytes of the file-system store: a PATCH adds its body as the next chunk,
  the last one assembles the file, a download streams it; names of different uploads never meet.
  And where the code fails its contract: a finished upload can be emptied.
\<close>

section \<open>Steps\<close>

lemma write_info_frame:
  assumes "fs_inv js st s" and "valid_id i" and "write_info js st i x s = (r, s')"
  shows "has_parts st s' j cs = has_parts st s j cs"
    and "valid_id j \<Longrightarrow> data_bytes st s' j = data_bytes st s j"
proof -
  have s': "s' = s \<or> (\<exists>b. s' = set_node (entry st (info_name i)) (File b) s)"
    using assms(3) by (auto simp: write_info_eq [OF assms(1,2)] split: sum.splits)
  then show "has_parts st s' j cs = has_parts st s j cs"
    by (elim disjE exE) (simp_all add: has_parts_set_other)
  show "data_bytes st s' j = data_bytes st s j" if "valid_id j"
    using s' data_not_info [OF that, of i] by (elim disjE exE) simp_all
qed

lemma declare_frame:
  assumes "fs_inv js st s" and "fs_info_of js st s i = Some x"
    and "fs_declare_length js st i n s = (Inr u, s')"
  shows "has_parts st s' j cs = has_parts st s j cs"
    and "valid_id j \<Longrightarrow> data_bytes st s' j = data_bytes st s j"
proof -
  note i = fs_info_valid [OF assms(2)]
  have "write_info js st i (with_length n x) s = (Inr u, s')"
    using assms(3) by (auto simp: fs_declare_eq [OF assms(1,2)] split: if_splits)
  then show "has_parts st s' j cs = has_parts st s j cs"
    and "valid_id j \<Longrightarrow> data_bytes st s' j = data_bytes st s j"
    using write_info_frame [OF assms(1) i] by blast+
qed

lemma write_chunk_parts:
  assumes "fs_inv js st s" and "fs_info_of js st s i = Some x" and "fits_vec rd"
    and "fs_write_chunk js st i off rd s = (Inr n, s')" and "read_to_end rd = Inr b"
    and "has_parts st s i bs" and "Suc (length bs) < 2 ^ 32"
  shows "has_parts st s' i (bs @ [b])"
    and "j \<noteq> i \<Longrightarrow> has_parts st s' j cs = has_parts st s j cs"
    and "valid_id j \<Longrightarrow> data_bytes st s' j = data_bytes st s j"
proof -
  note i = fs_info_valid [OF assms(2)]
  let ?n = "part_name i (word_of_nat (length (part_names st s i)))"
  let ?s = "set_node (entry st ?n) (File b) s"
  have w: "write_info js st i (x\<lparr>info_offset := off + len_u64 b\<rparr>) ?s = (Inr (), s')"
    using assms(4) by (cases rule: fs_write_chunk_cases [OF assms(1-3)]) (use assms(5) in auto)
  have no: "\<And>j. valid_id j \<Longrightarrow> ?n \<noteq> info_name j" by simp
  note frame = write_info_frame [OF set_entry_inv(1) [OF assms(1) no] i w]
  have "length (part_names st s i) = length bs"
    using assms(6) unfolding has_parts_def by (metis length_map)
  then show "has_parts st s' i (bs @ [b])"
    using frame(1) has_parts_write [OF assms(1,6,7), of b] by simp
  show "j \<noteq> i \<Longrightarrow> has_parts st s' j cs = has_parts st s j cs"
    using frame(1) by (simp add: has_parts_set_other part_index_part)
  show "valid_id j \<Longrightarrow> data_bytes st s' j = data_bytes st s j"
    using frame(2) by simp
qed

section \<open>The contract of parts\<close>

interpretation file_parts:
  parted_store "file_ops js st" "fs_info_of js st" "fs_inv js st" "has_parts st" "data_bytes st"
  for js st
proof
  fix s i x rd off n s' b bs
  assume a: "fs_inv js st s" "fs_info_of js st s i = Some x" "fits_vec rd"
    "up_write_chunk (file_ops js st) i off rd s = (Inr n, s')" "read_to_end rd = Inr b"
    "has_parts st s i bs" "Suc (length bs) < 2 ^ 32"
  note w = write_chunk_parts [OF a(1-3) a(4) [unfolded file_ops_sel] a(5-7)]
  show "has_parts st s' i (bs @ [b]) \<and> (\<forall>j. j \<noteq> i \<longrightarrow> has_parts st s' j = has_parts st s j)
       \<and> (\<forall>j. valid_id j \<longrightarrow> data_bytes st s' j = data_bytes st s j)"
    using w by (simp add: fun_eq_iff)
next
  fix s i x m u s'
  assume a: "fs_inv js st s" "fs_info_of js st s i = Some x"
    "up_declare_length (file_ops js st) i m s = (Inr u, s')"
  note d = declare_frame [OF a(1,2) a(3) [unfolded file_ops_sel]]
  show "has_parts st s' = has_parts st s
       \<and> (\<forall>j. valid_id j \<longrightarrow> data_bytes st s' j = data_bytes st s j)"
    using d by (simp add: fun_eq_iff)
next
  fix s i x bs u s'
  assume a: "fs_inv js st s" "fs_info_of js st s i = Some x" "has_parts st s i bs"
    "up_finalize (file_ops js st) i s = (Inr u, s')"
  note f = finalize_parts [OF a(1) fs_info_valid [OF a(2)], of u s'] has_parts_assembled [OF a(3)]
  show "data_bytes st s' i = Some (concat bs) \<and> has_parts st s' i []
       \<and> (\<forall>j. j \<noteq> i \<longrightarrow> has_parts st s' j = has_parts st s j)
       \<and> (\<forall>j. j \<noteq> i \<longrightarrow> valid_id j \<longrightarrow> data_bytes st s' j = data_bytes st s j)"
    using f a(3,4) by (simp add: fun_eq_iff) metis
next
  fix s i x rd s' d
  assume a: "fs_inv js st s" "fs_info_of js st s i = Some x" "is_complete x"
    "up_read_content (file_ops js st) i s = (Inr rd, s')" "data_bytes st s i = Some d"
  then show "read_to_end rd = Inr d"
    by (auto simp: fs_read_content_eq [OF a(1,2)] split: option.splits)
qed

section \<open>Chunks\<close>

text \<open>
  C13. A PATCH answered 204 on the file-system server, for an upload whose part files hold the chunks
  received so far: the body is the next chunk; if that completes the upload, its file is the
  concatenation of all chunks in order and no part is left, otherwise the body is stored as the next
  part and the file is as before. The record advances by the length of the body, and nothing of any
  other upload changes.
\<close>

theorem file_patch_appends:
  assumes "h_store h = file_ops js st" and "fs_inv js st (w_store w)" and "request_fits req"
    and "req_method req = PATCH" and "handle x h e req w = (resp, w')" and "resp_status resp = 204"
    and "request_id req = Inr i"
    and "has_parts st (w_store w) i bs" and "Suc (length bs) < 2 ^ 32"
  shows "\<exists>y y'. fs_info_of js st (w_store w) i = Some y
    \<and> fs_info_of js st (w_store w') = (fs_info_of js st (w_store w))(i \<mapsto> y')
    \<and> info_offset y' = info_offset y + len_u64 (body_bytes req)
    \<and> (if is_complete y'
       then data_bytes st (w_store w') i = Some (concat bs @ body_bytes req)
            \<and> has_parts st (w_store w') i []
       else data_bytes st (w_store w') i = data_bytes st (w_store w) i
            \<and> has_parts st (w_store w') i (bs @ [body_bytes req]))
    \<and> (\<forall>j cs. j \<noteq> i \<longrightarrow> has_parts st (w_store w') j cs = has_parts st (w_store w) j cs)
    \<and> (\<forall>j. j \<noteq> i \<longrightarrow> valid_id j \<longrightarrow> data_bytes st (w_store w') j = data_bytes st (w_store w) j)"
  using file_parts.patch_step [OF assms]
  by (elim exE conjE, intro exI conjI allI impI) (assumption | simp)+

theorem file_patch_appends_witness:
  "data_bytes demo_store (w_store (snd (file_step (demo_patch ''a'' ''0'' ''abcde'') file_world)))
     (UploadId ''a'') = Some ''abcde''"
proof -
  define r where "r = demo_patch ''a'' ''0'' ''abcde''"
  define w where "w = file_world"
  have "resp_status (fst (file_step r w)) = 204" unfolding r_def w_def by code_simp
  moreover have "request_fits (snd r)" "req_method (snd r) = PATCH" "body_bytes (snd r) = ''abcde''"
    "request_id (snd r) = Inr (UploadId ''a'')"
    unfolding r_def by code_simp+
  moreover have "fs_inv demo_codec demo_store (w_store w)" unfolding w_def by (rule file_world_inv)
  moreover have "has_parts demo_store (w_store w) (UploadId ''a'') []" unfolding w_def by code_simp
  moreover have "map_option is_complete (fs_info_of demo_codec demo_store
      (w_store (snd (file_step r w))) (UploadId ''a'')) = Some True"
    unfolding r_def w_def by code_simp
  ultimately have "data_bytes demo_store (w_store (snd (file_step r w))) (UploadId ''a'') = Some ''abcde''"
    using file_patch_appends [of file_server demo_codec demo_store w "snd r" demo_externals "fst r"
        "fst (file_step r w)" "snd (file_step r w)" "UploadId ''a''" "[]"]
    by (auto simp: file_step_def)
  then show ?thesis by (simp add: r_def w_def)
qed

section \<open>Downloads\<close>

text \<open>
  C14. A download from the file-system server after any session of PATCH requests with bytes, each
  answered 204, on an upload that had received nothing: a GET answered 200 streams the bodies of
  those requests, all of them, in order.
\<close>

theorem file_downloads_deliver:
  assumes "h_store h = file_ops js st" and "fs_inv js st (w_store w)"
    and "fs_info_of js st (w_store w) i = Some y" and "\<not> is_complete y"
    and "has_parts st (w_store w) i []"
    and "list_all (chunk_request i) rs" and "length rs < 2 ^ 32"
    and "handle_all x h rs w = (resps, w')" and "list_all (\<lambda>r. resp_status r = 204) resps"
    and "req_method req = GET" and "request_id req = Inr i"
    and "handle x h e req w' = (resp, w'')" and "resp_status resp = 200"
  shows "\<exists>rd. resp_body resp = Body_Reader rd
    \<and> read_to_end rd = Inr (concat (map (body_bytes \<circ> snd) rs))"
  by (rule file_parts.session_download [OF assms])

theorem file_downloads_deliver_witness:
  "\<exists>rd. resp_body (fst (file_step (demo_plain GET ''a'') (snd (handle_all demo_externals file_server
          [demo_patch ''a'' ''0'' ''abc'', demo_patch ''a'' ''3'' ''de''] file_world))))
        = Body_Reader rd \<and> read_to_end rd = Inr ''abcde''"
proof -
  define w where "w = file_world"
  define rs where "rs = [demo_patch ''a'' ''0'' ''abc'', demo_patch ''a'' ''3'' ''de'']"
  define res where "res = handle_all demo_externals file_server rs w"
  define out where "out = file_step (demo_plain GET ''a'') (snd res)"
  have info: "map_option is_complete (fs_info_of demo_codec demo_store (w_store w) (UploadId ''a''))
      = Some False"
    unfolding w_def by code_simp
  have "fs_inv demo_codec demo_store (w_store w)" unfolding w_def by (rule file_world_inv)
  moreover have "has_parts demo_store (w_store w) (UploadId ''a'') []" unfolding w_def by code_simp
  moreover have "list_all (chunk_request (UploadId ''a'')) rs" "length rs < 2 ^ 32"
    "concat (map (body_bytes \<circ> snd) rs) = ''abcde''"
    unfolding rs_def by code_simp+
  moreover have "list_all (\<lambda>r. resp_status r = 204) (fst res)" "resp_status (fst out) = 200"
    unfolding out_def res_def rs_def w_def by code_simp+
  moreover have "req_method (snd (demo_plain GET ''a'')) = GET"
    "request_id (snd (demo_plain GET ''a'')) = Inr (UploadId ''a'')"
    by code_simp+
  ultimately have "\<exists>rd. resp_body (fst out) = Body_Reader rd \<and> read_to_end rd = Inr ''abcde''"
    using info file_downloads_deliver [of file_server demo_codec demo_store w "UploadId ''a''" _ rs
        demo_externals "fst res" "snd res" "snd (demo_plain GET ''a'')"
        "fst (demo_plain GET ''a'')" "fst out" "snd out"]
    by (auto simp: res_def out_def file_step_def)
  then show ?thesis by (simp add: out_def res_def w_def rs_def)
qed

section \<open>A finished upload emptied\<close>

text \<open>
  A defect: a PATCH with no bytes on an upload that is already complete, answered 204, leaves
  its file empty, whatever it held. (Its parts are gone, and \<open>finalize\<close> assembles none.)
\<close>

theorem file_empty_patch_truncates:
  assumes "h_store h = file_ops js st" and "fs_inv js st (w_store w)" and "request_fits req"
    and "req_method req = PATCH" and "handle x h e req w = (resp, w')" and "resp_status resp = 204"
    and "request_id req = Inr i" and "fs_info_of js st (w_store w) i = Some y" and "is_complete y"
    and "has_parts st (w_store w) i []"
  shows "data_bytes st (w_store w') i = Some []"
  using file_parts.patch_step [OF assms(1-7,10)] assms(8,9) by auto

definition finished_world :: "(file_system, held_set) world" where
  "finished_world =
     \<lparr>w_store = \<lparr>fs_nodes =
        [([''data''], Dir), ([''data'', ''locks''], Dir),
         ([''data'', ''a.info''],
            File (projr (put_info ((upload_info_new (UploadId ''a'') (Some 5))\<lparr>info_offset := 5\<rparr>)))),
         ([''data'', ''a''], File ''abcde'')],
        fs_faults = []\<rparr>,
      w_lock = {}, w_events = []\<rparr>"

lemma finished_world_inv: "fs_inv demo_codec demo_store (w_store finished_world)"
proof (rule file_inv_intro)
  show "fs_nodes (w_store finished_world) = ([''data''], Dir) # ([''data'', ''locks''], Dir) #
      map (\<lambda>(n, b). ([''data'', n], File b))
        [(''a.info'', projr (put_info ((upload_info_new (UploadId ''a'') (Some 5))\<lparr>info_offset := 5\<rparr>))),
         (''a'', ''abcde'')]"
    by (simp add: finished_world_def)
qed (code_simp, simp, code_simp, code_simp)

theorem file_empty_patch_truncates_witness:
  "data_bytes demo_store (w_store finished_world) (UploadId ''a'') = Some ''abcde''
   \<and> data_bytes demo_store (w_store (snd (file_step (demo_patch ''a'' ''5'' []) finished_world)))
       (UploadId ''a'') = Some []"
proof -
  define w where "w = finished_world"
  define r where "r = demo_patch ''a'' ''5'' []"
  have "resp_status (fst (file_step r w)) = 204" unfolding r_def w_def by code_simp
  moreover have "request_fits (snd r)" "req_method (snd r) = PATCH"
    "request_id (snd r) = Inr (UploadId ''a'')"
    unfolding r_def by code_simp+
  moreover have "fs_inv demo_codec demo_store (w_store w)" unfolding w_def by (rule finished_world_inv)
  moreover have "has_parts demo_store (w_store w) (UploadId ''a'') []" unfolding w_def by code_simp
  moreover have "map_option is_complete (fs_info_of demo_codec demo_store (w_store w) (UploadId ''a''))
      = Some True"
    unfolding w_def by code_simp
  ultimately have "data_bytes demo_store (w_store (snd (file_step r w))) (UploadId ''a'') = Some []"
    using file_empty_patch_truncates [of file_server demo_codec demo_store w "snd r" demo_externals
        "fst r" "fst (file_step r w)" "snd (file_step r w)" "UploadId ''a''"]
    by (auto simp: file_step_def)
  moreover have "data_bytes demo_store (w_store w) (UploadId ''a'') = Some ''abcde''"
    unfolding w_def by code_simp
  ultimately show ?thesis by (simp add: r_def w_def)
qed

section \<open>Names\<close>

text \<open>The files the store makes for an upload.\<close>

datatype store_file = Record upload_id | Assembled upload_id | Part upload_id u32

fun owner :: "store_file \<Rightarrow> upload_id" where
  "owner (Record i) = i"
| "owner (Assembled i) = i"
| "owner (Part i k) = i"

fun file_path :: "file_store \<Rightarrow> store_file \<Rightarrow> path" where
  "file_path st (Record i) = info_path st i"
| "file_path st (Assembled i) = data_path st i"
| "file_path st (Part i k) = part_path st i k"

text \<open>
  C15. Files of valid identifiers stay in the directory of the store, one level deep, and no file of
  one upload is a file of another: records, assembled bytes and parts never collide, whatever the
  identifiers.
\<close>

theorem file_names_disjoint:
  assumes "valid_id (owner f)" and "valid_id (owner g)"
  shows "(\<exists>n. file_path (with_prefix root pre) f = store_dir (with_prefix root pre) @ [n]
            \<and> n \<noteq> [] \<and> CHR ''/'' \<notin> set n \<and> n \<noteq> ''..'')
    \<and> (file_path (with_prefix root pre) f = file_path (with_prefix root pre) g \<longrightarrow> f = g)"
proof -
  note p = prefix_ok_with [of root pre]
  note eqs = info_path_eq [OF p] data_path_eq [OF p] part_path_eq [OF p]
  have "as_str i \<noteq> ''..''" if "valid_id i" for i
    using that by (auto simp: upload_id_validate_def validate_str_def)
  then have "\<exists>n. file_path (with_prefix root pre) f = store_dir (with_prefix root pre) @ [n]
      \<and> n \<noteq> [] \<and> CHR ''/'' \<notin> set n \<and> n \<noteq> ''..''"
    using assms(1) valid_no_slash [OF assms(1)] valid_idD(1) [OF assms(1)] dec_no_slash
    by (cases f) (auto simp: eqs info_name_def part_name_def append_eq_Cons_conv)
  moreover have "f = g" if "file_path (with_prefix root pre) f = file_path (with_prefix root pre) g"
    using that assms names_distinct by (cases f; cases g) (auto simp: eqs)
  ultimately show ?thesis by blast
qed

theorem file_names_disjoint_witness:
  "file_path (with_prefix [''data''] ''up'') (Part (UploadId ''a'') 0)
     \<noteq> file_path (with_prefix [''data''] ''up'') (Assembled (UploadId ''a_part_x''))"
proof -
  have "valid_id (UploadId ''a'')" "valid_id (UploadId ''a_part_x'')" by code_simp+
  then show ?thesis
    using file_names_disjoint [of "Part (UploadId ''a'') 0" "Assembled (UploadId ''a_part_x'')"
        "[''data'']" "''up''"] by auto
qed

end
