(* ===== verification/File_Final.thy ===== *)
theory File_Final
  imports File_Laws Server_Laws
begin

text \<open>
  Final uploads on the file-system store: \<open>concatenate\<close> writes the files of the partial uploads one
  after the other; the POST that asked for it then finalizes the new upload, which has no parts, and
  so empties the file it has just written.
\<close>

section \<open>The bytes of a concatenation\<close>

lemma copy_partials:
  assumes "fs_inv js st s" and "valid_id i" and "lookup s (entry st (as_str i)) = Some (File d)"
    and "\<forall>p \<in> set ps. info_id p \<noteq> i"
    and "sm_for ps (\<lambda>p. sm_bind (sm_lift (upload_id_validate (info_id p))) (\<lambda>_.
           sm_bind (fs_io (fs_open (data_path st (info_id p)))) (\<lambda>_.
           fs_io (fs_copy (data_path st (info_id p)) (entry st (as_str i)))))) s = (Inr (), s')"
  shows "\<exists>ds. list_all2 (\<lambda>p b. data_bytes st s (info_id p) = Some b) ps ds
    \<and> s' = set_node (entry st (as_str i)) (File (d @ concat ds)) s"
  using assms
proof (induction ps arbitrary: s d)
  case Nil
  then show ?case by (simp add: sm_simps set_node_same)
next
  case (Cons p ps)
  note I = Cons.prems(1) and pre = fs_invD(1) [OF Cons.prems(1)]
  let ?j = "info_id p"
  have j: "valid_id ?j"
    using Cons.prems(5) by (cases "upload_id_validate ?j") (auto simp: sm_bind_def sm_lift_def)
  note pj = data_path_eq [OF pre j]
  obtain b where b: "lookup s (entry st (as_str ?j)) = Some (File b)"
  proof (cases "lookup s (entry st (as_str ?j))")
    case None
    then have "fs_io (fs_open (entry st (as_str ?j))) s = (Inl (Io enoent), s)"
      by (simp add: fs_io_def fs_open_def syscall_healthy fs_invD(2) [OF I]
          path_error_child [OF fs_invD(3) [OF I]])
    with Cons.prems(5) j show ?thesis by (simp add: sm_bind_def sm_lift_def pj)
  next
    case (Some n)
    have "lookup s (entry st (as_str ?j)) \<noteq> Some Dir"
    proof
      assume dir: "lookup s (entry st (as_str ?j)) = Some Dir"
      then have "fs_io (fs_copy (entry st (as_str ?j)) (entry st (as_str i))) s = (Inl (Io eisdir), s)"
        by (simp add: fs_io_def fs_copy_def syscall_healthy fs_invD(2) [OF I])
      with Cons.prems(5) j dir show False
        using open_entry [OF I, of "as_str ?j"] by (simp add: sm_bind_def sm_lift_def pj)
    qed
    with Some that show ?thesis by (cases n) auto
  qed
  let ?s = "set_node (entry st (as_str i)) (File (d @ b)) s"
  have step: "sm_bind (sm_lift (upload_id_validate ?j)) (\<lambda>_.
         sm_bind (fs_io (fs_open (data_path st ?j))) (\<lambda>_.
         fs_io (fs_copy (data_path st ?j) (entry st (as_str i))))) s = (Inr (), ?s)"
    using open_entry [OF I, of "as_str ?j"] copy_entry [OF I, of "as_str ?j" "as_str i" d]
      b Cons.prems(3) j
    by (simp add: sm_simps pj file_bytes_def)
  have no: "\<And>j. valid_id j \<Longrightarrow> as_str i \<noteq> info_name j" using Cons.prems(2) by simp
  have rest: "sm_for ps (\<lambda>p. sm_bind (sm_lift (upload_id_validate (info_id p))) (\<lambda>_.
           sm_bind (fs_io (fs_open (data_path st (info_id p)))) (\<lambda>_.
           fs_io (fs_copy (data_path st (info_id p)) (entry st (as_str i)))))) ?s = (Inr (), s')"
    using Cons.prems(5) sm_for_step [where f = "\<lambda>p. sm_bind (sm_lift (upload_id_validate (info_id p))) (\<lambda>_.
           sm_bind (fs_io (fs_open (data_path st (info_id p)))) (\<lambda>_.
           fs_io (fs_copy (data_path st (info_id p)) (entry st (as_str i)))))", OF step] by simp
  obtain ds where ds: "list_all2 (\<lambda>p b. data_bytes st ?s (info_id p) = Some b) ps ds"
    and s': "s' = set_node (entry st (as_str i)) (File ((d @ b) @ concat ds)) ?s"
    using Cons.IH [OF set_entry_inv(1) [OF I no] Cons.prems(2) _ _ rest] Cons.prems(4) by auto
  have "list_all2 (\<lambda>p b. data_bytes st s (info_id p) = Some b) ps ds"
    using ds by (rule list.rel_mono_strong) (use Cons.prems(4) in auto)
  then show ?case
    using b s' by (intro exI [of _ "b # ds"]) (simp add: data_bytes_def)
qed

text \<open>
  C16. \<open>concatenate\<close> on the file-system store, when it succeeds: the file of the final upload holds
  the bytes of the files of the partial uploads, in the order they were named, the record says
  final and gives the sum of the declared sizes as size and offset, and no other record, file or
  part changes.
\<close>

theorem file_concatenation_assembles:
  assumes "fs_inv js st s" and "fs_info_of js st s i = Some x" and "\<forall>p \<in> set ps. info_id p \<noteq> i"
    and "up_concatenate (file_ops js st) i ps s = (Inr (), s')"
  shows "\<exists>ds. list_all2 (\<lambda>p b. data_bytes st s (info_id p) = Some b) ps ds
    \<and> data_bytes st s' i = Some (concat ds)
    \<and> fs_info_of js st s' = (fs_info_of js st s)(i \<mapsto> with_total (sum_sizes ps) x)
    \<and> (\<forall>j cs. has_parts st s' j cs = has_parts st s j cs)
    \<and> (\<forall>j. j \<noteq> i \<longrightarrow> valid_id j \<longrightarrow> data_bytes st s' j = data_bytes st s j)"
proof -
  note i = fs_info_valid [OF assms(2)]
  note p = fs_invD(1) [OF assms(1)]
  let ?body = "\<lambda>p. sm_bind (sm_lift (upload_id_validate (info_id p))) (\<lambda>_.
     sm_bind (fs_io (fs_open (data_path st (info_id p)))) (\<lambda>_.
     fs_io (fs_copy (data_path st (info_id p)) (entry st (as_str i)))))"
  let ?s0 = "set_node (entry st (as_str i)) (File []) s"
  have no: "\<And>j. valid_id j \<Longrightarrow> as_str i \<noteq> info_name j" using i by simp
  note s0 = set_entry_inv [OF assms(1) no, of "[]"]
  have nodir: "lookup s (entry st (as_str i)) \<noteq> Some Dir"
    using assms(4)
    by (auto simp: fs_concatenate_def Let_def data_path_eq [OF p i] sm_simps
        ensure_parent_entry [OF assms(1)] write_entry [OF assms(1)])
  have run: "sm_bind (sm_for ps ?body) (\<lambda>_. sm_bind (fs_io fs_flush) (\<lambda>_.
      sm_bind (read_info js st i) (\<lambda>info. write_info js st i (with_total (sum_sizes ps) info)))) ?s0
    = (Inr (), s')"
    using assms(4)
    by (simp add: fs_concatenate_def Let_def data_path_eq [OF p i] sm_simps
        ensure_parent_entry [OF assms(1)] write_entry [OF assms(1)] nodir with_total_def)
  then obtain s1 where loop: "sm_for ps ?body ?s0 = (Inr (), s1)"
    and rest: "sm_bind (fs_io fs_flush) (\<lambda>_.
      sm_bind (read_info js st i) (\<lambda>info. write_info js st i (with_total (sum_sizes ps) info))) s1
      = (Inr (), s')"
    by (rule sm_bind_InrE) simp
  obtain ds where ds: "list_all2 (\<lambda>p b. data_bytes st ?s0 (info_id p) = Some b) ps ds"
    and s1: "s1 = set_node (entry st (as_str i)) (File (concat ds)) s"
    using copy_partials [OF s0(1) i _ assms(3) loop, of "[]"] by auto
  note I1 = set_entry_inv [OF assms(1) no, of "concat ds", folded s1]
  have x: "fs_info_of js st s1 i = Some x" using I1(2) assms(2) by simp
  have flush: "fs_io fs_flush s1 = (Inr (), s1)"
    by (simp add: fs_io_def fs_flush_def syscall_healthy fs_invD(2) [OF I1(1)])
  have w: "write_info js st i (with_total (sum_sizes ps) x) s1 = (Inr (), s')"
    using rest by (simp add: sm_simps flush read_info_some [OF I1(1) x])
  note fr = write_info_frame [OF I1(1) i w]
  have "list_all2 (\<lambda>p b. data_bytes st s (info_id p) = Some b) ps ds"
    using ds by (rule list.rel_mono_strong) (use assms(3) in auto)
  moreover have "data_bytes st s' i = Some (concat ds)"
    using fr(2) i by (simp add: s1 data_bytes_def)
  moreover have "fs_info_of js st s' = (fs_info_of js st s)(i \<mapsto> with_total (sum_sizes ps) x)"
    using w I1(2) by (cases rule: write_info_cases [OF I1(1) i w]) auto
  moreover have "has_parts st s' j cs = has_parts st s j cs" for j cs
    using fr(1) i by (simp add: s1 has_parts_set_other)
  moreover have "data_bytes st s' j = data_bytes st s j" if "j \<noteq> i" "valid_id j" for j
    using fr(2) that by (simp add: s1)
  ultimately show ?thesis by blast
qed

text \<open>A directory with two complete partial uploads and a final upload waiting for them.\<close>

definition file_partial :: "string \<Rightarrow> u64 \<Rightarrow> upload_info" where
  "file_partial u n = (upload_info_new (UploadId u) (Some n))\<lparr>info_offset := n, info_is_partial := True\<rparr>"

definition record_of :: "upload_info \<Rightarrow> bytes" where
  "record_of x = projr (put_info x)"

definition partials_files :: "(string \<times> bytes) list" where
  "partials_files =
     [(''a.info'', record_of (file_partial ''a'' 2)), (''a'', ''ab''),
      (''b.info'', record_of (file_partial ''b'' 3)), (''b'', ''cde''),
      (''c.info'', record_of (upload_info_new (UploadId ''c'') None))]"

definition files_world :: "(string \<times> bytes) list \<Rightarrow> (file_system, held_set) world" where
  "files_world fs =
     \<lparr>w_store = \<lparr>fs_nodes = ([''data''], Dir) # ([''data'', ''locks''], Dir) #
        map (\<lambda>(n, b). ([''data'', n], File b)) fs, fs_faults = []\<rparr>,
      w_lock = {}, w_events = []\<rparr>"

lemma partials_files_inv: "fs_inv demo_codec demo_store (w_store (files_world partials_files))"
proof (rule file_inv_intro)
  show "fs_nodes (w_store (files_world partials_files)) = ([''data''], Dir) # ([''data'', ''locks''], Dir) #
      map (\<lambda>(n, b). ([''data'', n], File b)) partials_files"
    by (simp add: files_world_def)
qed (simp add: files_world_def, code_simp+)

theorem file_concatenation_assembles_witness:
  "data_bytes demo_store (snd (up_concatenate (file_ops demo_codec demo_store) (UploadId ''c'')
     [file_partial ''a'' 2, file_partial ''b'' 3] (w_store (files_world partials_files)))) (UploadId ''c'')
   = Some ''abcde''"
proof -
  define s where "s = w_store (files_world partials_files)"
  define ps where "ps = [file_partial ''a'' 2, file_partial ''b'' 3]"
  define out where "out = up_concatenate (file_ops demo_codec demo_store) (UploadId ''c'') ps s"
  have "fs_inv demo_codec demo_store s" unfolding s_def by (rule partials_files_inv)
  moreover have "fs_info_of demo_codec demo_store s (UploadId ''c'') \<noteq> None" unfolding s_def by code_simp
  moreover have "list_all (\<lambda>p. info_id p \<noteq> UploadId ''c'') ps" unfolding ps_def by code_simp
  moreover have "\<not> isl (fst out)" unfolding out_def ps_def s_def by code_simp
  then have "out = (Inr (), snd out)" by (cases "fst out"; cases out) auto
  moreover have "map (\<lambda>p. data_bytes demo_store s (info_id p)) ps = [Some ''ab'', Some ''cde'']"
    unfolding ps_def s_def by code_simp
  ultimately have "data_bytes demo_store (snd out) (UploadId ''c'') = Some ''abcde''"
    using file_concatenation_assembles [of demo_codec demo_store s "UploadId ''c''" _ ps "snd out"]
    by (auto simp: list_all_iff list_all2_Cons1 ps_def file_partial_def out_def upload_info_new_def)
  then show ?thesis by (simp add: out_def ps_def s_def)
qed

section \<open>The POST that concatenates\<close>

text \<open>
  The defect on a concrete server: the POST of a final upload of the two partial uploads is
  answered 201, the record says five bytes and complete, and the file is empty.
\<close>

theorem file_final_upload_emptied:
  "(case file_step final_post (files_world (take 4 partials_files)) of
      (resp, w) \<Rightarrow>
        (resp_status resp,
         map_option (\<lambda>y. (is_complete y, info_size y))
           (fs_info_of demo_codec demo_store (w_store w) (UploadId ''c'')),
         data_bytes demo_store (w_store w) (UploadId ''c'')))
   = (201, Some (True, Some 5), Some [])"
  by code_simp

end
