(* ===== verification/Memory_Locker_Steps.thy ===== *)
theory Memory_Locker_Steps
  imports Tus_Lock
begin

text \<open>
  The in-memory locker under concurrency: tasks interleave at every lock of the mutex that guards
  the set of held identifiers. A step is one round of an acquisition loop, a release, or the drop of
  a guard, with the drop's \<open>try_lock\<close> finding the mutex free or not.
\<close>

record locker_state =
  ls_held :: held_set
  ls_guards :: "(nat \<times> memory_lock) set"

definition locker_start :: locker_state where
  "locker_start = \<lparr>ls_held = {}, ls_guards = {}\<rparr>"

inductive locker_step :: "locker_state \<Rightarrow> locker_state \<Rightarrow> bool" where
  round_ok: "memory_acquire [] i (ls_held s) = (Inr lk, held') \<Longrightarrow>
     locker_step s \<lparr>ls_held = held', ls_guards = insert (t, lk) (ls_guards s)\<rparr>"
| round_busy: "memory_acquire [] i (ls_held s) = (Inl e, held') \<Longrightarrow>
     locker_step s (s\<lparr>ls_held := held'\<rparr>)"
| release: "(t, lk) \<in> ls_guards s \<Longrightarrow> memory_release lk (ls_held s) = (lk', held') \<Longrightarrow>
     locker_step s \<lparr>ls_held = held', ls_guards = ls_guards s - {(t, lk)}\<rparr>"
| drop_guard: "(t, lk) \<in> ls_guards s \<Longrightarrow>
     locker_step s \<lparr>ls_held = memory_drop free lk (ls_held s), ls_guards = ls_guards s - {(t, lk)}\<rparr>"

inductive locker_reach :: "locker_state \<Rightarrow> locker_state \<Rightarrow> bool" where
  refl: "locker_reach s s"
| step: "locker_reach s s' \<Longrightarrow> locker_step s' s'' \<Longrightarrow> locker_reach s s''"

lemma memory_acquire_once:
  "memory_acquire [] i held = (Inr lk, held') \<longleftrightarrow>
     as_str i \<notin> held \<and> lk = \<lparr>ml_id = as_str i, ml_released = False\<rparr> \<and> held' = insert (as_str i) held"
  "memory_acquire [] i held = (Inl e, held') \<longleftrightarrow>
     as_str i \<in> held \<and> e = LockTimeout (as_str i) \<and> held' = held"
  by auto

declare memory_acquire.simps [simp del]

text \<open>Every guard's identifier is held, and no identifier has two guards.\<close>

definition locker_inv :: "locker_state \<Rightarrow> bool" where
  "locker_inv s \<longleftrightarrow>
     (\<forall>g \<in> ls_guards s. ml_id (snd g) \<in> ls_held s)
     \<and> (\<forall>g \<in> ls_guards s. \<forall>g' \<in> ls_guards s. ml_id (snd g) = ml_id (snd g') \<longrightarrow> g = g')"

lemma locker_inv_start: "locker_inv locker_start"
  by (simp add: locker_inv_def locker_start_def)

lemma guard_removed:
  assumes "locker_inv s" and "(t, lk) \<in> ls_guards s"
    and "ls_held s - {ml_id lk} \<subseteq> held" and "held \<subseteq> ls_held s"
  shows "locker_inv \<lparr>ls_held = held, ls_guards = ls_guards s - {(t, lk)}\<rparr>"
proof -
  have "ml_id (snd g) \<noteq> ml_id lk" if "g \<in> ls_guards s" "g \<noteq> (t, lk)" for g
    using assms(1,2) that unfolding locker_inv_def by (metis snd_conv)
  moreover have "ml_id (snd g) \<in> ls_held s" if "g \<in> ls_guards s" for g
    using assms(1) that unfolding locker_inv_def by blast
  ultimately have "ml_id (snd g) \<in> held" if "g \<in> ls_guards s" "g \<noteq> (t, lk)" for g
    using assms(3) that by blast
  then show ?thesis using assms(1) unfolding locker_inv_def by simp
qed

lemma locker_inv_step: "locker_step s s' \<Longrightarrow> locker_inv s \<Longrightarrow> locker_inv s'"
proof (induction rule: locker_step.induct)
  case (round_ok i s lk held' t)
  then show ?case
    by (auto simp: memory_acquire_once locker_inv_def)
next
  case (round_busy i s e held')
  then show ?case by (simp add: memory_acquire_once)
next
  case (release t lk s lk' held')
  then show ?case by (intro guard_removed) (auto simp: memory_release_def)
next
  case (drop_guard t lk s free)
  then show ?case by (intro guard_removed) (auto simp: memory_drop_def)
qed

lemma locker_inv_reach: "locker_reach s s' \<Longrightarrow> locker_inv s \<Longrightarrow> locker_inv s'"
  by (induction rule: locker_reach.induct) (auto intro: locker_inv_step)

lemma reach_one_guard:
  "locker_reach locker_start
     \<lparr>ls_held = {''a''}, ls_guards = {(1, \<lparr>ml_id = ''a'', ml_released = False\<rparr>)}\<rparr>"
proof -
  let ?lk = "\<lparr>ml_id = ''a'', ml_released = False\<rparr>"
  have "locker_step locker_start \<lparr>ls_held = {''a''}, ls_guards = insert (1, ?lk) (ls_guards locker_start)\<rparr>"
    by (rule locker_step.round_ok [where i = "UploadId ''a''"])
       (simp add: memory_acquire_once locker_start_def)
  then show ?thesis
    using locker_reach.step [OF locker_reach.refl] by (simp add: locker_start_def)
qed

text \<open>
  C24. Mutual exclusion of the in-memory locker: however acquisitions, releases and drops of any
  number of tasks interleave, no two guards for the same upload exist at the same time.
\<close>

theorem memory_locker_exclusive:
  assumes "locker_reach locker_start s"
    and "(t, lk) \<in> ls_guards s" and "(u, lk') \<in> ls_guards s" and "ml_id lk = ml_id lk'"
  shows "t = u \<and> lk = lk'"
proof -
  have "locker_inv s" using locker_inv_reach [OF assms(1) locker_inv_start] .
  then have "(t, lk) = (u, lk')"
    using assms(2-4) unfolding locker_inv_def by (metis snd_conv)
  then show ?thesis by simp
qed

theorem memory_locker_exclusive_witness:
  "\<exists>s. locker_reach locker_start s \<and> ls_guards s \<noteq> {}
     \<and> (\<forall>g \<in> ls_guards s. \<forall>g' \<in> ls_guards s. ml_id (snd g) = ml_id (snd g') \<longrightarrow> fst g = fst g')"
proof -
  let ?lk = "\<lparr>ml_id = ''a'', ml_released = False\<rparr>"
  note r = reach_one_guard
  then show ?thesis
    using memory_locker_exclusive [OF r]
    by (intro exI [of _ "\<lparr>ls_held = {''a''}, ls_guards = {(1, ?lk)}\<rparr>"]) auto
qed

lemma leak_step:
  assumes "locker_step s s'" and "j \<in> ls_held s" and "\<forall>g \<in> ls_guards s. ml_id (snd g) \<noteq> j"
  shows "j \<in> ls_held s' \<and> (\<forall>g \<in> ls_guards s'. ml_id (snd g) \<noteq> j)"
  using assms
  by (induction rule: locker_step.induct)
     (auto simp: memory_acquire_once memory_release_def memory_drop_def)

lemma leak_reach:
  assumes "locker_reach s s'" and "j \<in> ls_held s" and "\<forall>g \<in> ls_guards s. ml_id (snd g) \<noteq> j"
  shows "j \<in> ls_held s' \<and> (\<forall>g \<in> ls_guards s'. ml_id (snd g) \<noteq> j)"
  using assms by (induction rule: locker_reach.induct) (auto dest: leak_step)

text \<open>
  C27. The drop that fails: when the guard of an upload is dropped while another task has the mutex
  (\<open>try_lock\<close> fails), the identifier stays held without a guard, and from then on, whatever the tasks
  do, every round of every acquisition of that upload times out.
\<close>

theorem memory_lock_leaks:
  assumes "locker_reach locker_start s" and "(t, lk) \<in> ls_guards s"
    and "locker_reach \<lparr>ls_held = memory_drop False lk (ls_held s), ls_guards = ls_guards s - {(t, lk)}\<rparr> s'"
    and "as_str i = ml_id lk"
  shows "memory_acquire [] i (ls_held s') = (Inl (LockTimeout (ml_id lk)), ls_held s')"
proof -
  have I: "locker_inv s" using locker_inv_reach [OF assms(1) locker_inv_start] .
  then have held: "ml_id lk \<in> ls_held s"
    using assms(2) unfolding locker_inv_def by (metis snd_conv)
  have "ml_id (snd g) \<noteq> ml_id lk" if "g \<in> ls_guards s - {(t, lk)}" for g
    using I assms(2) that unfolding locker_inv_def by (metis Diff_iff insertCI snd_conv)
  with leak_reach [OF assms(3), of "ml_id lk"] held have "ml_id lk \<in> ls_held s'"
    by (simp add: memory_drop_def)
  then show ?thesis by (simp add: memory_acquire_once assms(4))
qed

theorem memory_lock_leaks_witness:
  "memory_acquire [] (UploadId ''a'') {''a''} = (Inl (LockTimeout ''a''), {''a''})"
proof -
  let ?lk = "\<lparr>ml_id = ''a'', ml_released = False\<rparr>"
  note r = reach_one_guard
  from memory_lock_leaks [OF r, of 1 ?lk "\<lparr>ls_held = {''a''}, ls_guards = {}\<rparr>" "UploadId ''a''"]
  show ?thesis by (simp add: memory_drop_def locker_reach.refl)
qed

end
