(* ===== verification/File_Locker.thy ===== *)
theory File_Locker
  imports Tus_Lock File_System
begin

text \<open>
  \<open>fileloft-store-fs/src/locker.rs\<close>: one lock file per upload, locked with \<open>flock\<close> and removed when
  the lock is given back. Tasks and processes interleave between the system calls, so the locker is
  a transition system: the state has the directory (names to inodes), the exclusive lock of each
  inode and, for every task, how far it is. An inode lives on while it is open, even when its name
  is removed. Every call is one step and may fail; what it does follows the source.
\<close>

section \<open>Configuration and states\<close>

record file_locker =
  fl_lock_dir :: path
  fl_timeout :: nat

text \<open>Timeouts in milliseconds.\<close>

definition file_locker_new :: "path \<Rightarrow> file_locker" where
  "file_locker_new dir = \<lparr>fl_lock_dir = dir, fl_timeout = 20000\<rparr>"

definition file_locker_with_timeout :: "file_locker \<Rightarrow> nat \<Rightarrow> file_locker" where
  "file_locker_with_timeout l t = l\<lparr>fl_timeout := t\<rparr>"

definition lock_path :: "file_locker \<Rightarrow> upload_id \<Rightarrow> path" where
  "lock_path l i = fl_lock_dir l @ [as_str i @ ''.lock'']"

text \<open>
  Where a task is: outside, in the acquisition loop before opening, with the file open, after a
  failed attempt, holding the lock (the guard), or between unlocking and removing the file.
\<close>

datatype lock_phase =
    Outside
  | Opening upload_id
  | Trying upload_id nat
  | Retrying upload_id
  | Holding upload_id nat
  | Removing upload_id
  | Refused tus_error

record flock_state =
  fk_names :: "path \<Rightarrow> nat option"
  fk_next :: nat
  fk_locks :: "nat \<Rightarrow> nat option"
  fk_tasks :: "nat \<Rightarrow> lock_phase"

definition flock_start :: flock_state where
  "flock_start = \<lparr>fk_names = (\<lambda>p. None), fk_next = 0, fk_locks = (\<lambda>n. None), fk_tasks = (\<lambda>t. Outside)\<rparr>"

definition go :: "nat \<Rightarrow> lock_phase \<Rightarrow> flock_state \<Rightarrow> flock_state" where
  "go t ph s = s\<lparr>fk_tasks := (fk_tasks s)(t := ph)\<rparr>"

section \<open>The calls\<close>

text \<open>\<open>id.validate()?\<close> and \<open>create_dir_all\<close>, which may fail.\<close>

definition acquire_start :: "io_error option \<Rightarrow> nat \<Rightarrow> upload_id \<Rightarrow> flock_state \<Rightarrow> flock_state" where
  "acquire_start fault t i s =
     (case upload_id_validate i of
        Inl e \<Rightarrow> go t (Refused e) s
      | Inr u \<Rightarrow> (case fault of Some e \<Rightarrow> go t (Refused (Io e)) s | None \<Rightarrow> go t (Opening i) s))"

text \<open>Open for reading and writing, created when the name is not there, not truncated.\<close>

definition acquire_open ::
  "file_locker \<Rightarrow> io_error option \<Rightarrow> nat \<Rightarrow> upload_id \<Rightarrow> flock_state \<Rightarrow> flock_state" where
  "acquire_open l fault t i s =
     (case fault of
        Some e \<Rightarrow> go t (Refused (Io e)) s
      | None \<Rightarrow>
          (case fk_names s (lock_path l i) of
             Some n \<Rightarrow> go t (Trying i n) s
           | None \<Rightarrow> go t (Trying i (fk_next s))
               (s\<lparr>fk_names := (fk_names s)(lock_path l i \<mapsto> fk_next s), fk_next := fk_next s + 1\<rparr>)))"

text \<open>\<open>try_lock_exclusive\<close>: taken, or busy or failed, and then the file is closed.\<close>

definition acquire_try :: "bool \<Rightarrow> nat \<Rightarrow> upload_id \<Rightarrow> nat \<Rightarrow> flock_state \<Rightarrow> flock_state" where
  "acquire_try fault t i n s =
     (if \<not> fault \<and> fk_locks s n = None
      then go t (Holding i n) (s\<lparr>fk_locks := (fk_locks s)(n \<mapsto> t)\<rparr>)
      else go t (Retrying i) s)"

text \<open>Past the deadline an error, else another round after the sleep.\<close>

definition acquire_again :: "bool \<Rightarrow> nat \<Rightarrow> upload_id \<Rightarrow> flock_state \<Rightarrow> flock_state" where
  "acquire_again past_deadline t i s =
     (if past_deadline then go t (Refused (LockTimeout (as_str i))) s else go t (Opening i) s)"

text \<open>
  \<open>release\<close>: a failed unlock is an error, and closing the file unlocks it all the same; then the name
  is removed.
\<close>

definition release_unlock :: "io_error option \<Rightarrow> nat \<Rightarrow> upload_id \<Rightarrow> nat \<Rightarrow> flock_state \<Rightarrow> flock_state" where
  "release_unlock fault t i n s =
     (let s' = s\<lparr>fk_locks := (fk_locks s)(n := None)\<rparr>
      in (case fault of Some e \<Rightarrow> go t (Refused (Io e)) s' | None \<Rightarrow> go t (Removing i) s'))"

text \<open>\<open>drop\<close>: a failed unlock is ignored.\<close>

definition drop_unlock :: "nat \<Rightarrow> upload_id \<Rightarrow> nat \<Rightarrow> flock_state \<Rightarrow> flock_state" where
  "drop_unlock t i n s = go t (Removing i) (s\<lparr>fk_locks := (fk_locks s)(n := None)\<rparr>)"

text \<open>\<open>let _ = std::fs::remove_file(&path)\<close>, of \<open>release\<close> and of \<open>drop\<close>.\<close>

definition remove_lock_file ::
  "file_locker \<Rightarrow> bool \<Rightarrow> nat \<Rightarrow> upload_id \<Rightarrow> flock_state \<Rightarrow> flock_state" where
  "remove_lock_file l fault t i s =
     go t Outside (if fault then s else s\<lparr>fk_names := (fk_names s)(lock_path l i := None)\<rparr>)"

section \<open>Interleaving\<close>

text \<open>
  A step is one call of one task, in its phase. The flags are the choices of the environment: which
  call fails, and whether the deadline has passed.
\<close>

inductive flock_step :: "file_locker \<Rightarrow> flock_state \<Rightarrow> flock_state \<Rightarrow> bool" for l where
  start: "fk_tasks s t \<in> {Outside, Refused e} \<Longrightarrow> flock_step l s (acquire_start fault t i s)"
| open_file: "fk_tasks s t = Opening i \<Longrightarrow> flock_step l s (acquire_open l fault' t i s)"
| try_lock: "fk_tasks s t = Trying i n \<Longrightarrow> flock_step l s (acquire_try failed t i n s)"
| again: "fk_tasks s t = Retrying i \<Longrightarrow> flock_step l s (acquire_again late t i s)"
| release: "fk_tasks s t = Holding i n \<Longrightarrow> flock_step l s (release_unlock fault' t i n s)"
| drop_lock: "fk_tasks s t = Holding i n \<Longrightarrow> flock_step l s (drop_unlock t i n s)"
| remove: "fk_tasks s t = Removing i \<Longrightarrow> flock_step l s (remove_lock_file l failed t i s)"

inductive flock_reach :: "file_locker \<Rightarrow> flock_state \<Rightarrow> flock_state \<Rightarrow> bool" for l where
  refl: "flock_reach l s s"
| step: "flock_reach l s s' \<Longrightarrow> flock_step l s' s'' \<Longrightarrow> flock_reach l s s''"

text \<open>
  The interleavings in which a name is removed only when no other task is between opening that file
  and giving its lock back.
\<close>

definition has_open :: "flock_state \<Rightarrow> nat \<Rightarrow> upload_id \<Rightarrow> bool" where
  "has_open s t i = (case fk_tasks s t of Trying j n \<Rightarrow> j = i | Holding j n \<Rightarrow> j = i | _ \<Rightarrow> False)"

inductive quiet_reach :: "file_locker \<Rightarrow> flock_state \<Rightarrow> flock_state \<Rightarrow> bool" for l where
  refl: "quiet_reach l s s"
| step: "quiet_reach l s s' \<Longrightarrow> flock_step l s' s'' \<Longrightarrow>
     (\<And>i t. fk_names s' (lock_path l i) \<noteq> None \<Longrightarrow> fk_names s'' (lock_path l i) = None \<Longrightarrow>
        \<not> has_open s'' t i) \<Longrightarrow> quiet_reach l s s''"

lemma flock_reach_first:
  assumes "flock_step l s s'" and "flock_reach l s' s''"
  shows "flock_reach l s s''"
  using assms(2,1) by (induction rule: flock_reach.induct) (auto intro: flock_reach.intros)

lemma go_sel [simp]:
  "fk_names (go t ph s) = fk_names s" "fk_next (go t ph s) = fk_next s"
  "fk_locks (go t ph s) = fk_locks s" "fk_tasks (go t ph s) = (fk_tasks s)(t := ph)"
  by (simp_all add: go_def)

lemma lock_path_inject [simp]: "lock_path l i = lock_path l j \<longleftrightarrow> i = j"
  by (auto simp: lock_path_def upload_id.expand)

lemmas flock_defs = acquire_start_def acquire_open_def acquire_try_def acquire_again_def
  release_unlock_def drop_unlock_def remove_lock_file_def

section \<open>One holder per inode\<close>

text \<open>The lock table says who holds what, and inodes are numbered in the order of their creation.\<close>

definition flock_inv :: "flock_state \<Rightarrow> bool" where
  "flock_inv s \<longleftrightarrow>
     (\<forall>t i n. fk_tasks s t = Holding i n \<longrightarrow> fk_locks s n = Some t)
     \<and> (\<forall>n t. fk_locks s n = Some t \<longrightarrow> (\<exists>i. fk_tasks s t = Holding i n))"

lemma flock_inv_step: "flock_step l s s' \<Longrightarrow> flock_inv s \<Longrightarrow> flock_inv s'"
proof (induction rule: flock_step.induct)
  case (start s t e fault i)
  then show ?case
    by (auto simp: flock_inv_def acquire_start_def split: sum.split option.split) (metis lock_phase.distinct)+
next
  case (open_file s t i fault')
  then show ?case
    by (auto simp: flock_inv_def acquire_open_def split: option.split) (metis lock_phase.distinct)+
next
  case (try_lock s t i n failed)
  then show ?case
    by (auto simp: flock_inv_def acquire_try_def) (metis lock_phase.distinct option.distinct(1))+
next
  case (again s t i late)
  then show ?case
    by (auto simp: flock_inv_def acquire_again_def) (metis lock_phase.distinct)+
next
  case (release s t i n fault')
  then show ?case
    by (auto simp: flock_inv_def release_unlock_def Let_def split: option.split) (metis lock_phase.inject option.inject)+
next
  case (drop_lock s t i n)
  then show ?case
    by (auto simp: flock_inv_def drop_unlock_def) (metis lock_phase.inject option.inject)+
next
  case (remove s t i failed)
  then show ?case
    by (auto simp: flock_inv_def remove_lock_file_def) (metis lock_phase.distinct)+
qed

lemma flock_inv_start: "flock_inv flock_start"
  by (simp add: flock_inv_def flock_start_def)

lemma flock_inv_reach: "flock_reach l s s' \<Longrightarrow> flock_inv s \<Longrightarrow> flock_inv s'"
  by (induction rule: flock_reach.induct) (auto intro: flock_inv_step)

section \<open>Two holders of one upload\<close>

text \<open>
  C26. A defect: the lock is given back in two calls, unlock and remove, and between them another task
  can lock the file that is about to lose its name. From the empty directory there is an
  interleaving of three tasks, for every locker and every valid upload, after which two tasks hold
  the lock of the same upload.
\<close>

theorem file_lock_race:
  assumes "valid_id i"
  shows "\<exists>s n m. flock_reach l flock_start s \<and> fk_tasks s 2 = Holding i n \<and> fk_tasks s 3 = Holding i m"
proof -
  define s1 where "s1 = acquire_start None 1 i flock_start"
  define s2 where "s2 = acquire_open l None 1 i s1"
  define s3 where "s3 = acquire_try False 1 i 0 s2"
  define s4 where "s4 = acquire_start None 2 i s3"
  define s5 where "s5 = acquire_open l None 2 i s4"
  define s6 where "s6 = drop_unlock 1 i 0 s5"
  define s7 where "s7 = acquire_try False 2 i 0 s6"
  define s8 where "s8 = remove_lock_file l False 1 i s7"
  define s9 where "s9 = acquire_start None 3 i s8"
  define s10 where "s10 = acquire_open l None 3 i s9"
  define s11 where "s11 = acquire_try False 3 i 1 s10"
  note defs = s1_def s2_def s3_def s4_def s5_def s6_def s7_def s8_def s9_def s10_def s11_def
  note vals = defs flock_defs flock_start_def assms
  have t1: "flock_step l flock_start s1"
    unfolding s1_def by (rule flock_step.start) (simp add: vals)
  have t2: "flock_step l s1 s2"
    unfolding s2_def by (rule flock_step.open_file) (simp add: vals)
  have t3: "flock_step l s2 s3"
    unfolding s3_def by (rule flock_step.try_lock) (simp add: vals)
  have t4: "flock_step l s3 s4"
    unfolding s4_def by (rule flock_step.start) (simp add: vals)
  have t5: "flock_step l s4 s5"
    unfolding s5_def by (rule flock_step.open_file) (simp add: vals)
  have t6: "flock_step l s5 s6"
    unfolding s6_def by (rule flock_step.drop_lock) (simp add: vals)
  have t7: "flock_step l s6 s7"
    unfolding s7_def by (rule flock_step.try_lock) (simp add: vals)
  have t8: "flock_step l s7 s8"
    unfolding s8_def by (rule flock_step.remove) (simp add: vals)
  have t9: "flock_step l s8 s9"
    unfolding s9_def by (rule flock_step.start) (simp add: vals)
  have t10: "flock_step l s9 s10"
    unfolding s10_def by (rule flock_step.open_file) (simp add: vals)
  have t11: "flock_step l s10 s11"
    unfolding s11_def by (rule flock_step.try_lock) (simp add: vals)
  have "flock_reach l flock_start s11"
    by (rule flock_reach_first, rule t1, rule flock_reach_first, rule t2, rule flock_reach_first, rule t3,
        rule flock_reach_first, rule t4, rule flock_reach_first, rule t5, rule flock_reach_first, rule t6,
        rule flock_reach_first, rule t7, rule flock_reach_first, rule t8, rule flock_reach_first, rule t9,
        rule flock_reach_first, rule t10, rule flock_reach_first, rule t11, rule flock_reach.refl)
  moreover have "fk_tasks s11 2 = Holding i 0" "fk_tasks s11 3 = Holding i 1"
    by (simp_all add: vals)
  ultimately show ?thesis by blast
qed

theorem file_lock_race_witness:
  "\<exists>s n m. flock_reach (file_locker_new [''locks'']) flock_start s
     \<and> fk_tasks s 2 = Holding (UploadId ''a'') n \<and> fk_tasks s 3 = Holding (UploadId ''a'') m"
proof -
  have "valid_id (UploadId ''a'')" by code_simp
  then show ?thesis by (rule file_lock_race)
qed

section \<open>When it is exclusive\<close>

text \<open>Whoever has a lock file open has the one its name leads to.\<close>

definition names_inv :: "file_locker \<Rightarrow> flock_state \<Rightarrow> bool" where
  "names_inv l s \<longleftrightarrow>
     (\<forall>t i n. fk_tasks s t = Trying i n \<or> fk_tasks s t = Holding i n \<longrightarrow>
        fk_names s (lock_path l i) = Some n)"

lemma names_kept:
  assumes "names_inv l s" and "fk_names s' = fk_names s"
    and "\<And>u i n. fk_tasks s' u = Trying i n \<or> fk_tasks s' u = Holding i n \<Longrightarrow>
           fk_tasks s u = Trying i n \<or> fk_tasks s u = Holding i n"
  shows "names_inv l s'"
  using assms unfolding names_inv_def by metis

lemma names_open:
  assumes "names_inv l s" and "fk_tasks s t = Opening i"
  shows "names_inv l (acquire_open l fault t i s)"
  using assms
  by (auto simp: acquire_open_def names_inv_def split: option.split)

lemma names_step:
  assumes "flock_step l s s'" and "names_inv l s"
    and "\<And>i t. fk_names s (lock_path l i) \<noteq> None \<Longrightarrow> fk_names s' (lock_path l i) = None \<Longrightarrow>
           \<not> has_open s' t i"
  shows "names_inv l s'"
  using assms
proof (induction rule: flock_step.induct)
  case (start s t e fault i)
  show ?case
    by (rule names_kept [OF start.prems(1)]) (auto simp: acquire_start_def split: sum.splits option.splits if_splits)
next
  case (open_file s t i fault')
  then show ?case by (intro names_open) auto
next
  case (try_lock s t i n failed)
  show ?case
    by (rule names_kept [OF try_lock.prems(1)]) (use try_lock.hyps in \<open>auto simp: acquire_try_def split: if_splits\<close>)
next
  case (again s t i late)
  show ?case
    by (rule names_kept [OF again.prems(1)]) (auto simp: acquire_again_def split: if_splits)
next
  case (release s t i n fault')
  show ?case
    by (rule names_kept [OF release.prems(1)]) (auto simp: release_unlock_def Let_def split: option.splits if_splits)
next
  case (drop_lock s t i n)
  show ?case
    by (rule names_kept [OF drop_lock.prems(1)]) (auto simp: drop_unlock_def split: if_splits)
next
  case (remove s t i failed)
  let ?s = "remove_lock_file l failed t i s"
  have names: "fk_names ?s (lock_path l j) = fk_names s (lock_path l j)" if "has_open ?s u j" for u j
    using remove.prems(2) [of j u] that
    by (cases "j = i"; cases "fk_names s (lock_path l j)")
       (auto simp: remove_lock_file_def split: if_splits)
  show ?case
    unfolding names_inv_def
  proof (intro allI impI)
    fix u j n
    assume h: "fk_tasks ?s u = Trying j n \<or> fk_tasks ?s u = Holding j n"
    then have "has_open ?s u j" by (auto simp: has_open_def)
    moreover have "fk_tasks s u = Trying j n \<or> fk_tasks s u = Holding j n"
      using h by (auto simp: remove_lock_file_def split: if_splits)
    moreover have "fk_names s (lock_path l j) = Some n"
      using calculation(2) remove.prems(1) unfolding names_inv_def by blast
    ultimately show "fk_names ?s (lock_path l j) = Some n"
      using names by simp
  qed
qed

lemma quiet_inv:
  "quiet_reach l s s' \<Longrightarrow> flock_inv s \<and> names_inv l s \<Longrightarrow> flock_inv s' \<and> names_inv l s'"
  by (induction rule: quiet_reach.induct) (use flock_inv_step names_step in blast)+

text \<open>
  C25. The file locker is exclusive as long as no lock file is removed while another task has it open:
  in every such interleaving of any number of tasks and processes, with any failures, at most one
  task holds the lock of an upload.
\<close>

theorem file_lock_exclusive:
  assumes "quiet_reach l flock_start s"
    and "fk_tasks s t = Holding i n" and "fk_tasks s u = Holding i m"
  shows "t = u"
proof -
  have "flock_inv s \<and> names_inv l s"
    using quiet_inv [OF assms(1)] flock_inv_start by (simp add: names_inv_def flock_start_def)
  then have "fk_names s (lock_path l i) = Some n" "fk_names s (lock_path l i) = Some m"
    and "fk_locks s n = Some t" "fk_locks s m = Some u"
    using assms(2,3) unfolding flock_inv_def names_inv_def by blast+
  then show ?thesis by simp
qed

theorem file_lock_exclusive_witness:
  "\<exists>s. quiet_reach (file_locker_new []) flock_start s \<and> fk_tasks s 1 = Holding (UploadId ''a'') 0
     \<and> (\<forall>u m. fk_tasks s u = Holding (UploadId ''a'') m \<longrightarrow> u = 1)"
proof -
  let ?l = "file_locker_new []" and ?i = "UploadId ''a''"
  define s1 where "s1 = acquire_start None 1 ?i flock_start"
  define s2 where "s2 = acquire_open ?l None 1 ?i s1"
  define s3 where "s3 = acquire_try False 1 ?i 0 s2"
  have v: "valid_id ?i" by code_simp
  note vals = s1_def s2_def s3_def flock_defs flock_start_def v
  have "flock_step ?l flock_start s1" unfolding s1_def by (rule flock_step.start) (simp add: vals)
  then have "quiet_reach ?l flock_start s1"
    by (rule quiet_reach.step [OF quiet_reach.refl]) (simp add: vals)
  moreover have "flock_step ?l s1 s2" unfolding s2_def by (rule flock_step.open_file) (simp add: vals)
  ultimately have "quiet_reach ?l flock_start s2"
    by (rule quiet_reach.step) (simp add: vals)
  moreover have "flock_step ?l s2 s3" unfolding s3_def by (rule flock_step.try_lock) (simp add: vals)
  ultimately have r: "quiet_reach ?l flock_start s3"
    by (rule quiet_reach.step) (auto simp add: vals split: if_splits)
  moreover have h: "fk_tasks s3 1 = Holding ?i 0" by (simp add: vals)
  ultimately show ?thesis
    using file_lock_exclusive [OF r _ h] by blast
qed

end
