(* ===== verification/Protocol_Laws.thy ===== *)
theory Protocol_Laws
  imports Memory_Server
begin

text \<open>
  Laws of the request handlers that hold on every store and every locker: the version gate, what
  every answer carries and what errors do not reveal, the OPTIONS answer, the size limit, the
  checksum, and the round trips of the values the server hands to clients.
\<close>

section \<open>The version gate\<close>

text \<open>
  A HEAD, POST, PATCH or DELETE whose \<open>Tus-Resumable\<close> is not 1.0.0, whatever the store, the locker
  and the rest of the request, is answered 412 with the server's version, and nothing happens: store,
  locks and events are as they were.
\<close>

theorem version_gate:
  assumes "req_method req \<in> {HEAD, POST, PATCH, DELETE}"
    and "get_str (req_headers req) HDR_TUS_RESUMABLE \<noteq> Some TUS_VERSION"
  shows "\<exists>er. handle x h e req w = (error_response x (h_config h) er, w) \<and> status_code er = 412"
proof -
  obtain er where er: "check_tus_resumable (req_headers req) = Inl er"
    using assms(2) by (cases "check_tus_resumable (req_headers req)")
      (auto simp: check_tus_resumable_Inr_iff [symmetric])
  have "dispatch x h e req w = (Inl er, w)"
    using assms(1) er
    by (auto simp: dispatch_def head_handle_def post_handle_def patch_handle_def delete_handle_def
        sm_simps)
  then show ?thesis
    using check_tus_resumable_Inl [OF er] handle_eqI(1) by blast
qed

theorem version_gate_witness:
  "resp_status (fst (demo_step (demo_env ''a'', (snd (demo_plain DELETE ''a''))\<lparr>req_headers := Map.empty\<rparr>)
     fresh_world)) = 412"
proof -
  define r where "r = (snd (demo_plain DELETE ''a''))\<lparr>req_headers := Map.empty\<rparr>"
  have "req_method r \<in> {HEAD, POST, PATCH, DELETE}"
    "get_str (req_headers r) HDR_TUS_RESUMABLE \<noteq> Some TUS_VERSION"
    by (simp_all add: r_def demo_plain_def get_str_def)
  from version_gate [OF this, of demo_externals demo_server "demo_env ''a''" fresh_world] show ?thesis
    by (auto simp: demo_step_def r_def error_response_def)
qed

section \<open>Every answer\<close>

text \<open>The answers the handlers build: base headers, and extra headers that leave them alone.\<close>

definition plain_answer :: "externals \<Rightarrow> config \<Rightarrow> tus_response \<Rightarrow> bool" where
  "plain_answer x cfg resp \<longleftrightarrow>
     (\<exists>status extra body. resp = response_with_body x cfg status extra body
        \<and> status \<in> {200, 201, 204}
        \<and> (\<forall>n \<in> {HDR_TUS_RESUMABLE, HDR_CACHE_CONTROL, HDR_ACCESS_CONTROL_ALLOW_ORIGIN}. extra n = None))"

lemma plain_answerI:
  "status \<in> {200, 201, 204} \<Longrightarrow>
   (\<forall>n \<in> {HDR_TUS_RESUMABLE, HDR_CACHE_CONTROL, HDR_ACCESS_CONTROL_ALLOW_ORIGIN}. extra n = None) \<Longrightarrow>
   plain_answer x cfg (response_with_body x cfg status extra body)"
  unfolding plain_answer_def by blast

definition gives :: "('a \<Rightarrow> bool) \<Rightarrow> ('s, 'e, 'a) sm \<Rightarrow> bool" where
  "gives P m \<longleftrightarrow> (\<forall>s r s'. m s = (Inr r, s') \<longrightarrow> P r)"

lemma gives_return: "P r \<Longrightarrow> gives P (sm_return r)"
  by (simp add: gives_def sm_simps)

lemma gives_bind: "(\<And>a. gives P (k a)) \<Longrightarrow> gives P (sm_bind m k)"
  by (auto simp: gives_def sm_bind_Inr_iff)

lemma gives_bind_lift: "(\<And>a. r = Inr a \<Longrightarrow> gives P (k a)) \<Longrightarrow> gives P (sm_bind (sm_lift r) k)"
  unfolding gives_def by (auto simp: sm_bind_lift split: sum.splits)

lemma givesD: "gives P m \<Longrightarrow> m s = (Inr r, s') \<Longrightarrow> P r"
  unfolding gives_def by blast

lemma gives_with_lock:
  assumes "gives P m"
  shows "gives P (with_lock h i m)"
  unfolding gives_def
proof (intro allI impI)
  fix w r w'
  assume "with_lock h i m w = (Inr r, w')"
  then show "P r"
    by (cases rule: with_lock_result) (auto dest: givesD [OF assms])
qed

lemma gives_if: "(b \<Longrightarrow> gives P m) \<Longrightarrow> (\<not> b \<Longrightarrow> gives P n) \<Longrightarrow> gives P (if b then m else n)"
  by simp

lemma extra_headers:
  "\<forall>n \<in> {HDR_TUS_RESUMABLE, HDR_CACHE_CONTROL, HDR_ACCESS_CONTROL_ALLOW_ORIGIN}. head_headers x info n = None"
  "\<forall>n \<in> {HDR_TUS_RESUMABLE, HDR_CACHE_CONTROL, HDR_ACCESS_CONTROL_ALLOW_ORIGIN}. get_headers x info n = None"
  "\<forall>n \<in> {HDR_TUS_RESUMABLE, HDR_CACHE_CONTROL, HDR_ACCESS_CONTROL_ALLOW_ORIGIN}. patch_headers x cfg info n = None"
  "post_headers x cfg loc info = Inr hs \<Longrightarrow>
     \<forall>n \<in> {HDR_TUS_RESUMABLE, HDR_CACHE_CONTROL, HDR_ACCESS_CONTROL_ALLOW_ORIGIN}. hs n = None"
  "options_headers x cfg = Inr hs \<Longrightarrow>
     \<forall>n \<in> {HDR_TUS_RESUMABLE, HDR_CACHE_CONTROL, HDR_ACCESS_CONTROL_ALLOW_ORIGIN}. hs n = None"
  by (auto simp: head_headers_def get_headers_def patch_headers_def post_headers_def options_headers_def
      options_cors_def insert_or_fail_def insert_expires_def insert_if_ok_def Let_def res_bind_Inr_iff
      split: option.splits if_splits)

lemma dispatch_plain: "gives (plain_answer x (h_config h)) (dispatch x h e req)"
proof -
  have "gives (plain_answer x (h_config h)) (options_handle x h e req)"
    unfolding options_handle_def response_def
    by (intro gives_bind_lift gives_return plain_answerI) (simp_all add: extra_headers)
  moreover have "gives (plain_answer x (h_config h)) (head_handle x h e req)"
    unfolding head_handle_def response_def Let_def
    by (intro gives_bind gives_return plain_answerI) (simp_all add: extra_headers)
  moreover have "gives (plain_answer x (h_config h)) (get_handle x h e req)"
    unfolding get_handle_def get_locked_def
    by (intro gives_bind gives_with_lock gives_return plain_answerI) (simp_all add: extra_headers)
  moreover have "gives (plain_answer x (h_config h)) (post_handle x h e req)"
    unfolding post_handle_def post_effects_def response_def
    by (intro gives_bind gives_bind_lift gives_return plain_answerI) (auto dest: extra_headers(4))
  moreover have "gives (plain_answer x (h_config h)) (patch_handle x h e req)"
    unfolding patch_handle_def patch_locked_def response_def Let_def
    by (intro gives_bind gives_with_lock gives_return plain_answerI) (simp_all add: extra_headers)
  moreover have "gives (plain_answer x (h_config h)) (delete_handle x h e req)"
    unfolding delete_handle_def delete_locked_def response_def
    by (intro gives_bind gives_with_lock gives_return plain_answerI) simp_all
  ultimately show ?thesis
    by (cases "req_method req") (simp_all add: dispatch_def gives_def sm_simps)
qed

text \<open>The statuses an answer may have.\<close>

lemma handle_status_cases:
  assumes "handle x h e req w = (resp, w')"
  shows "resp_status resp \<in> {200, 201, 204} \<or> (\<exists>er. resp_status resp = status_code er)"
proof -
  obtain r where d: "dispatch x h e req w = (r, w')"
    and resp: "resp = (case r of Inr rs \<Rightarrow> rs | Inl er \<Rightarrow> error_response x (h_config h) er)"
    using assms by (auto simp: handle_def split: prod.splits sum.splits)
  then show ?thesis
    using givesD [OF dispatch_plain [of x h e req], of w _ w']
    by (cases r) (auto simp: plain_answer_def response_with_body_def error_response_def)
qed

lemma handle_status_range:
  "200 \<le> resp_status (fst (handle x h e req w)) \<and> resp_status (fst (handle x h e req w)) < 600"
proof (cases "handle x h e req w")
  case (Pair resp w')
  have "200 \<le> status_code er \<and> status_code er < 600" for er
    using status_code_range [of er] by simp
  with Pair handle_status_cases [OF Pair] show ?thesis by auto
qed

text \<open>
  C31. Every answer, of every method, success or error, on every store, carries the protocol version and
  forbids caching; with CORS on and an origin that is a legal header value, it carries that origin. An
  answer 500 has the same fixed text whatever went wrong: the text of an I/O error, of a serialisation
  error or of an internal error never reaches the client.
\<close>

theorem every_answer:
  assumes "handle x h e req w = (resp, w')"
  shows "resp_headers resp HDR_TUS_RESUMABLE = Some ''1.0.0''
    \<and> resp_headers resp HDR_CACHE_CONTROL = Some ''no-store''
    \<and> (cors_enabled (cfg_cors (h_config h)) \<and> x_hv_ok x (cors_allow_origin (cfg_cors (h_config h)))
         \<longrightarrow> resp_headers resp HDR_ACCESS_CONTROL_ALLOW_ORIGIN
               = Some (cors_allow_origin (cfg_cors (h_config h))))
    \<and> (500 \<le> resp_status resp \<longrightarrow>
         resp_status resp = 500 \<and> resp_body resp = Body_Bytes ''internal server error'')"
proof -
  have base: "base_headers x cfg HDR_TUS_RESUMABLE = Some ''1.0.0''"
    "base_headers x cfg HDR_CACHE_CONTROL = Some ''no-store''"
    "cors_enabled (cfg_cors cfg) \<and> x_hv_ok x (cors_allow_origin (cfg_cors cfg))
       \<Longrightarrow> base_headers x cfg HDR_ACCESS_CONTROL_ALLOW_ORIGIN = Some (cors_allow_origin (cfg_cors cfg))"
    for cfg
    by (auto simp: base_headers_def insert_if_ok_def Let_def TUS_VERSION_def CACHE_CONTROL_NO_STORE_def)
  obtain r where d: "dispatch x h e req w = (r, w')"
    and resp: "resp = (case r of Inr rs \<Rightarrow> rs | Inl er \<Rightarrow> error_response x (h_config h) er)"
    using assms by (auto simp: handle_def split: prod.splits sum.splits)
  show ?thesis
  proof (cases r)
    case (Inl er)
    have "status_code er = 500" if "500 \<le> status_code er"
      using that by (cases er) simp_all
    with Inl base resp show ?thesis
      by (auto simp: error_response_def client_message_500)
  next
    case (Inr rs)
    with d have "plain_answer x (h_config h) rs" using givesD [OF dispatch_plain] by blast
    with Inr base resp show ?thesis
      by (auto simp: plain_answer_def response_with_body_def map_add_def)
  qed
qed

theorem every_answer_witness:
  "resp_headers (fst (demo_step (demo_plain HEAD ''b'') fresh_world)) HDR_TUS_RESUMABLE = Some ''1.0.0''"
  using every_answer [of demo_externals demo_server "fst (demo_plain HEAD ''b'')"
      "snd (demo_plain HEAD ''b'')" fresh_world]
  by (simp add: demo_step_def prod_eq_iff)

section \<open>What OPTIONS announces\<close>

definition announced :: "tus_response \<Rightarrow> string list" where
  "announced resp =
     (case resp_headers resp HDR_TUS_EXTENSION of
        None \<Rightarrow> [] | Some v \<Rightarrow> split_on (CHR '','') v)"

lemma enabled_no_comma: "list_all (\<lambda>w. CHR '','' \<notin> set w) (enabled_extensions ext)"
  by (simp add: enabled_extensions_def ext_names)

text \<open>
  C32. An OPTIONS request answered 204 changes nothing and announces exactly the extensions that are
  switched on: splitting \<open>Tus-Extension\<close> at its commas gives back the names of the enabled
  extensions, none twice, and never \<open>checksum-trailer\<close>, which is not implemented; \<open>Tus-Max-Size\<close> is
  there exactly when a limit is set, and reads as that limit; the version and, with the checksum extension
  on, its algorithms are there too. (The hypothesis on the \<open>http\<close> crate: digits make a header value.)
\<close>

theorem options_announces:
  assumes "req_method req = OPTIONS" and "handle x h e req w = (resp, w')"
    and "resp_status resp = 204" and "cfg_extensions (h_config h) = ext"
    and "\<And>n. x_hv_ok x (dec_u64 n)"
  shows "w' = w \<and> distinct (announced resp)
    \<and> set (announced resp) = {n. (n, True) \<in>
          {(''creation'', ext_creation ext), (''creation-with-upload'', ext_creation_with_upload ext),
           (''creation-defer-length'', ext_creation_defer_length ext),
           (''expiration'', ext_expiration ext), (''checksum'', ext_checksum ext),
           (''termination'', ext_termination ext), (''concatenation'', ext_concatenation ext)}}
    \<and> map_option parse_u64 (resp_headers resp HDR_TUS_MAX_SIZE)
        = (if cfg_max_size (h_config h) = 0 then None else Some (Some (cfg_max_size (h_config h))))
    \<and> resp_headers resp HDR_TUS_VERSION = Some ''1.0.0''
    \<and> resp_headers resp HDR_TUS_CHECKSUM_ALGORITHM = (if ext_checksum ext then Some ''sha1,sha256,md5'' else None)"
proof -
  have "options_handle x h e req w = (Inr resp, w')"
    using handle_success [OF assms(2)] assms(1,3) by (simp add: dispatch_def)
  then obtain hs where hs: "options_headers x (h_config h) = Inr hs" and w': "w' = w"
    and resp: "resp = response x (h_config h) 204 hs []"
    by (auto simp: options_handle_def sm_simps split: sum.splits)
  have base: "base_headers x cfg HDR_TUS_EXTENSION = None" "base_headers x cfg HDR_TUS_MAX_SIZE = None"
    "base_headers x cfg HDR_TUS_VERSION = None" "base_headers x cfg HDR_TUS_CHECKSUM_ALGORITHM = None"
    for cfg
    by (auto simp: base_headers_def insert_if_ok_def Let_def)
  have max: "hs HDR_TUS_MAX_SIZE = (if cfg_max_size (h_config h) = 0 then None
                 else Some (u64_header (x_hv_ok x) (cfg_max_size (h_config h))))"
    and exts: "hs HDR_TUS_EXTENSION = (if enabled_extensions ext = [] then None
                 else Some (join '','' (enabled_extensions ext)))"
    and version: "hs HDR_TUS_VERSION = Some TUS_VERSION"
    and algorithms: "hs HDR_TUS_CHECKSUM_ALGORITHM = (if ext_checksum ext then Some algorithms_header else None)"
    using hs assms(4)
    by (auto simp: options_headers_def options_cors_def insert_or_fail_def Let_def res_bind_Inr_iff
        word_neq_0_conv split: if_splits)
  have "announced resp = enabled_extensions ext"
    using exts base split_on_join [OF _ enabled_no_comma, of ext]
    by (simp add: announced_def resp response_def response_with_body_def map_add_def)
  moreover have "distinct (enabled_extensions ext)"
    by (simp add: enabled_extensions_def ext_names CHECKSUM_TRAILER_IMPLEMENTED_def)
  moreover have "set (enabled_extensions ext) = {n. (n, True) \<in>
          {(''creation'', ext_creation ext), (''creation-with-upload'', ext_creation_with_upload ext),
           (''creation-defer-length'', ext_creation_defer_length ext),
           (''expiration'', ext_expiration ext), (''checksum'', ext_checksum ext),
           (''termination'', ext_termination ext), (''concatenation'', ext_concatenation ext)}}"
    by (auto simp: enabled_extensions_def ext_names CHECKSUM_TRAILER_IMPLEMENTED_def split: if_splits)
  moreover have "resp_headers resp n = hs n"
    if "n \<in> {HDR_TUS_MAX_SIZE, HDR_TUS_VERSION, HDR_TUS_CHECKSUM_ALGORITHM}" for n
    using that base
    by (auto simp: resp response_def response_with_body_def map_add_def split: option.split)
  moreover have "algorithms_header = ''sha1,sha256,md5''" by code_simp
  ultimately show ?thesis
    using w' max version algorithms u64_header_parse [of "x_hv_ok x", OF assms(5)]
    by (simp add: TUS_VERSION_def)
qed

definition limited_server :: "(mem_store, held_set) tus_handler" where
  "limited_server = tus_handler_new memory_ops None (demo_config\<lparr>cfg_max_size := 10\<rparr>)"

theorem options_announces_witness:
  "set (announced (fst (demo_step (demo_plain OPTIONS []) fresh_world)))
   = {''creation'', ''creation-with-upload'', ''creation-defer-length'', ''checksum'',
      ''termination'', ''concatenation''}
   \<and> map_option parse_u64 (resp_headers (fst (handle demo_externals limited_server (demo_env [])
        (snd (demo_plain OPTIONS [])) fresh_world)) HDR_TUS_MAX_SIZE) = Some (Some 10)"
proof -
  define r where "r = demo_plain OPTIONS []"
  have "req_method (snd r) = OPTIONS" unfolding r_def by code_simp
  moreover have "resp_status (fst (demo_step r fresh_world)) = 204" unfolding r_def by code_simp
  moreover have "cfg_extensions demo_config = extensions_default\<lparr>ext_concatenation := True\<rparr>"
    by (simp add: demo_config_def)
  moreover have "x_hv_ok demo_externals (dec_u64 n)" for n by (simp add: demo_externals_def)
  moreover have "resp_status (fst (handle demo_externals limited_server (demo_env []) (snd r) fresh_world)) = 204"
    unfolding r_def by code_simp
  moreover have "cfg_max_size (h_config limited_server) = 10" by code_simp
  ultimately show ?thesis
    using options_announces [of "snd r" demo_externals demo_server "fst r" fresh_world
        "fst (demo_step r fresh_world)" "snd (demo_step r fresh_world)"]
      options_announces [of "snd r" demo_externals limited_server "demo_env []" fresh_world
        "fst (handle demo_externals limited_server (demo_env []) (snd r) fresh_world)"
        "snd (handle demo_externals limited_server (demo_env []) (snd r) fresh_world)"]
    by (auto simp: demo_step_def r_def extensions_default_def)
qed

section \<open>The size limit\<close>

text \<open>
  A POST that declares a length above the configured maximum (and neither defers its length nor
  concatenates), on any store, is answered 413 with that maximum, and creates nothing: store, locks
  and events are as they were.
\<close>

theorem oversized_creation_refused:
  assumes "req_method req = POST" and "get_str (req_headers req) HDR_TUS_RESUMABLE = Some TUS_VERSION"
    and "ext_creation (cfg_extensions (h_config h))" and "\<not> concat_is_final (req_headers req)"
    and "get_str (req_headers req) HDR_UPLOAD_LENGTH = Some (dec_u64 n)"
    and "0 < cfg_max_size (h_config h)" and "cfg_max_size (h_config h) < n"
    and "\<not> has_defer_length (req_headers req)"
  shows "handle x h e req w = (error_response x (h_config h) (EntityTooLarge (cfg_max_size (h_config h))), w)"
proof -
  have "parse_upload_length (req_headers req) = Inr (Some n)"
    using assms(5) by (auto simp: parse_upload_length_def get_str_def dec_u64_def parse_u64_dec
        bind_eq_Some_conv)
  then have "post_build_info x (h_config h) e (req_headers req)
      = Inl (EntityTooLarge (cfg_max_size (h_config h)))"
    using assms(4,6,7,8) by (simp add: post_build_info_def post_size_def Let_def)
  moreover have "check_tus_resumable (req_headers req) = Inr ()"
    using assms(2) by (simp add: check_tus_resumable_Inr_iff)
  ultimately have "dispatch x h e req w = (Inl (EntityTooLarge (cfg_max_size (h_config h))), w)"
    using assms(1,3) by (simp add: dispatch_def post_handle_def sm_simps)
  then show ?thesis by (rule handle_eqI(1))
qed

theorem oversized_creation_refused_witness:
  "resp_status (fst (handle demo_externals limited_server (demo_env ''a'')
     (snd (demo_post ''a'' [(HDR_UPLOAD_LENGTH, ''11'')])) fresh_world)) = 413"
proof -
  define r where "r = snd (demo_post ''a'' [(HDR_UPLOAD_LENGTH, ''11'')])"
  have "req_method r = POST" "get_str (req_headers r) HDR_TUS_RESUMABLE = Some TUS_VERSION"
    "\<not> concat_is_final (req_headers r)" "get_str (req_headers r) HDR_UPLOAD_LENGTH = Some (dec_u64 11)"
    "\<not> has_defer_length (req_headers r)"
    unfolding r_def by code_simp+
  moreover have c: "h_config limited_server = demo_config\<lparr>cfg_max_size := 10\<rparr>"
    by (simp add: limited_server_def tus_handler_new_def)
  ultimately show ?thesis
    using oversized_creation_refused [of r limited_server 11 demo_externals "demo_env ''a''" fresh_world]
    by (simp add: r_def [symmetric] error_response_def demo_config_def extensions_default_def)
qed

section \<open>The checksum\<close>

text \<open>
  C33. Verifying while reading. In every poll, whatever the caller's buffer held before, how much room it
  had, and whether the inner reader was ready, the checksum reader hashes exactly the bytes it puts into
  the buffer. And however a body arrives in pieces and is polled, reading it through the checksum reader
  is reading it first and hashing it afterwards: the same bytes, the same failure, and it is accepted
  exactly when the digest of all the bytes is the expected one.
\<close>

theorem checksum_while_reading:
  "(\<exists>new. snd (snd (checksum_poll_read ready me buf)) = buf\<lparr>rb_filled := rb_filled buf @ new\<rparr>
      \<and> cr_hashed (fst (snd (checksum_poll_read ready me buf))) = cr_hashed me @ new)
   \<and> (case checksum_read_to_end rounds 0 (checksum_reader_new body algorithm expected) [] of
      (Inl e, cr) \<Rightarrow> Inl (Io e)
    | (Inr b, cr) \<Rightarrow> res_bind (checksum_verify digest cr) (\<lambda>_. Inr b))
   = (case read_to_end body of
        Inl e \<Rightarrow> Inl (Io e)
      | Inr b \<Rightarrow> if digest algorithm b = expected then Inr b else Inl ChecksumMismatch)"
proof (intro conjI checksum_poll_hashes)
  obtain res cr where
    r: "checksum_read_to_end rounds 0 (checksum_reader_new body algorithm expected) [] = (res, cr)"
    by fastforce
  note spec = checksum_read_to_end_spec [OF r]
  have res: "read_to_end body = res" and alg: "cr_algorithm cr = algorithm" "cr_expected cr = expected"
    and hashed: "res = Inr b \<Longrightarrow> cr_hashed cr = b" for b
    using spec by (auto simp: checksum_reader_new_def)
  show "(case checksum_read_to_end rounds 0 (checksum_reader_new body algorithm expected) [] of
      (Inl e, cr) \<Rightarrow> Inl (Io e)
    | (Inr b, cr) \<Rightarrow> res_bind (checksum_verify digest cr) (\<lambda>_. Inr b))
   = (case read_to_end body of
        Inl e \<Rightarrow> Inl (Io e)
      | Inr b \<Rightarrow> if digest algorithm b = expected then Inr b else Inl ChecksumMismatch)"
    unfolding r res prod.case using alg hashed by (cases res) (simp_all add: checksum_verify_def)
qed

section \<open>A busy upload\<close>

text \<open>
  While the lock of an upload is held elsewhere, a GET, PATCH or DELETE about it cannot touch it: on
  any store, whatever the request, the store, the events and the set of locks are as before, and the
  answer is an error. (A DELETE may ask its \<open>pre_terminate\<close> hook first; the hypothesis is for servers
  without one.)
\<close>

theorem busy_upload_untouched:
  fixes h :: "('s, held_set) tus_handler"
  assumes "h_locker h = Some memory_locker_ops" and "as_str i \<in> w_lock w"
    and "request_id req = Inr i" and "req_method req \<in> {GET, PATCH, DELETE}"
    and "pre_terminate (cfg_hooks (h_config h)) = None" and "handle x h e req w = (resp, w')"
  shows "w' = w \<and> 400 \<le> resp_status resp"
proof -
  have lock: "with_lock h i body w = (Inl (LockTimeout (as_str i)), w)" for body :: "('s, held_set, tus_response) hop"
    using assms(1,2) by (simp add: with_lock_def)
  have "\<exists>er. dispatch x h e req w = (Inl er, w)"
  proof -
    consider "req_method req = GET" | "req_method req = PATCH" | "req_method req = DELETE"
      using assms(4) by auto
    then show ?thesis
    proof cases
      case 1
      then show ?thesis using assms(3) by (simp add: dispatch_def get_handle_def sm_simps lock)
    next
      case 2
      then show ?thesis using assms(3)
        by (auto simp: dispatch_def patch_handle_def sm_simps lock Let_def split: sum.split)
    next
      case 3
      then show ?thesis using assms(3,5)
        by (auto simp: dispatch_def delete_handle_def delete_veto_def sm_simps lock split: sum.split)
    qed
  qed
  then show ?thesis
    using assms(6) status_code_range by (auto simp: handle_def error_response_def)
qed

theorem busy_upload_untouched_witness:
  "snd (demo_step (demo_patch ''a'' ''0'' ''abc'') (fresh_world\<lparr>w_lock := {''a''}\<rparr>))
   = fresh_world\<lparr>w_lock := {''a''}\<rparr>"
proof -
  define r where "r = demo_patch ''a'' ''0'' ''abc''"
  have "request_id (snd r) = Inr (UploadId ''a'')" "req_method (snd r) \<in> {GET, PATCH, DELETE}"
    unfolding r_def by code_simp+
  then show ?thesis
    using busy_upload_untouched [of demo_server "UploadId ''a''" "fresh_world\<lparr>w_lock := {''a''}\<rparr>" "snd r"
        demo_externals "fst r" "fst (demo_step r (fresh_world\<lparr>w_lock := {''a''}\<rparr>))"
        "snd (demo_step r (fresh_world\<lparr>w_lock := {''a''}\<rparr>))"]
    by (simp add: r_def demo_step_def demo_config_def config_default_def hook_config_default_def)
qed

end
