(* ===== verification/Round_Trips.thy ===== *)
theory Round_Trips
  imports Tus_Dispatch
begin

text \<open>
  Values the server prints and later parses: the \<open>Upload-Metadata\<close> codec and the identifier in the
  locations it hands out.
\<close>

section \<open>Text without white space\<close>

lemma visible_ws: "visible_ascii c \<Longrightarrow> ws_len (c # r) = 0"
  by (auto simp: visible_ascii_def ws1_def ws2_def ws3_def split: list.split)

lemma visible_ws_rev: "visible_ascii c \<Longrightarrow> ws_len_rev (c # r) = 0"
  by (auto simp: visible_ascii_def ws1_def ws2_def ws3_def split: list.split)

lemma trim_Nil [simp]: "trim [] = []"
  by (simp add: trim_def trim_end_def trim_start.simps [of "[]"] trim_rev.simps [of "[]"])

lemma trim_visible_ends:
  assumes "visible_ascii (hd s)" and "visible_ascii (last s)"
  shows "trim s = s"
proof (cases "s = []")
  case True
  then show ?thesis by simp
next
  case False
  then obtain c r where s: "s = c # r" by (cases s) auto
  have "trim_start s = s"
    using assms(1) visible_ws [of c r] by (simp add: s trim_start.simps [of "c # r"] del: ws_len.simps)
  moreover obtain c' r' where r: "rev s = c' # r'" using False by (cases "rev s") auto
  then have "last s = c'" by (metis last_rev list.sel(1) rev_rev_ident hd_rev)
  then have "trim_rev (rev s) = rev s"
    using assms(2) visible_ws_rev [of c' r'] by (simp add: r trim_rev.simps [of "c' # r'"] del: ws_len_rev.simps)
  ultimately show ?thesis by (simp add: trim_def trim_end_def)
qed

lemma trim_visible: "list_all visible_ascii s \<Longrightarrow> trim s = s"
  by (cases "s = []") (auto simp: list_all_iff intro!: trim_visible_ends)

lemma visible_no_space: "list_all visible_ascii s \<Longrightarrow> CHR '' '' \<notin> set s"
  by (auto simp: list_all_iff visible_ascii_def)

lemma split_once_sep: "d \<notin> set a \<Longrightarrow> split_once d (a @ d # b) = Some (a, b)"
  by (induction a) auto

lemma split_once_none: "d \<notin> set a \<Longrightarrow> split_once d a = None"
  by (induction a) auto

section \<open>Metadata\<close>

text \<open>
  What the standard base64 alphabet gives: the decoder undoes the encoder, whose output is visible
  ASCII without a comma, and empty for empty input only.
\<close>

definition base64_ok :: "(bytes \<Rightarrow> string) \<Rightarrow> (string \<Rightarrow> string + bytes) \<Rightarrow> bool" where
  "base64_ok enc decode \<longleftrightarrow>
     (\<forall>b. decode (enc b) = Inr b \<and> list_all visible_ascii (enc b) \<and> CHR '','' \<notin> set (enc b)
        \<and> (enc b = [] \<longrightarrow> b = []))"

text \<open>
  The entries the protocol can carry: keys of visible ASCII without a comma, and values that are
  UTF-8 (they are Rust strings) and not empty (an empty value is printed as a key without value).
\<close>

definition entry_ok :: "string \<times> string option \<Rightarrow> bool" where
  "entry_ok kv \<longleftrightarrow>
     fst kv \<noteq> [] \<and> list_all visible_ascii (fst kv) \<and> CHR '','' \<notin> set (fst kv)
     \<and> (case snd kv of None \<Rightarrow> True | Some v \<Rightarrow> v \<noteq> [] \<and> utf8_error 0 v = None)"

lemma parse_encoded_entry:
  assumes "base64_ok enc decode" and "entry_ok (k, v)"
  shows "parse_pair decode (encode_entry enc (k, v)) = Inr (Some (k, v))"
proof (cases v)
  case None
  then show ?thesis
    using assms(2) visible_no_space [of k]
    by (simp add: parse_pair_def entry_ok_def trim_visible split_once_none Let_def)
next
  case (Some b)
  let ?e = "enc b"
  have e: "decode ?e = Inr b" "list_all visible_ascii ?e" "?e \<noteq> []"
    using assms by (auto simp: base64_ok_def entry_ok_def Some)
  have k: "k \<noteq> []" "list_all visible_ascii k" using assms(2) by (simp_all add: entry_ok_def)
  have "trim (k @ CHR '' '' # ?e) = k @ CHR '' '' # ?e"
    using e k by (intro trim_visible_ends) (auto simp: list_all_iff)
  moreover have "split_once (CHR '' '') (k @ CHR '' '' # ?e) = Some (k, ?e)"
    by (rule split_once_sep) (rule visible_no_space [OF k(2)])
  moreover have "from_utf8 b = Inr b"
    using assms(2) by (simp add: from_utf8_def entry_ok_def Some)
  ultimately show ?thesis
    using e k by (simp add: parse_pair_def Some trim_visible)
qed

lemma encode_entry_comma:
  "base64_ok enc decode \<Longrightarrow> entry_ok kv \<Longrightarrow> CHR '','' \<notin> set (encode_entry enc kv)"
  by (cases kv; cases "snd kv") (auto simp: base64_ok_def entry_ok_def)

lemma parse_encoded_entries:
  assumes "base64_ok enc decode" and "list_all entry_ok m" and "distinct (map fst (m0 @ m))"
  shows "parse_pairs decode (map (encode_entry enc) m) m0 = Inr (m0 @ m)"
  using assms(2,3)
proof (induction m arbitrary: m0)
  case Nil
  then show ?case by simp
next
  case (Cons kv m)
  obtain k v where kv: "kv = (k, v)" by fastforce
  have "parse_pair decode (encode_entry enc (k, v)) = Inr (Some (k, v))"
    using parse_encoded_entry [OF assms(1)] Cons.prems(1) by (simp add: kv)
  moreover have "metadata_insert k v m0 = m0 @ [(k, v)]"
  proof -
    have "k \<notin> fst ` set m0" using Cons.prems(2) by (auto simp: kv)
    then show ?thesis unfolding metadata_insert_def by (induction m0) auto
  qed
  ultimately show ?case using Cons.IH [of "m0 @ [(k, v)]"] Cons.prems by (simp add: kv)
qed

text \<open>
  C34. Metadata survives its header: for any base64 codec with the documented properties and any
  entries the protocol can carry, with distinct keys, parsing what \<open>encode\<close> prints gives back the
  entries, in the order they were printed.
\<close>

theorem metadata_round_trip:
  assumes "base64_ok enc decode" and "list_all entry_ok (ord m)" and "distinct (map fst (ord m))"
  shows "metadata_parse decode (metadata_encode ord enc m) = Inr (ord m)"
proof (cases "ord m = []")
  case True
  then show ?thesis
    by (simp add: metadata_parse_def metadata_encode_def parse_pair_def)
next
  case False
  have "list_all (\<lambda>w. CHR '','' \<notin> set w) (map (encode_entry enc) (ord m))"
    using encode_entry_comma [OF assms(1)] assms(2) by (auto simp: list_all_iff)
  then have "split_on (CHR '','') (metadata_encode ord enc m) = map (encode_entry enc) (ord m)"
    using False split_on_join by (simp add: metadata_encode_def)
  then show ?thesis
    using parse_encoded_entries [OF assms(1,2), of "[]"] assms(3) by (simp add: metadata_parse_def)
qed

text \<open>A codec with the properties: two letters per byte.\<close>

definition nibble :: "nat \<Rightarrow> char" where
  "nibble n = char_of (97 + n)"

definition hex_encode :: "bytes \<Rightarrow> string" where
  "hex_encode b = concat (map (\<lambda>c. [nibble (code c div 16), nibble (code c mod 16)]) b)"

fun hex_decode :: "string \<Rightarrow> string + bytes" where
  "hex_decode [] = Inr []"
| "hex_decode [c] = Inl ''odd length''"
| "hex_decode (c # d # r) =
     res_bind (hex_decode r) (\<lambda>b. Inr (char_of (16 * (code c - 97) + (code d - 97)) # b))"

lemma nibble_code: "n < 16 \<Longrightarrow> code (nibble n) = 97 + n"
  by (simp add: nibble_def)

lemma hex_ok: "base64_ok hex_encode hex_decode"
proof -
  have lt: "code c div 16 < 16" for c
    using nat_of_char_less_256 [of c] by (simp add: less_mult_imp_div_less)
  have "hex_decode (hex_encode b) = Inr b" for b
    by (induction b) (simp_all add: hex_encode_def nibble_code lt)
  moreover have nib: "visible_ascii (nibble n) \<and> nibble n \<noteq> CHR '',''" if "n < 16" for n
    using nibble_code [OF that] that by (auto simp: visible_ascii_def)
  have "list_all visible_ascii (hex_encode b) \<and> CHR '','' \<notin> set (hex_encode b)" for b
    using nib [OF lt] nib [of "code _ mod 16"]
    by (induction b) (auto simp: hex_encode_def eq_commute [of "CHR '',''"])
  moreover have "hex_encode b = [] \<longrightarrow> b = []" for b by (cases b) (simp_all add: hex_encode_def)
  ultimately show ?thesis by (simp add: base64_ok_def)
qed

theorem metadata_round_trip_witness:
  "metadata_parse hex_decode (metadata_encode rev hex_encode [(''a'', None), (''filename'', Some ''x y'')])
   = Inr [(''filename'', Some ''x y''), (''a'', None)]"
proof -
  have "list_all entry_ok (rev [(''a'', None), (''filename'', Some ''x y'')])"
    "distinct (map fst (rev [(''a'', None :: string option), (''filename'', Some ''x y'')]))"
    by code_simp+
  from metadata_round_trip [where ord = rev, OF hex_ok this] show ?thesis by simp
qed

section \<open>Locations\<close>

lemma rfind_append: "rfind t p = Some k \<Longrightarrow> rfind (s @ t) p = Some (length s + k)"
  by (induction s) auto

lemma rfind_empty: "rfind s [] = Some (length s)"
  by (induction s) auto

lemma valid_id_chars:
  assumes "valid_id i"
  shows "as_str i \<noteq> []" and "list_all visible_ascii (as_str i)" and "CHR ''/'' \<notin> set (as_str i)"
proof -
  have "list_all id_char (as_str i)" and ne: "as_str i \<noteq> []"
    using assms by (auto simp: upload_id_validate_def validate_str_Inr_iff)
  moreover have "visible_ascii c \<and> c \<noteq> CHR ''/''" if "id_char c" for c
    using that by (auto simp: id_char_def is_alnum_def is_digit_def visible_ascii_def)
  ultimately show "as_str i \<noteq> []" "list_all visible_ascii (as_str i)" "CHR ''/'' \<notin> set (as_str i)"
    by (auto simp: list_all_iff)
qed

lemma trim_start_matches_none: "c \<notin> set s \<Longrightarrow> trim_start_matches c s = s"
  by (cases s) (auto simp: trim_start_matches_def)



text \<open>
  The proviso is needed: \<open>rfind\<close> finds the last occurrence of the base path, and when an identifier
  begins like it, part of the identifier is taken for the base and another upload is named.
\<close>

theorem location_misread:
  "extract_upload_id_from_url
     (build_location (config_default\<lparr>cfg_base_path := ''/u/''\<rparr>) (UploadId ''ua1'') Map.empty) ''/u/''
   = Inr (UploadId ''a1'')"
  by (simp add: build_location_def request_base_url_def config_default_def get_str_def) code_simp

end
