(* ===== verification/Memory_Laws.thy ===== *)
theory Memory_Laws
  imports Server_Laws
begin

text \<open>
  More laws of the server on the in-memory store: what a creation records, isolation of uploads,
  bounds and events of PATCH, and two defects of the request handlers shown on it.
\<close>

section \<open>Creation\<close>



section \<open>Isolation\<close>

text \<open>
  C29. Uploads are isolated: a request that is not about an upload, whatever its method, its answer and
  its failures, leaves that upload exactly as it was, bytes and record. (It is not about it when its
  identifier and its fresh identifier are others, and it is not a concatenation, which may remove the
  partial uploads it names.)
\<close>

theorem uploads_isolated:
  assumes "h_store h = memory_ops" and "uploads_ok (mem_abs (w_store w))" and "sane_request (e, req)"
    and "pre_create (cfg_hooks (h_config h)) = None"
    and "request_id req \<noteq> Inr j" and "UploadId (env_uuid e) \<noteq> j"
    and "\<not> concat_is_final (req_headers req)" and "handle x h e req w = (resp, w')"
  shows "mem_abs (w_store w') j = mem_abs (w_store w) j"
proof -
  obtain evs where evs: "abs_steps (mem_abs (w_store w)) evs (mem_abs (w_store w'))"
    "request_log (h_config h) e req resp evs"
    by (rule mem.handle_refines [OF assms(1) TrueI assms(2,3,8)])
  have "j \<notin> event_id ` set evs"
    by (rule request_log_frame [OF evs(2) assms(4-7)])
  with evs(1) show ?thesis by (rule abs_steps_frame)
qed

theorem uploads_isolated_witness:
  "mem_abs (w_store (snd (demo_step (demo_plain DELETE ''b'') world5))) (UploadId ''a'')
   = mem_abs (w_store world5) (UploadId ''a'')"
proof -
  define r where "r = demo_plain DELETE ''b''"
  have "sane_request (fst r, snd r)" "request_id (snd r) \<noteq> Inr (UploadId ''a'')"
    "UploadId (env_uuid (fst r)) \<noteq> UploadId ''a''" "\<not> concat_is_final (req_headers (snd r))"
    unfolding r_def by code_simp+
  then show ?thesis
    using uploads_isolated [of demo_server world5 "fst r" "snd r" "UploadId ''a''" demo_externals
        "fst (demo_step r world5)" "snd (demo_step r world5)"] world5_ok
    by (simp add: demo_step_def r_def)
qed

section \<open>Bounds\<close>

text \<open>
  A PATCH answered 204 advances the offset by exactly the length of its body, as a number and
  without wrapping at 64 bits, and never past the declared length, whether that was declared at the
  creation or by this very request.
\<close>

theorem patch_within_bounds:
  assumes "h_store h = memory_ops" and "uploads_ok (mem_abs (w_store w))" and "request_fits req"
    and "req_method req = PATCH" and "handle x h e req w = (resp, w')" and "resp_status resp = 204"
  shows "\<exists>i y y' d d'. request_id req = Inr i \<and> mem_abs (w_store w) i = Some (y, d)
    \<and> mem_abs (w_store w') i = Some (y', d')
    \<and> unat (info_offset y') = unat (info_offset y) + length (body_bytes req)
    \<and> (\<forall>n. info_size y' = Some n \<longrightarrow> unat (info_offset y) + length (body_bytes req) \<le> unat n)"
proof -
  obtain off i where i: "request_id req = Inr i"
    and run: "patch_handle x h e req w = (Inr resp, w')"
    using handle_success [OF assms(5)] assms(4,6)
    by (auto simp: dispatch_def patch_handle_def sm_simps Let_def split: sum.splits if_splits)
  obtain y d decl y' where
    p: "mem_abs (w_store w) i = Some (y, d)" "\<not> info_is_final y"
      "chunk_fits (info_after decl y) (len_u64 d) (len_u64 (body_bytes req))"
      "y' = (info_after decl y)\<lparr>info_offset := len_u64 (d @ body_bytes req)\<rparr>"
      "mem_abs (w_store w') = (mem_abs (w_store w))(i \<mapsto> (y', d @ body_bytes req))"
    by (rule mem.patch_ok [OF assms(1) TrueI assms(2,3) run]) (use i in auto)
  have off: "info_offset y = len_u64 d"
    using uploads_okD(2) [OF assms(2) p(1)] p(2) by (simp add: upload_ok_def)
  have "length (body_bytes req) < 2 ^ 64"
    using assms(3)
    by (auto simp: request_fits_def body_bytes_def fits_vec_def split: option.splits sum.splits)
  then have len: "unat (len_u64 (body_bytes req)) = length (body_bytes req)" by (rule unat_len_u64)
  obtain m where "checked_add (len_u64 d) (len_u64 (body_bytes req)) = Some m"
    using p(3) by (auto simp: chunk_fits_def)
  then have sum: "unat (len_u64 d + len_u64 (body_bytes req)) = unat (len_u64 d) + length (body_bytes req)"
    using checked_add_SomeD [of "len_u64 d" "len_u64 (body_bytes req)" m] len by simp
  have "unat (info_offset y) + length (body_bytes req) \<le> unat n" if "info_size y' = Some n" for n
    using p(3,4) that sum off by (auto simp: chunk_fits_def word_le_nat_alt)
  moreover have "unat (info_offset y') = unat (info_offset y) + length (body_bytes req)"
    using sum off by (simp add: p(4) len_u64_append)
  ultimately show ?thesis using i p(1,5) by auto
qed

theorem patch_within_bounds_witness:
  "map_option (\<lambda>(y, d). info_offset y) (mem_abs (w_store (snd (demo_step
     (demo_patch ''a'' ''3'' ''de'') world5))) (UploadId ''a'')) = Some 5"
proof -
  define r where "r = demo_patch ''a'' ''3'' ''de''"
  have "request_fits (snd r)" "req_method (snd r) = PATCH" "body_bytes (snd r) = ''de''"
    "request_id (snd r) = Inr (UploadId ''a'')"
    unfolding r_def by code_simp+
  moreover have "resp_status (fst (demo_step r world5)) = 204"
    unfolding r_def world5_def by code_simp
  moreover obtain y where "mem_abs (w_store world5) (UploadId ''a'') = Some (y, ''abc'')"
    "info_offset y = 3"
    using world5_abs by (auto simp: map_prod_def split: prod.splits)
  ultimately obtain y' d' where y': "mem_abs (w_store (snd (demo_step r world5))) (UploadId ''a'') = Some (y', d')"
    "unat (info_offset y') = 5"
    using patch_within_bounds [of demo_server world5 "snd r" demo_externals "fst r"
        "fst (demo_step r world5)" "snd (demo_step r world5)"] world5_ok
    by (auto simp: demo_step_def)
  then have "word_of_nat (unat (info_offset y')) = (word_of_nat 5 :: u64)" by simp
  then have "info_offset y' = 5" by simp
  with y' show ?thesis by (simp add: r_def)
qed

section \<open>Two defects\<close>

text \<open>
  C36. Defect: a declared length below the offset sticks. Once the record of an upload declares fewer
  bytes than it holds, no PATCH on it is ever answered 204 again, whatever its offset, body and
  headers. (A PATCH that declares such a length brings an upload of deferred length there: the
  declaration is recorded before the write is refused.)
\<close>

theorem short_declaration_sticks:
  assumes "h_store h = memory_ops" and "uploads_ok (mem_abs (w_store w))" and "request_fits req"
    and "req_method req = PATCH" and "request_id req = Inr i"
    and "mem_abs (w_store w) i = Some (y, d)" and "info_size y = Some n" and "n < info_offset y"
  shows "resp_status (fst (handle x h e req w)) \<noteq> 204"
proof
  assume s: "resp_status (fst (handle x h e req w)) = 204"
  obtain resp w' where run: "handle x h e req w = (resp, w')" by fastforce
  then have "patch_handle x h e req w = (Inr resp, w')"
    using handle_success [OF run] assms(4) s by (simp add: dispatch_def)
  then obtain decl where p: "\<not> info_is_final y"
    "declared_info (h_config h) (req_headers req) y = Inr decl"
    "chunk_fits (info_after decl y) (len_u64 d) (len_u64 (body_bytes req))"
    by (rule mem.patch_ok [OF assms(1) TrueI assms(2,3)]) (use assms(5,6) in auto)
  have "decl = None" using p(2) assms(7) declared_info_SomeD by (cases decl) auto
  then have fits: "chunk_fits y (len_u64 d) (len_u64 (body_bytes req))"
    using p(3) by (simp add: info_after_def)
  have off: "info_offset y = len_u64 d"
    using uploads_okD(2) [OF assms(2,6)] p(1) by (simp add: upload_ok_def)
  obtain m where m: "checked_add (len_u64 d) (len_u64 (body_bytes req)) = Some m"
    using fits by (auto simp: chunk_fits_def)
  have "len_u64 d + len_u64 (body_bytes req) \<le> n"
    using fits assms(7) by (simp add: chunk_fits_def)
  then have "len_u64 d \<le> n"
    using checked_add_SomeD [OF m] by (simp add: word_le_nat_alt)
  with off assms(8) show False by simp
qed

definition deferred_world :: "(mem_store, held_set) world" where
  "deferred_world =
     demo_world\<lparr>w_store := [''a'' \<mapsto> \<lparr>mu_info = (upload_info_new (UploadId ''a'') None)
                          \<lparr>info_offset := 3, info_size_is_deferred := True\<rparr>, mu_data = ''abc''\<rparr>]\<rparr>"

definition short_patch :: "req_env \<times> tus_request" where
  "short_patch =
     (demo_env ''u0'', \<lparr>req_method = PATCH, req_uri = '''', req_upload_id = Some ''a'',
        req_headers = tus_headers [(HDR_UPLOAD_OFFSET, ''3''), (HDR_UPLOAD_LENGTH, ''1''),
                                   (HDR_CONTENT_TYPE, ''application/offset+octet-stream'')],
        req_body = Some [Chunk ''d'']\<rparr>)"

lemma deferred_world_ok: "uploads_ok (mem_abs (w_store deferred_world))"
proof -
  have "mem_abs (w_store deferred_world) = [UploadId ''a'' \<mapsto> ((upload_info_new (UploadId ''a'') None)
          \<lparr>info_offset := 3, info_size_is_deferred := True\<rparr>, ''abc'')]"
    by (rule ext) (auto simp: mem_abs_def deferred_world_def upload_id.expand)
  then show ?thesis
    by (simp add: uploads_ok_def upload_ok_def upload_info_new_def len_u64_def)
qed

theorem short_declaration_sticks_witness:
  "resp_status (fst (demo_step (demo_patch ''a'' ''3'' ''e'') (snd (demo_step short_patch
     deferred_world)))) \<noteq> 204"
proof -
  define w where "w = snd (demo_step short_patch deferred_world)"
  define r where "r = demo_patch ''a'' ''3'' ''e''"
  have "sane_request (fst short_patch, snd short_patch)" by code_simp
  then have okw: "uploads_ok (mem_abs (w_store w))"
    using mem.handle_ok [of demo_server deferred_world "fst short_patch" "snd short_patch"
        demo_externals "fst (demo_step short_patch deferred_world)" w] deferred_world_ok
    by (simp add: w_def demo_step_def)
  have "map_option (\<lambda>(y, d). (info_size y, info_offset y)) (mem_abs (w_store w) (UploadId ''a''))
      = Some (Some 1, 3)"
    unfolding w_def deferred_world_def by code_simp
  then obtain y d where y: "mem_abs (w_store w) (UploadId ''a'') = Some (y, d)"
    "info_size y = Some 1" "info_offset y = 3"
    by auto
  have "request_fits (snd r)" "req_method (snd r) = PATCH"
    "request_id (snd r) = Inr (UploadId ''a'')"
    unfolding r_def by code_simp+
  then show ?thesis
    using short_declaration_sticks [of demo_server w "snd r" "UploadId ''a''" y d 1 demo_externals
        "fst r"] okw y
    by (simp add: w_def r_def demo_step_def)
qed

text \<open>
  Defect: a creation body overwrites a concatenation. A POST with \<open>Upload-Concat: final\<close> that
  also carries a body as a first chunk and is answered 201 first assembles the partial uploads and
  then writes the body over the start of the result and sets the offset to the length of the body:
  the final upload does not hold the bytes of its parts.
\<close>

theorem creation_body_overwrites_final:
  assumes "h_store h = memory_ops" and "uploads_ok (mem_abs (w_store w))"
    and "sane_request (e, req)" and "req_method req = POST"
    and "concat_is_final (req_headers req)" and "first_chunk (h_config h) req \<noteq> None"
    and "handle x h e req w = (resp, w')" and "resp_status resp = 201"
  shows "\<exists>i y ps bs. post_partials (h_config h) (req_headers req) = Inr (map info_id ps)
    \<and> list_all2 (\<lambda>p b. mem_abs (w_store w) (info_id p) = Some (p, b)) ps bs
    \<and> mem_abs (w_store w') i = Some (y, write_at (concat bs) 0 (body_bytes req))
    \<and> info_is_final y \<and> info_offset y = len_u64 (body_bytes req)"
proof -
  have run: "post_handle x h e req w = (Inr resp, w')"
    using handle_success [OF assms(7)] assms(4,8) by (simp add: dispatch_def)
  have uuid: "valid_id (UploadId (env_uuid e))" and fits: "request_fits req"
    using assms(3) by (simp_all add: sane_request_def)
  from assms(1) TrueI assms(2) uuid fits run show ?thesis
  proof (cases rule: mem.post_refines)
    case (created info0 info conc wr dels)
    note b = post_build_info_InrD [OF created(1)]
    note p = post_pre_create_InrD [OF created(2)]
    from created(7) [OF refl] obtain u where u: "mem_abs (w_store w') (info_id info) = Some u"
      and pd: "post_done x (h_config h) req info conc wr dels resp (mem_abs (w_store w)) u" by blast
    from pd have wr: "wr = Some (body_bytes req)" using assms(6) unfolding post_done_def by auto
    from pd obtain u0 where d: "post_assembles info (mem_abs (w_store w)) conc u0"
      "u = with_chunk wr u0"
      unfolding post_done_def by blast
    have fin: "info_is_final info" using b(3) p(2) assms(5) by simp
    with d(1) obtain ps bs where ps: "map info_id ps = info_partial_uploads info"
      "list_all2 (\<lambda>p b. mem_abs (w_store w) (info_id p) = Some (p, b)
                      \<and> info_is_partial p \<and> is_complete p) ps bs"
      "u0 = (with_total (len_u64 (concat bs)) info, concat bs)"
      by (auto simp: post_assembles_def)
    have "list_all2 (\<lambda>p b. mem_abs (w_store w) (info_id p) = Some (p, b)) ps bs"
      by (rule list.rel_mono_strong [OF ps(2)]) simp
    moreover have "post_partials (h_config h) (req_headers req) = Inr (map info_id ps)"
      using b(7) p(4) ps(1) by simp
    ultimately show ?thesis
      using u d(2) ps(3) fin
      by (intro exI [of _ "info_id info"] exI [of _ "fst u"] exI [of _ ps] exI [of _ bs])
         (simp add: with_chunk_def wr with_total_def)
  qed auto
qed

definition final_with_body :: "req_env \<times> tus_request" where
  "final_with_body =
     (demo_env ''c'', \<lparr>req_method = POST, req_uri = ''/files/'', req_upload_id = None,
        req_headers = tus_headers [(HDR_UPLOAD_CONCAT, ''final;/files/b /files/a''),
                                   (HDR_CONTENT_TYPE, ''application/offset+octet-stream'')],
        req_body = Some [Chunk ''!'']\<rparr>)"

theorem creation_body_overwrites_final_witness:
  "\<exists>i y. mem_abs (w_store (snd (demo_step final_with_body partials_world))) i = Some (y, ''!xy'')
     \<and> info_offset y = 1"
proof -
  have r: "sane_request (fst final_with_body, snd final_with_body)"
    "req_method (snd final_with_body) = POST"
    "concat_is_final (req_headers (snd final_with_body))"
    "first_chunk demo_config (snd final_with_body) \<noteq> None" "body_bytes (snd final_with_body) = ''!''"
    by code_simp+
  have ids: "post_partials demo_config (req_headers (snd final_with_body))
      = Inr [UploadId ''b'', UploadId ''a'']" by code_simp
  have "resp_status (fst (demo_step final_with_body partials_world)) = 201"
    unfolding partials_world_def by code_simp
  then obtain i y ps bs where
    p: "post_partials demo_config (req_headers (snd final_with_body)) = Inr (map info_id ps)"
    and l: "list_all2 (\<lambda>p b. mem_abs (w_store partials_world) (info_id p) = Some (p, b)) ps bs"
    and c: "mem_abs (w_store (snd (demo_step final_with_body partials_world))) i
        = Some (y, write_at (concat bs) 0 ''!'')" "info_offset y = len_u64 ''!''"
    using creation_body_overwrites_final [of demo_server partials_world "fst final_with_body"
        "snd final_with_body" demo_externals "fst (demo_step final_with_body partials_world)"
        "snd (demo_step final_with_body partials_world)"] partials_world_ok r
    by (auto simp: demo_step_def)
  obtain p q where ps: "ps = [p, q]" "info_id p = UploadId ''b''" "info_id q = UploadId ''a''"
    using p ids by (auto simp: map_eq_Cons_conv Cons_eq_map_conv)
  with l have "concat bs = ''zxy''" by (auto simp: list_all2_Cons1 partials_world_abs)
  with c show ?thesis by (auto simp: write_at_def len_u64_def)
qed

end
