(* ===== verification/Event_Laws.thy ===== *)
theory Event_Laws
  imports Server_Laws
begin

text \<open>
  The lifecycle events the handlers send, whatever the store and the locker: proved with the
  structural rules over the handlers, since no store operation sends an event.
\<close>

section \<open>Steps\<close>

definition sent :: "('s, 'l) tus_handler \<Rightarrow> hook_event list \<Rightarrow> hook_event list" where
  "sent h evs = (if h_hook_tx h then evs else [])"

definition events_are :: "hook_event list \<Rightarrow> ('s, 'l) world \<Rightarrow> bool" where
  "events_are E w = (w_events w = E)"

lemma events_on_store [valid_rules]: "keeps (events_are E) (on_store m)"
  by (rule keepsI) (simp add: events_are_def on_store_def split: prod.split)

lemma events_emit: "valid (events_are E) (emit h ev) (\<lambda>_. events_are (E @ sent h [ev])) Er"
  by (simp add: valid_def emit_def events_are_def sent_def)

lemma valid_silent_bind:
  assumes "keeps (events_are E) m" and "\<And>x. valid (events_are E) (k x) Q Er"
    and "\<And>er w. events_are E w \<Longrightarrow> Er er w"
  shows "valid (events_are E) (sm_bind m k) Q Er"
  using assms by (fastforce simp: valid_def sm_bind_def split: prod.splits sum.splits)

lemma valid_emit_bind:
  assumes "valid (events_are (E @ sent h [ev])) (k ()) Q Er"
  shows "valid (events_are E) (sm_bind (emit h ev) k) Q Er"
  using assms by (auto simp: valid_def sm_bind_def emit_def events_are_def sent_def)

lemma valid_lift_bind:
  assumes "\<And>y. r = Inr y \<Longrightarrow> valid P (k y) Q Er" and "\<And>er w. P w \<Longrightarrow> Er er w"
  shows "valid P (sm_bind (sm_lift r) k) Q Er"
  using assms by (cases r) (auto simp: valid_def sm_simps)

lemma valid_guard_bind:
  assumes "b \<Longrightarrow> valid P (k ()) Q Er" and "\<And>er w. P w \<Longrightarrow> Er er w"
  shows "valid P (sm_bind (sm_guard b er') k) Q Er"
  using assms by (auto simp: valid_def sm_simps)

lemma with_lock_events:
  assumes "valid (events_are E) body Q Er" and "\<And>er w. events_are E w \<Longrightarrow> Er er w"
    and "\<And>x w l. Q x w \<Longrightarrow> Q x (w\<lparr>w_lock := l\<rparr>)" and "\<And>er w l. Er er w \<Longrightarrow> Er er (w\<lparr>w_lock := l\<rparr>)"
  shows "valid (events_are E) (with_lock h i body) Q Er"
proof (rule validI)
  fix w x w' assume w: "events_are E w" and run: "with_lock h i body w = (Inr x, w')"
  then show "Q x w'"
  proof (cases rule: with_lock_cases [of h i body w])
    case (held l r w1 l')
    then have "body (w\<lparr>w_lock := l\<rparr>) = (Inr x, w1)" "w' = w1\<lparr>w_lock := l'\<rparr>" using run by simp_all
    with validD_Inr [OF assms(1), of "w\<lparr>w_lock := l\<rparr>" x w1] w show ?thesis
      by (simp add: assms(3) events_are_def)
  qed (use run in simp)
next
  fix w er w' assume w: "events_are E w" and run: "with_lock h i body w = (Inl er, w')"
  then show "Er er w'"
  proof (cases rule: with_lock_cases [of h i body w])
    case (refused er' l)
    then have "w' = w\<lparr>w_lock := l\<rparr>" using run by simp
    then show ?thesis using w assms(2) by (simp add: events_are_def)
  next
    case (held l r w1 l')
    then have "body (w\<lparr>w_lock := l\<rparr>) = (Inl er, w1)" "w' = w1\<lparr>w_lock := l'\<rparr>" using run by simp_all
    with validD_Inl [OF assms(1), of "w\<lparr>w_lock := l\<rparr>" er w1] w show ?thesis
      by (simp add: assms(4) events_are_def)
  qed
qed

definition finished :: "upload_info \<Rightarrow> hook_event list" where
  "finished info = (if is_complete info then [UploadFinished info] else [])"

lemma finish_events:
  "valid (events_are E) (finish_if_complete h i info)
     (\<lambda>_. events_are (E @ sent h (finished info))) (\<lambda>_. events_are E)"
proof (cases "is_complete info")
  case True
  then show ?thesis
    unfolding finish_if_complete_def sm_when_def finished_def
    by (simp, intro valid_silent_bind events_emit valid_rules)
next
  case False
  then show ?thesis
    unfolding finish_if_complete_def sm_when_def finished_def
    by (simp add: valid_def sm_simps sent_def)
qed

lemma sent_append [simp]: "sent h es @ sent h fs = sent h (es @ fs)"
  by (simp add: sent_def)

lemma events_are_silent: "events_are E w \<Longrightarrow> events_are (E @ sent h []) w"
  by (simp add: sent_def)

lemma events_are_lock [simp]: "events_are E (w\<lparr>w_lock := l\<rparr>) = events_are E w"
  by (simp add: events_are_def)

section \<open>The record of an event\<close>

text \<open>
  What ties the record an event carries to the store: the store answered with it, and has not been
  touched since, except by the finalization that a complete upload calls for.
\<close>

definition read_now :: "'s datastore \<Rightarrow> upload_id \<Rightarrow> upload_info \<Rightarrow> 's \<Rightarrow> bool" where
  "read_now ops i y s \<longleftrightarrow> (\<exists>s0. up_get_info ops i s0 = (Inr y, s))"

definition read_back :: "'s datastore \<Rightarrow> upload_id \<Rightarrow> upload_info \<Rightarrow> 's \<Rightarrow> bool" where
  "read_back ops i y s \<longleftrightarrow>
     (\<exists>s1. read_now ops i y s1 \<and> (s = s1 \<or> is_complete y \<and> (\<exists>r. up_finalize ops i s1 = (r, s))))"

lemma read_back_now: "read_now ops i y s \<Longrightarrow> read_back ops i y s"
  by (auto simp: read_back_def)

text \<open>The events so far, and the record just read.\<close>

definition holds :: "('s, 'l) tus_handler \<Rightarrow> hook_event list \<Rightarrow> upload_id \<Rightarrow> upload_info \<Rightarrow> ('s, 'l) world \<Rightarrow> bool" where
  "holds h E i y w \<longleftrightarrow> events_are E w \<and> read_now (h_store h) i y (w_store w)"

definition held_back :: "('s, 'l) tus_handler \<Rightarrow> hook_event list \<Rightarrow> upload_id \<Rightarrow> upload_info \<Rightarrow> ('s, 'l) world \<Rightarrow> bool" where
  "held_back h E i y w \<longleftrightarrow> events_are E w \<and> read_back (h_store h) i y (w_store w)"

lemma held_back_lock [simp]: "held_back h E i y (w\<lparr>w_lock := l\<rparr>) = held_back h E i y w"
  by (simp add: held_back_def)

lemma holds_held_back: "holds h E i y w \<Longrightarrow> held_back h E i y w"
  by (simp add: holds_def held_back_def read_back_now)

lemma holds_events: "holds h E i y w \<Longrightarrow> events_are E w"
  by (simp add: holds_def)

lemma read_then:
  assumes "\<And>y. valid (holds h E i y) (k y) Q Er" and "\<And>er w. events_are E w \<Longrightarrow> Er er w"
  shows "valid (events_are E) (sm_bind (on_store (up_get_info (h_store h) i)) k) Q Er"
proof (rule valid_bind)
  show "valid (events_are E) (on_store (up_get_info (h_store h) i)) (\<lambda>y. holds h E i y) Er"
    using assms(2)
    by (auto simp: valid_def on_store_def holds_def read_now_def events_are_def split: prod.split sum.split)
qed (rule assms(1))

lemma emit_then:
  assumes "valid (holds h (E @ sent h [ev]) i y) (k ()) Q Er"
  shows "valid (holds h E i y) (sm_bind (emit h ev) k) Q Er"
  using assms by (auto simp: valid_def sm_bind_def emit_def holds_def events_are_def sent_def)

lemma finish_then:
  assumes "\<And>u. valid (held_back h (E @ sent h (finished y)) i y) (k u) Q Er"
    and "\<And>er w. held_back h E i y w \<Longrightarrow> Er er w"
  shows "valid (holds h E i y) (sm_bind (finish_if_complete h i y) k) Q Er"
proof (rule valid_bind)
  show "valid (holds h E i y) (finish_if_complete h i y)
      (\<lambda>_. held_back h (E @ sent h (finished y)) i y) Er"
  proof (rule valid_weaken [where P = "holds h E i y" and Q = "\<lambda>_. held_back h (E @ sent h (finished y)) i y"
        and E = "\<lambda>_. held_back h E i y"])
    show "valid (holds h E i y) (finish_if_complete h i y)
        (\<lambda>_. held_back h (E @ sent h (finished y)) i y) (\<lambda>_. held_back h E i y)"
      by (auto simp: valid_def finish_if_complete_spec emit_def holds_def held_back_def read_back_def
          events_are_def finished_def sent_def split: sum.split prod.split)
  qed (use assms(2) in auto)
qed (rule assms(1))

section \<open>Handlers\<close>

lemma patch_write_events [valid_rules]: "keeps (events_are E) (patch_write x h i off body c)"
  unfolding patch_write_def by (intro valid_rules)

lemma patch_declare_events [valid_rules]: "keeps (events_are E) (patch_declare h hs i info)"
  unfolding patch_declare_def by (intro valid_rules)

text \<open>A PATCH: the record is read after the chunk was written.\<close>

definition patch_says ::
  "('s, 'l) tus_handler \<Rightarrow> hook_event list \<Rightarrow> upload_id \<Rightarrow> upload_info \<Rightarrow> hook_event list \<Rightarrow> ('s, 'l) world \<Rightarrow> bool"
where
  "patch_says h E rid y evs w \<longleftrightarrow>
     (\<exists>i s t. ds_get_upload (h_store h) rid s = (Inr i, t) \<and> held_back h (E @ sent h evs) i y w)"

lemma patch_locked_events:
  "valid (events_are E) (patch_locked x h e req off rid)
     (\<lambda>resp w. \<exists>y. resp = response x (h_config h) 204 (patch_headers x (h_config h) y) []
                  \<and> patch_says h E rid y (UploadProgress y # finished y) w)
     (\<lambda>_ w. events_are E w \<or> (\<exists>y. patch_says h E rid y [UploadProgress y] w))"
    (is "valid _ _ ?Q ?E")
proof -
  have tail: "valid (events_are E)
      (sm_bind (on_store (up_get_info (h_store h) i)) (\<lambda>new_info.
       sm_bind (emit h (UploadProgress new_info)) (\<lambda>_.
       sm_bind (finish_if_complete h i new_info) (\<lambda>_.
       sm_return (response x (h_config h) 204 (patch_headers x (h_config h) new_info) []))))) ?Q ?E"
    if "ds_get_upload (h_store h) rid s = (Inr i, t)" for i s t
    by (rule read_then emit_then finish_then valid_return)+
       (use that in \<open>auto simp: patch_says_def\<close>)
  have opened: "valid (events_are E) (on_store (ds_get_upload (h_store h) rid))
      (\<lambda>i w. events_are E w \<and> (\<exists>s t. ds_get_upload (h_store h) rid s = (Inr i, t))) ?E"
    by (auto simp: valid_def on_store_def events_are_def split: prod.split sum.split)
  show ?thesis
    unfolding patch_locked_def
  proof (rule valid_bind [OF opened], goal_cases)
    case (1 i)
    show ?case
    proof (cases "\<exists>s t. ds_get_upload (h_store h) rid s = (Inr i, t)")
      case True
      then obtain s t where g: "ds_get_upload (h_store h) rid s = (Inr i, t)" by blast
      show ?thesis
        by (rule valid_pre [where P = "events_are E"])
           ((rule tail [OF g] | (rule valid_silent_bind, (intro valid_rules) [1]))+, auto)
    qed (simp add: valid_def)
  qed
qed

lemma post_first_chunk_events [valid_rules]: "keeps (events_are E) (post_first_chunk h req i)"
  unfolding post_first_chunk_def by (intro valid_rules)

lemma post_concatenate_events [valid_rules]: "keeps (events_are E) (post_concatenate h i info)"
  unfolding post_concatenate_def fetch_partial_infos_def fetch_partial_info_def
  by (intro valid_rules)

text \<open>The removal of the partial uploads: each is announced once it is deleted, in their order.\<close>

lemma post_remove_partial_events:
  "valid (events_are E) (post_remove_partial h p)
     (\<lambda>_. events_are (E @ sent h [UploadTerminated p])) (\<lambda>_. events_are E)"
  unfolding post_remove_partial_def
  by (intro valid_silent_bind events_emit) (auto intro: valid_rules split: option.split)

lemma post_remove_partials_events:
  "valid (events_are E) (sm_for ps (post_remove_partial h))
     (\<lambda>_. events_are (E @ sent h (map UploadTerminated ps)))
     (\<lambda>_ w. \<exists>n. events_are (E @ sent h (map UploadTerminated (take n ps))) w)"
proof (induction ps arbitrary: E)
  case Nil
  then show ?case by (auto simp: valid_def sm_simps sent_def)
next
  case (Cons p ps)
  have step: "events_are (E @ sent h [UploadTerminated p] @ sent h evs) w
      = events_are (E @ sent h (UploadTerminated p # evs)) w" for evs and w :: "('a, 'b) world"
    by simp
  show ?case
    unfolding sm_for.simps
  proof (rule valid_bind [where R = "\<lambda>_. events_are (E @ sent h [UploadTerminated p])"], goal_cases)
    case 1
    show ?case
      by (rule valid_weaken [OF post_remove_partial_events]) (auto intro: exI [of _ 0] simp: sent_def)
  next
    case (2 u)
    show ?case
      by (rule valid_weaken [OF Cons.IH [of "E @ sent h [UploadTerminated p]"]])
         (auto intro: exI [of _ "Suc _"])
  qed
qed

definition cleanup_asked :: "config \<Rightarrow> bool \<Rightarrow> bool" where
  "cleanup_asked cfg final \<longleftrightarrow>
     final \<and> ext_concatenation (cfg_extensions cfg) \<and> ext_cleanup_concat_partials (cfg_extensions cfg)"

definition removed :: "config \<Rightarrow> bool \<Rightarrow> hook_event list \<Rightarrow> bool" where
  "removed cfg final evs \<longleftrightarrow>
     (\<exists>ps. evs = map UploadTerminated ps) \<and> (cleanup_asked cfg final \<or> evs = [])"

lemma post_cleanup_then:
  assumes "\<And>fi evs. removed (h_config h) final evs \<Longrightarrow> valid (holds h (E @ sent h evs) i fi) (k fi) Q Er"
    and "\<And>er w evs. removed (h_config h) final evs \<Longrightarrow> events_are (E @ sent h evs) w \<Longrightarrow> Er er w"
  shows "valid (holds h E i y) (sm_bind (post_cleanup h i final y) k) Q Er"
proof (cases "cleanup_asked (h_config h) final")
  case True
  then have removed: "removed (h_config h) final (map UploadTerminated ps)" for ps
    by (auto simp: removed_def)
  have "valid (events_are E) (sm_bind (sm_for (info_partial_uploads y) (post_remove_partial h))
      (\<lambda>_. sm_bind (on_store (up_get_info (h_store h) i)) k)) Q Er"
  proof (rule valid_bind)
    show "valid (events_are E) (sm_for (info_partial_uploads y) (post_remove_partial h))
        (\<lambda>_. events_are (E @ sent h (map UploadTerminated (info_partial_uploads y)))) Er"
      by (rule valid_weaken [OF post_remove_partials_events]) (use assms(2) [OF removed] in auto)
  qed (rule read_then [OF assms(1) [OF removed] assms(2) [OF removed]])
  moreover have "sm_bind (post_cleanup h i final y) k
      = sm_bind (sm_for (info_partial_uploads y) (post_remove_partial h))
          (\<lambda>_. sm_bind (on_store (up_get_info (h_store h) i)) k)"
    using True by (simp add: post_cleanup_def cleanup_asked_def sm_bind_assoc)
  ultimately show ?thesis by (simp only:) (erule valid_pre, erule holds_events)
next
  case False
  then have "post_cleanup h i final y = sm_return y"
    by (auto simp: post_cleanup_def cleanup_asked_def)
  moreover have "removed (h_config h) final []" by (simp add: removed_def)
  ultimately show ?thesis
    using assms(1) [of "[]" y] by (simp add: valid_def sm_simps sent_def)
qed

lemma post_effects_events:
  "valid (events_are E) (post_effects x h req info)
     (\<lambda>resp w. \<exists>i y hs ds. removed (h_config h) (info_is_final info) ds
        \<and> held_back h (E @ sent h (ds @ UploadCreated y # finished y)) i y w
        \<and> post_headers x (h_config h) (build_location (h_config h) (info_id y) (req_headers req)) y = Inr hs
        \<and> resp = response x (h_config h) 201 hs [])
     (\<lambda>_ w. \<exists>ds. removed (h_config h) (info_is_final info) ds
        \<and> (events_are (E @ sent h ds) w
          \<or> (\<exists>i y evs. held_back h (E @ sent h (ds @ UploadCreated y # evs)) i y w \<and> evs \<in> {[], finished y})))"
    (is "valid _ _ ?Q ?E")
proof -
  have silent: "?E er w" if "events_are E w" for er w
    using that by (intro exI [of _ "[]"]) (simp add: removed_def sent_def)
  have last: "valid (held_back h (E @ sent h (ds @ UploadCreated y # finished y)) i y)
      (sm_bind (sm_lift (post_headers x (h_config h)
          (build_location (h_config h) (info_id y) (req_headers req)) y))
        (\<lambda>headers. sm_return (response x (h_config h) 201 headers []))) ?Q ?E"
    if "removed (h_config h) (info_is_final info) ds" for ds i y
    by (rule valid_lift_bind, rule valid_return) (use that in blast)+
  have tail: "valid (holds h (E @ sent h ds) i y)
      (sm_bind (emit h (UploadCreated y)) (\<lambda>_.
       sm_bind (finish_if_complete h i y) (\<lambda>_.
       sm_bind (sm_lift (post_headers x (h_config h)
          (build_location (h_config h) (info_id y) (req_headers req)) y))
        (\<lambda>headers. sm_return (response x (h_config h) 201 headers []))))) ?Q ?E"
    if "removed (h_config h) (info_is_final info) ds" for ds i y
    by (rule emit_then, rule finish_then)
       (use last [OF that] in simp, use that in \<open>simp, blast\<close>)
  have middle: "valid (holds h E i y) (sm_bind (sm_lift (exceeds_declared y n)) (\<lambda>_.
      sm_bind (post_cleanup h i (info_is_final info) y) (\<lambda>final_info.
      sm_bind (emit h (UploadCreated final_info)) (\<lambda>_.
      sm_bind (finish_if_complete h i final_info) (\<lambda>_.
      sm_bind (sm_lift (post_headers x (h_config h)
          (build_location (h_config h) (info_id final_info) (req_headers req)) final_info))
        (\<lambda>headers. sm_return (response x (h_config h) 201 headers []))))))) ?Q ?E" for i y n
    by (intro valid_lift_bind post_cleanup_then tail) (blast intro: silent [OF holds_events])+
  show ?thesis
    unfolding post_effects_def
    by ((rule read_then | (rule valid_silent_bind, (intro valid_rules) [1]))+)
       (rule middle | erule silent)+
qed

lemma delete_locked_events:
  "valid (events_are E) (delete_locked x h i)
     (\<lambda>resp w. resp_status resp = 204 \<and> events_are (E @ sent h [UploadTerminated i]) w)
     (\<lambda>_. events_are E)"
  unfolding delete_locked_def
  by ((rule valid_emit_bind valid_return
       | (rule valid_silent_bind, (intro valid_rules) [1]))+) auto

text \<open>What a request says about its events; \<open>evs\<close> is what the handler sent, in order.\<close>

definition request_events ::
  "externals \<Rightarrow> config \<Rightarrow> 's datastore \<Rightarrow> tus_request \<Rightarrow> tus_response \<Rightarrow> 's \<Rightarrow> hook_event list \<Rightarrow> bool"
where
  "request_events x cfg ops req resp s' evs =
     (case req_method req of
        PATCH \<Rightarrow>
          evs = [] \<and> resp_status resp \<noteq> 204
          \<or> (\<exists>rid i y s t. request_id req = Inr rid \<and> ds_get_upload ops rid s = (Inr i, t) \<and> read_back ops i y s'
              \<and> (if resp_status resp = 204
                 then evs = UploadProgress y # finished y
                      \<and> resp = response x cfg 204 (patch_headers x cfg y) []
                 else evs = [UploadProgress y]))
      | POST \<Rightarrow>
          (\<exists>ds evs'. removed cfg (concat_is_final (req_headers req)) ds \<and> evs = ds @ evs'
            \<and> (evs' = [] \<and> resp_status resp \<noteq> 201
               \<or> (\<exists>i y. read_back ops i y s'
                    \<and> (if resp_status resp = 201
                       then evs' = UploadCreated y # finished y
                            \<and> (\<exists>hs. post_headers x cfg (build_location cfg (info_id y) (req_headers req)) y = Inr hs
                                  \<and> resp = response x cfg 201 hs [])
                       else evs' \<in> {[UploadCreated y], UploadCreated y # finished y}))))
      | DELETE \<Rightarrow>
          (if resp_status resp = 204
           then \<exists>i. request_id req = Inr i \<and> evs = [UploadTerminated i] else evs = [])
      | m \<Rightarrow> evs = [])"

lemma handler_events:
  "valid (events_are E) (dispatch x h e req)
    (\<lambda>resp w. \<exists>evs. events_are (E @ sent h evs) w
        \<and> request_events x (h_config h) (h_store h) req resp (w_store w) evs)
    (\<lambda>er w. \<exists>evs. events_are (E @ sent h evs) w
        \<and> request_events x (h_config h) (h_store h) req (error_response x (h_config h) er) (w_store w) evs)"
    (is "valid _ _ ?Q ?E")
proof -
  have errors: "status_code er \<noteq> 204" "status_code er \<noteq> 201" for er
    using status_code_range [of er] by linarith+
  have silent: "?E er w" if "events_are E w" for er w
    using that errors
    by (intro exI [of _ "[]"]) (auto simp: request_events_def sent_def removed_def split: http_method.split)
  show ?thesis
  proof (cases "req_method req")
    case POST
    have "valid (events_are E) (post_effects x h req info) ?Q ?E"
      if "info_is_final info = concat_is_final (req_headers req)" for info
      by (rule valid_weaken [OF post_effects_events [where E = E]])
         (force simp: request_events_def POST errors that held_back_def)+
    then have "valid (events_are E) (post_handle x h e req) ?Q ?E"
      unfolding post_handle_def
      by (intro valid_lift_bind valid_guard_bind)
         (auto intro: silent dest!: post_build_info_InrD(3) post_pre_create_InrD(2))
    then show ?thesis by (simp add: dispatch_def POST)
  next
    case PATCH
    have "valid (events_are E) (patch_locked x h e req off i) ?Q ?E" if "request_id req = Inr i" for off i
    proof (rule valid_weaken [OF patch_locked_events [where E = E]], goal_cases)
      case (2 resp w)
      then show ?case using that by (fastforce simp: request_events_def PATCH patch_says_def held_back_def)
    next
      case (3 er w)
      then show ?case
        using that silent [of w er]
        by (elim disjE) (auto simp: request_events_def PATCH errors patch_says_def held_back_def)
    qed simp
    then have "valid (events_are E) (with_lock h i (patch_locked x h e req off i)) ?Q ?E"
      if "request_id req = Inr i" for off i
      by (rule with_lock_events) (use that in \<open>auto intro: silent\<close>)
    then show ?thesis
      unfolding dispatch_def PATCH http_method.case patch_handle_def Let_def
      by (intro valid_lift_bind valid_guard_bind) (auto intro: silent)
  next
    case DELETE
    have "valid (events_are E) (delete_locked x h i) ?Q ?E" if "request_id req = Inr i" for i
      by (rule valid_weaken [OF delete_locked_events [where E = E]])
         (auto simp: request_events_def DELETE errors that intro: events_are_silent)
    then have "valid (events_are E) (with_lock h i (delete_locked x h i)) ?Q ?E"
      if "request_id req = Inr i" for i
      by (rule with_lock_events) (use that in \<open>auto intro: silent\<close>)
    moreover have "keeps (events_are E) (delete_veto h i)" for i
      unfolding delete_veto_def by (intro valid_rules)
    ultimately have "valid (events_are E)
        (sm_bind (delete_veto h i) (\<lambda>_. with_lock h i (delete_locked x h i))) ?Q ?E"
      if "request_id req = Inr i" for i
      by (intro valid_silent_bind) (use that in \<open>auto intro: silent\<close>)
    then show ?thesis
      unfolding dispatch_def DELETE http_method.case delete_handle_def
      by (intro valid_lift_bind valid_guard_bind) (auto intro: silent)
  next
    case GET
    have "keeps (events_are E) (get_locked x h e i)" for i
      unfolding get_locked_def by (intro valid_rules)
    then have "keeps (events_are E) (with_lock h i (get_locked x h e i))" for i
      by (rule with_lock_events) auto
    then have "keeps (events_are E) (get_handle x h e req)"
      unfolding get_handle_def by (intro valid_rules)
    then show ?thesis
      unfolding dispatch_def GET http_method.case
      by (rule valid_weaken) (auto simp: request_events_def GET sent_def intro: silent exI [of _ "[]"])
  next
    case HEAD
    have "keeps (events_are E) (head_handle x h e req)"
      unfolding head_handle_def by (intro valid_rules)
    then show ?thesis
      unfolding dispatch_def HEAD http_method.case
      by (rule valid_weaken) (auto simp: request_events_def HEAD sent_def intro: silent exI [of _ "[]"])
  next
    case OPTIONS
    have "keeps (events_are E) (options_handle x h e req)"
      unfolding options_handle_def by (intro valid_rules)
    then show ?thesis
      unfolding dispatch_def OPTIONS http_method.case
      by (rule valid_weaken) (auto simp: request_events_def OPTIONS sent_def intro: silent exI [of _ "[]"])
  next
    case (OtherMethod m)
    then show ?thesis
      by (auto simp: dispatch_def intro!: valid_fail silent)
  qed
qed


text \<open>Over the in-memory store the record of an event is the one the store holds when the request is over.\<close>

lemma read_back_memory: "read_back memory_ops i y s \<Longrightarrow> \<exists>d. mem_abs s i = Some (y, d)"
  by (auto simp: read_back_def read_now_def mem_get_info_def mem_finalize_def mem_abs_def split: option.splits)

definition listened_server :: "(mem_store, held_set) tus_handler" where
  "listened_server = tus_handler_new memory_ops (Some memory_locker_ops)
     (demo_config\<lparr>cfg_hooks := (cfg_hooks demo_config)\<lparr>channel_capacity := 16\<rparr>\<rparr>)"

definition full_post :: "req_env \<times> tus_request" where
  "full_post =
     (fst (demo_post ''b'' []),
      (snd (demo_post ''b'' [(HDR_UPLOAD_LENGTH, ''2''),
                             (HDR_CONTENT_TYPE, ''application/offset+octet-stream'')]))
        \<lparr>req_body := Some [Chunk ''hi'']\<rparr>)"


end
