(* ===== verification/Object_Store.thy ===== *)
theory Object_Store
  imports File_Names
begin

text \<open>
  What the three object-store back ends (\<open>fileloft-store-s3\<close>, \<open>-gcs\<close>, \<open>-azure\<close>) share: the keys
  \<open>{prefix}{id}.info\<close>, \<open>{prefix}{id}_part_{n}\<close> and \<open>{prefix}{id}\<close>, and the operations of an upload
  written over the calls of a back end. The clients of the services are third-party code; a back end
  supplies its calls, already with its own error mapping, as the record \<open>object_calls\<close>.
\<close>

section \<open>Keys\<close>

text \<open>\<open>if !prefix.is_empty() && !prefix.ends_with('/') { prefix.push('/') }\<close>\<close>

definition normal_prefix :: "string \<Rightarrow> string" where
  "normal_prefix pre = (if pre \<noteq> [] \<and> \<not> ends_with pre ''/'' then pre @ ''/'' else pre)"

definition data_key :: "string \<Rightarrow> upload_id \<Rightarrow> string" where
  "data_key pre i = pre @ as_str i"

definition info_key :: "string \<Rightarrow> upload_id \<Rightarrow> string" where
  "info_key pre i = pre @ as_str i @ ''.info''"

definition part_key :: "string \<Rightarrow> upload_id \<Rightarrow> u32 \<Rightarrow> string" where
  "part_key pre i k = pre @ as_str i @ ''_part_'' @ dec (unat k)"

definition part_prefix :: "string \<Rightarrow> upload_id \<Rightarrow> string" where
  "part_prefix pre i = pre @ as_str i @ ''_part_''"

text \<open>\<open>key.rsplit('_').next().and_then(|s| s.parse::<u32>().ok()).unwrap_or(0)\<close>\<close>

definition key_index :: "string \<Rightarrow> u32" where
  "key_index key = (case parse_u32 (last (split_on (CHR ''_'') key)) of Some k \<Rightarrow> k | None \<Rightarrow> 0)"

text \<open>\<open>slice.chunks(n)\<close>: groups of \<open>n\<close>, the last one shorter. (\<open>n\<close> is a constant above 0.)\<close>

function chunks :: "nat \<Rightarrow> 'a list \<Rightarrow> 'a list list" where
  "chunks n xs = (if xs = [] \<or> n = 0 then [] else take n xs # chunks n (drop n xs))"
  by pat_completeness auto
termination
  by (relation "measure (\<lambda>(n, xs). length xs)") auto

declare chunks.simps [simp del]

lemma chunks_Nil [simp]: "chunks n [] = []"
  by (simp add: chunks.simps [of n])

lemma length_chunks: "0 < n \<Longrightarrow> n * length (chunks n xs) < length xs + n"
proof (induction n xs rule: chunks.induct)
  case (1 n xs)
  show ?case
  proof (cases "xs = []")
    case False
    then have "n * length (chunks n (drop n xs)) < length xs - n + n" using 1 by simp
    then show ?thesis
      using False 1(2) by (cases "length xs < n") (simp_all add: chunks.simps [of n xs])
  qed (use 1(2) in simp)
qed

lemma concat_chunks: "0 < n \<Longrightarrow> concat (chunks n xs) = xs"
proof (induction n xs rule: chunks.induct)
  case (1 n xs)
  then show ?case by (cases "xs = []") (simp_all add: chunks.simps [of n xs])
qed

lemma chunks_bounds: "0 < n \<Longrightarrow> g \<in> set (chunks n xs) \<Longrightarrow> g \<noteq> [] \<and> length g \<le> n"
proof (induction n xs rule: chunks.induct)
  case (1 n xs)
  then show ?case by (cases "xs = []") (auto simp: chunks.simps [of n xs])
qed

section \<open>The calls of a back end\<close>

record 'b object_calls =
  oc_read_info :: "upload_id \<Rightarrow> ('b, upload_info) op"
  oc_write_info :: "upload_id \<Rightarrow> upload_info \<Rightarrow> ('b, unit) op"
  oc_list_parts :: "upload_id \<Rightarrow> ('b, string list) op"
  oc_put_part :: "upload_id \<Rightarrow> string \<Rightarrow> bytes \<Rightarrow> ('b, unit) op"
  oc_put_empty :: "upload_id \<Rightarrow> string \<Rightarrow> ('b, unit) op"
  oc_get_data :: "upload_id \<Rightarrow> string \<Rightarrow> ('b, reader) op"
  oc_assemble :: "upload_id \<Rightarrow> string \<Rightarrow> string list \<Rightarrow> string \<Rightarrow> ('b, unit) op"
  oc_delete :: "string \<Rightarrow> 'b \<Rightarrow> 'b"

text \<open>The codec's errors, as every back end words them.\<close>

definition info_json :: "json_codec \<Rightarrow> upload_info \<Rightarrow> tus_error + bytes" where
  "info_json js info = map_sum (\<lambda>e. Internal (''serialize info: '' @ e)) id (to_json js info)"

definition json_info :: "json_codec \<Rightarrow> bytes \<Rightarrow> tus_error + upload_info" where
  "json_info js b = map_sum (\<lambda>e. Internal (''deserialize info: '' @ e)) id (from_json js b)"

section \<open>Operations\<close>

definition object_create_upload :: "'b object_calls \<Rightarrow> upload_info \<Rightarrow> ('b, upload_id) op" where
  "object_create_upload c info =
     sm_bind (oc_write_info c (info_id info) info) (\<lambda>_. sm_return (info_id info))"

definition object_get_upload :: "'b object_calls \<Rightarrow> upload_id \<Rightarrow> ('b, upload_id) op" where
  "object_get_upload c i = sm_bind (oc_read_info c i) (\<lambda>_. sm_return i)"

definition object_write_chunk ::
  "string \<Rightarrow> 'b object_calls \<Rightarrow> upload_id \<Rightarrow> u64 \<Rightarrow> reader \<Rightarrow> ('b, u64) op" where
  "object_write_chunk pre c i off rd =
     sm_bind (oc_read_info c i) (\<lambda>info.
     sm_bind (sm_guard (info_offset info = off) (OffsetMismatch (info_offset info) off)) (\<lambda>_.
     sm_bind (sm_lift (read_all rd)) (\<lambda>buf.
       (let n = len_u64 buf
        in sm_bind (sm_lift (opt_to_res (Internal ''upload offset overflow'') (checked_add off n)))
             (\<lambda>end_offset.
           sm_bind (sm_lift (exceeds (info_size info) end_offset)) (\<lambda>_.
           sm_bind (oc_list_parts c i) (\<lambda>parts.
           sm_bind (oc_put_part c i (part_key pre i (word_of_nat (length parts))) buf) (\<lambda>_.
           sm_bind (oc_write_info c i (info\<lparr>info_offset := end_offset\<rparr>)) (\<lambda>_.
           sm_return n)))))))))"

definition object_read_content ::
  "string \<Rightarrow> 'b object_calls \<Rightarrow> upload_id \<Rightarrow> ('b, reader) op" where
  "object_read_content pre c i =
     sm_bind (oc_read_info c i) (\<lambda>info.
     sm_bind (sm_guard (is_complete info) UploadNotReadyForDownload) (\<lambda>_.
     oc_get_data c i (data_key pre i)))"

definition object_finalize :: "string \<Rightarrow> 'b object_calls \<Rightarrow> upload_id \<Rightarrow> ('b, unit) op" where
  "object_finalize pre c i =
     sm_bind (oc_list_parts c i) (\<lambda>parts.
       if parts = [] then oc_put_empty c i (data_key pre i)
       else oc_assemble c i (data_key pre i) parts ''finalize'')"

definition object_delete :: "string \<Rightarrow> 'b object_calls \<Rightarrow> upload_id \<Rightarrow> ('b, unit) op" where
  "object_delete pre c i b =
     (let b = oc_delete c (data_key pre i) b;
          b = oc_delete c (info_key pre i) b
      in case oc_list_parts c i b of
           (Inr parts, b') \<Rightarrow> (Inr (), fold (oc_delete c) parts b')
         | (Inl e, b') \<Rightarrow> (Inr (), b'))"

definition object_declare_length :: "'b object_calls \<Rightarrow> upload_id \<Rightarrow> u64 \<Rightarrow> ('b, unit) op" where
  "object_declare_length c i n =
     sm_bind (oc_read_info c i) (\<lambda>info.
     sm_bind (sm_guard (info_size info = None) UploadLengthAlreadySet) (\<lambda>_.
     oc_write_info c i (info\<lparr>info_size := Some n, info_size_is_deferred := False\<rparr>)))"

definition object_concatenate ::
  "string \<Rightarrow> 'b object_calls \<Rightarrow> upload_id \<Rightarrow> upload_info list \<Rightarrow> ('b, unit) op" where
  "object_concatenate pre c i partials =
     (let source_keys = map (\<lambda>p. data_key pre (info_id p)) partials
      in sm_bind (oc_assemble c i (data_key pre i) source_keys ''concatenate'') (\<lambda>_.
         (let total = sum_sizes partials
          in sm_bind (oc_read_info c i) (\<lambda>info.
             oc_write_info c i (info\<lparr>info_size := Some total, info_offset := total,
                                     info_is_final := True\<rparr>)))))"

definition object_ops :: "string \<Rightarrow> 'b object_calls \<Rightarrow> 'b datastore" where
  "object_ops pre c =
     \<lparr>ds_create_upload = object_create_upload c, ds_get_upload = object_get_upload c,
      up_write_chunk = object_write_chunk pre c, up_get_info = oc_read_info c,
      up_finalize = object_finalize pre c, up_delete = object_delete pre c,
      up_declare_length = object_declare_length c, up_concatenate = object_concatenate pre c,
      up_read_content = object_read_content pre c\<rparr>"

lemma object_ops_sel [simp]:
  "ds_create_upload (object_ops pre c) = object_create_upload c"
  "ds_get_upload (object_ops pre c) = object_get_upload c"
  "up_write_chunk (object_ops pre c) = object_write_chunk pre c"
  "up_get_info (object_ops pre c) = oc_read_info c"
  "up_finalize (object_ops pre c) = object_finalize pre c"
  "up_delete (object_ops pre c) = object_delete pre c"
  "up_declare_length (object_ops pre c) = object_declare_length c"
  "up_concatenate (object_ops pre c) = object_concatenate pre c"
  "up_read_content (object_ops pre c) = object_read_content pre c"
  by (simp_all add: object_ops_def)

section \<open>Names below a prefix\<close>

lemma key_names:
  "data_key pre i = pre @ as_str i" "info_key pre i = pre @ info_name i"
  "part_key pre i k = pre @ part_name i k" "part_prefix pre i = pre @ part_stem i"
  by (simp_all add: data_key_def info_key_def part_key_def part_prefix_def info_name_def
      part_name_def part_stem_def)

lemma last_split_no_sep: "CHR ''_'' \<notin> set t \<Longrightarrow> last (split_on (CHR ''_'') (s @ CHR ''_'' # t)) = t"
  by (simp add: split_on_sep split_on_no_sep)

lemma key_index_part [simp]: "key_index (pre @ part_name i k) = k"
proof -
  have "pre @ part_name i k = (pre @ as_str i @ ''_part'') @ CHR ''_'' # dec (unat k)"
    by (simp add: part_name_def)
  then show ?thesis
    by (simp only: key_index_def last_split_no_sep [OF dec_no_us]) simp
qed

lemma normal_prefix_ok: "normal_prefix pre = [] \<or> ends_with (normal_prefix pre) ''/''"
  by (simp add: normal_prefix_def ends_with_def suffix_def)

end
