(* ===== verification/S3_Store.thy ===== *)
theory S3_Store
  imports Object_Store
begin

text \<open>
  \<open>fileloft-store-s3/src/store.rs\<close> and \<open>error.rs\<close>. The AWS client is third-party code: the record
  \<open>s3_client\<close> of the requests the store sends, each on the state \<open>'b\<close> of the service. A list request
  names one page; the loop over pages follows the continuation tokens and need not end, so it is a
  partial function. The assembly of an object streams the sources into parts of a multipart upload.
\<close>

section \<open>The client\<close>

text \<open>\<open>SdkError\<close>: a service error with its code, a raw response with its status, or another failure.\<close>

datatype s3_error =
    ServiceError "string option" string
  | ResponseError nat string
  | OtherSdkError string

fun s3_error_text :: "s3_error \<Rightarrow> string" where
  "s3_error_text (ServiceError c t) = t"
| "s3_error_text (ResponseError status t) = t"
| "s3_error_text (OtherSdkError t) = t"

record s3_page =
  pg_keys :: "string option list"
  pg_truncated :: "bool option"
  pg_next :: "string option"

record completed_part =
  cp_etag :: string
  cp_number :: int

record 'b s3_client =
  s3_put_object :: "string \<Rightarrow> string \<Rightarrow> bytes \<Rightarrow> 'b \<Rightarrow> (s3_error + unit) \<times> 'b"
  s3_get_object :: "string \<Rightarrow> string \<Rightarrow> 'b \<Rightarrow> s3_error + reader"
  s3_list_objects :: "string \<Rightarrow> string \<Rightarrow> string option \<Rightarrow> 'b \<Rightarrow> s3_error + s3_page"
  s3_delete_object :: "string \<Rightarrow> string \<Rightarrow> 'b \<Rightarrow> (s3_error + unit) \<times> 'b"
  s3_create_multipart :: "string \<Rightarrow> string \<Rightarrow> 'b \<Rightarrow> (s3_error + string option) \<times> 'b"
  s3_upload_part :: "string \<Rightarrow> string \<Rightarrow> string \<Rightarrow> int \<Rightarrow> bytes \<Rightarrow> 'b \<Rightarrow> (s3_error + string option) \<times> 'b"
  s3_complete_multipart :: "string \<Rightarrow> string \<Rightarrow> string \<Rightarrow> completed_part list \<Rightarrow> 'b \<Rightarrow> (s3_error + unit) \<times> 'b"
  s3_abort_multipart :: "string \<Rightarrow> string \<Rightarrow> string \<Rightarrow> 'b \<Rightarrow> (s3_error + unit) \<times> 'b"

fun s3_is_not_found :: "s3_error \<Rightarrow> bool" where
  "s3_is_not_found (ServiceError c t) \<longleftrightarrow>
     c = Some ''NoSuchKey'' \<or> c = Some ''NotFound'' \<or> c = Some ''404''"
| "s3_is_not_found (ResponseError status t) \<longleftrightarrow> status = 404"
| "s3_is_not_found (OtherSdkError t) \<longleftrightarrow> False"

definition s3_err :: "upload_id \<Rightarrow> string \<Rightarrow> s3_error \<Rightarrow> tus_error" where
  "s3_err i op e =
     (if s3_is_not_found e then NotFound (as_str i)
      else Internal (''S3 '' @ op @ '': '' @ s3_error_text e))"

text \<open>A request that changes the service, and one that reads it, with \<open>.map_err(..)?\<close>.\<close>

definition s3_send :: "upload_id \<Rightarrow> string \<Rightarrow> ('b \<Rightarrow> (s3_error + 'a) \<times> 'b) \<Rightarrow> ('b, 'a) op" where
  "s3_send i op m b = (case m b of (r, b') \<Rightarrow> (map_sum (s3_err i op) id r, b'))"

definition s3_ask :: "upload_id \<Rightarrow> string \<Rightarrow> ('b \<Rightarrow> s3_error + 'a) \<Rightarrow> ('b, 'a) op" where
  "s3_ask i op m b = (map_sum (s3_err i op) id (m b), b)"

section \<open>The store and its builder\<close>

record 'b s3_store =
  s3_client :: "'b s3_client"
  s3_bucket :: string
  s3_prefix :: string

datatype s3_store_error = S3_BucketEmpty | S3_ClientInit string

record 'b s3_builder =
  sb_bucket :: string
  sb_prefix :: string
  sb_endpoint_url :: "string option"
  sb_force_path_style :: bool
  sb_region :: "string option"
  sb_client :: "'b s3_client option"

definition s3_store_builder :: "string \<Rightarrow> 'b s3_builder" where
  "s3_store_builder bucket =
     \<lparr>sb_bucket = bucket, sb_prefix = [], sb_endpoint_url = None, sb_force_path_style = False,
      sb_region = None, sb_client = None\<rparr>"

definition s3_builder_prefix :: "string \<Rightarrow> 'b s3_builder \<Rightarrow> 'b s3_builder" where
  "s3_builder_prefix p b = b\<lparr>sb_prefix := p\<rparr>"

definition s3_builder_endpoint_url :: "string \<Rightarrow> 'b s3_builder \<Rightarrow> 'b s3_builder" where
  "s3_builder_endpoint_url u b = b\<lparr>sb_endpoint_url := Some u\<rparr>"

definition s3_builder_force_path_style :: "bool \<Rightarrow> 'b s3_builder \<Rightarrow> 'b s3_builder" where
  "s3_builder_force_path_style yes b = b\<lparr>sb_force_path_style := yes\<rparr>"

definition s3_builder_region :: "string \<Rightarrow> 'b s3_builder \<Rightarrow> 'b s3_builder" where
  "s3_builder_region r b = b\<lparr>sb_region := Some r\<rparr>"

definition s3_builder_with_client :: "'b s3_client \<Rightarrow> 'b s3_builder \<Rightarrow> 'b s3_builder" where
  "s3_builder_with_client c b = b\<lparr>sb_client := Some c\<rparr>"

text \<open>
  \<open>build\<close>. Loading the AWS configuration and making a client of it is third-party code: \<open>load\<close> takes
  the endpoint, the path style when it is forced and the region.
\<close>

definition s3_build ::
  "(string option \<Rightarrow> bool \<Rightarrow> string option \<Rightarrow> 'b s3_client) \<Rightarrow> 'b s3_builder
     \<Rightarrow> s3_store_error + 'b s3_store" where
  "s3_build load b =
     (if sb_bucket b = [] then Inl S3_BucketEmpty
      else
        (let client = (case sb_client b of
                         Some c \<Rightarrow> c
                       | None \<Rightarrow> load (sb_endpoint_url b) (sb_force_path_style b) (sb_region b))
         in Inr \<lparr>s3_client = client, s3_bucket = sb_bucket b, s3_prefix = normal_prefix (sb_prefix b)\<rparr>))"

section \<open>Records\<close>

definition s3_put :: "'b s3_store \<Rightarrow> upload_id \<Rightarrow> string \<Rightarrow> string \<Rightarrow> bytes \<Rightarrow> ('b, unit) op" where
  "s3_put st i op key d = s3_send i op (s3_put_object (s3_client st) (s3_bucket st) key d)"

definition s3_get :: "'b s3_store \<Rightarrow> upload_id \<Rightarrow> string \<Rightarrow> string \<Rightarrow> ('b, reader) op" where
  "s3_get st i op key = s3_ask i op (s3_get_object (s3_client st) (s3_bucket st) key)"

definition s3_write_info :: "json_codec \<Rightarrow> 'b s3_store \<Rightarrow> upload_id \<Rightarrow> upload_info \<Rightarrow> ('b, unit) op" where
  "s3_write_info js st i info =
     sm_bind (sm_lift (info_json js info)) (\<lambda>json.
     s3_put st i ''write info'' (info_key (s3_prefix st) i) json)"

definition s3_read_info :: "json_codec \<Rightarrow> 'b s3_store \<Rightarrow> upload_id \<Rightarrow> ('b, upload_info) op" where
  "s3_read_info js st i =
     sm_bind (s3_get st i ''read info'' (info_key (s3_prefix st) i)) (\<lambda>body.
     sm_bind (sm_lift (read_all body)) (\<lambda>buf.
     sm_lift (json_info js buf)))"

section \<open>Listing\<close>

text \<open>The non-empty keys of a page.\<close>

definition page_keys :: "s3_page \<Rightarrow> string list" where
  "page_keys page =
     List.map_filter (\<lambda>k. (case k of Some s \<Rightarrow> if s \<noteq> [] then Some s else None | None \<Rightarrow> None))
       (pg_keys page)"

text \<open>The loop over the pages; \<open>None\<close> is a loop that never ends.\<close>

partial_function (option) s3_list_loop ::
  "'b s3_store \<Rightarrow> upload_id \<Rightarrow> string option \<Rightarrow> string list \<Rightarrow> 'b \<Rightarrow> (tus_error + string list) option"
where
  "s3_list_loop st i token names b =
     (case s3_list_objects (s3_client st) (s3_bucket st) (part_prefix (s3_prefix st) i) token b of
        Inl e \<Rightarrow> Some (Inl (s3_err i ''list parts'' e))
      | Inr page \<Rightarrow>
          (let names' = names @ page_keys page
           in if pg_truncated page \<noteq> Some True then Some (Inr names')
              else (case pg_next page of
                      None \<Rightarrow> Some (Inr names')
                    | Some t \<Rightarrow> if t = [] then Some (Inr names')
                                else s3_list_loop st i (Some t) names' b)))"

declare s3_list_loop.simps [code]

text \<open>
  The parts, sorted by their index (the sort is stable). When the loop never ends the call never
  returns, and its value here is unspecified.
\<close>

definition s3_list_parts :: "'b s3_store \<Rightarrow> upload_id \<Rightarrow> ('b, string list) op" where
  "s3_list_parts st i b =
     (map_sum id (sort_key key_index) (the (s3_list_loop st i None [] b)), b)"

section \<open>Assembling\<close>

definition MIN_MULTIPART_PART :: u64 where "MIN_MULTIPART_PART = 5 * 1024 * 1024"

definition MAX_MULTIPART_PARTS :: int where "MAX_MULTIPART_PARTS = 10000"

definition READ_BUF :: u64 where "READ_BUF = 64 * 1024"

text \<open>
  The state of an assembly: \<open>buffer\<close>, \<open>completed\<close> and \<open>part_number\<close>, the three variables the code
  passes by mutable reference.
\<close>

record assembly =
  as_buffer :: bytes
  as_completed :: "completed_part list"
  as_number :: int

definition assembly_new :: assembly where
  "assembly_new = \<lparr>as_buffer = [], as_completed = [], as_number = 1\<rparr>"

definition upload_one_part ::
  "'b s3_store \<Rightarrow> upload_id \<Rightarrow> string \<Rightarrow> string \<Rightarrow> bytes \<Rightarrow> assembly \<Rightarrow> ('b, assembly) op" where
  "upload_one_part st i dest upload part_bytes a =
     sm_bind (sm_guard (as_number a \<le> MAX_MULTIPART_PARTS)
               (Internal ''S3 multipart: exceeded maximum part count (10000)'')) (\<lambda>_.
     sm_bind (s3_send i ''upload part''
               (s3_upload_part (s3_client st) (s3_bucket st) dest upload (as_number a) part_bytes))
       (\<lambda>etag.
     sm_bind (sm_lift (opt_to_res (Internal ''S3 upload part: missing ETag'') etag)) (\<lambda>tag.
     sm_return (a\<lparr>as_completed := as_completed a @ [\<lparr>cp_etag = tag, cp_number = as_number a\<rparr>],
                  as_number := as_number a + 1\<rparr>))))"

text \<open>The inner \<open>while\<close>: cut whole parts off the buffer.\<close>

function cut_parts ::
  "'b s3_store \<Rightarrow> upload_id \<Rightarrow> string \<Rightarrow> string \<Rightarrow> bool \<Rightarrow> bytes \<Rightarrow> assembly \<Rightarrow> ('b, assembly) op" where
  "cut_parts st i dest upload coming buffer a =
     (if MIN_MULTIPART_PART \<le> len_u64 buffer \<and> \<not> (len_u64 buffer = MIN_MULTIPART_PART \<and> \<not> coming)
      then sm_bind (upload_one_part st i dest upload (take (unat MIN_MULTIPART_PART) buffer) a)
             (cut_parts st i dest upload coming (drop (unat MIN_MULTIPART_PART) buffer))
      else sm_return (a\<lparr>as_buffer := buffer\<rparr>))"
  by pat_completeness auto
termination
proof (relation "measure (\<lambda>(st, i, dest, upload, coming, buffer, a). length buffer)", goal_cases)
  case (2 st i dest upload coming buffer a a')
  have "buffer \<noteq> []"
  proof
    assume "buffer = []"
    with 2 show False by (simp add: MIN_MULTIPART_PART_def len_u64_def)
  qed
  then show ?case by (simp add: MIN_MULTIPART_PART_def)
qed simp

declare cut_parts.simps [simp del]

text \<open>
  One \<open>read\<close> into the buffer of 64 KiB: what is there of the next chunk, at most the buffer; nothing
  at the end of the object. Empty chunks are passed over, as the stream's reader does.
\<close>

fun read_some :: "reader \<Rightarrow> (io_error + bytes) \<times> reader" where
  "read_some [] = (Inr [], [])"
| "read_some (Chunk b # r) =
     (if b = [] then read_some r
      else if len_u64 b \<le> READ_BUF then (Inr b, r)
      else (Inr (take (unat READ_BUF) b), Chunk (drop (unat READ_BUF) b) # r))"
| "read_some (Fault e # r) = (Inl e, r)"

fun reader_size :: "reader \<Rightarrow> nat" where
  "reader_size [] = 0"
| "reader_size (Chunk b # r) = Suc (length b) + reader_size r"
| "reader_size (Fault e # r) = Suc (reader_size r)"

lemma read_some_less: "read_some rd = (Inr b, rd') \<Longrightarrow> b \<noteq> [] \<Longrightarrow> reader_size rd' < reader_size rd"
proof (induction rd rule: read_some.induct)
  case (2 b' r)
  then show ?case by (auto simp: READ_BUF_def split: if_splits)
qed auto

text \<open>The \<open>loop\<close> over one source.\<close>

function copy_source ::
  "'b s3_store \<Rightarrow> upload_id \<Rightarrow> string \<Rightarrow> string \<Rightarrow> bool \<Rightarrow> reader \<Rightarrow> assembly \<Rightarrow> ('b, assembly) op" where
  "copy_source st i dest upload more_keys rd a =
     (case read_some rd of
        (Inl e, rd') \<Rightarrow> sm_fail (Io e)
      | (Inr got, rd') \<Rightarrow>
          (let eof = (got = [])
           in sm_bind (cut_parts st i dest upload (\<not> eof \<or> more_keys) (as_buffer a @ got) a)
                (\<lambda>a'. if eof then sm_return a'
                      else copy_source st i dest upload more_keys rd' a')))"
  by pat_completeness auto
termination
  by (relation "measure (\<lambda>(st, i, dest, upload, more, rd, a). reader_size rd)")
     (auto dest: read_some_less [OF sym])

declare copy_source.simps [simp del]

text \<open>The \<open>for\<close> over the sources: whether more keys follow is \<open>rest \<noteq> []\<close>.\<close>

fun copy_sources ::
  "'b s3_store \<Rightarrow> upload_id \<Rightarrow> string \<Rightarrow> string \<Rightarrow> string list \<Rightarrow> assembly \<Rightarrow> ('b, assembly) op" where
  "copy_sources st i dest upload [] a = sm_return a"
| "copy_sources st i dest upload (key # rest) a =
     sm_bind (s3_get st i ''get source for assembly'' key) (\<lambda>rd.
     sm_bind (copy_source st i dest upload (rest \<noteq> []) rd a)
       (copy_sources st i dest upload rest))"

definition multipart_upload_parts ::
  "'b s3_store \<Rightarrow> upload_id \<Rightarrow> string \<Rightarrow> string \<Rightarrow> string list \<Rightarrow> assembly \<Rightarrow> ('b, assembly) op" where
  "multipart_upload_parts st i dest upload source_keys a =
     sm_bind (copy_sources st i dest upload source_keys a) (\<lambda>a.
       if as_buffer a = [] \<and> as_completed a = [] then upload_one_part st i dest upload [] a
       else if as_buffer a \<noteq> [] then upload_one_part st i dest upload (as_buffer a) (a\<lparr>as_buffer := []\<rparr>)
       else sm_return a)"

definition s3_delete_key :: "'b s3_store \<Rightarrow> string \<Rightarrow> 'b \<Rightarrow> 'b" where
  "s3_delete_key st key b = snd (s3_delete_object (s3_client st) (s3_bucket st) key b)"

definition s3_abort :: "'b s3_store \<Rightarrow> string \<Rightarrow> string \<Rightarrow> 'b \<Rightarrow> 'b" where
  "s3_abort st dest upload b = snd (s3_abort_multipart (s3_client st) (s3_bucket st) dest upload b)"

definition multipart_assemble ::
  "'b s3_store \<Rightarrow> upload_id \<Rightarrow> string \<Rightarrow> string list \<Rightarrow> string list \<Rightarrow> ('b, unit) op" where
  "multipart_assemble st i dest source_keys delete_after_ok =
     (if source_keys = [] then sm_return ()
      else
        sm_bind (s3_send i ''create multipart''
                  (s3_create_multipart (s3_client st) (s3_bucket st) dest)) (\<lambda>created.
        sm_bind (sm_lift (opt_to_res (Internal ''S3 create multipart: missing upload_id'') created))
          (\<lambda>upload b.
            (case multipart_upload_parts st i dest upload source_keys assembly_new b of
               (Inl e, b') \<Rightarrow> (Inl e, s3_abort st dest upload b')
             | (Inr a, b') \<Rightarrow>
                 (if as_completed a = []
                  then (Inl (Internal ''S3 multipart: no parts produced (unexpected)''),
                        s3_abort st dest upload b')
                  else
                    sm_bind (s3_send i ''complete multipart''
                      (s3_complete_multipart (s3_client st) (s3_bucket st) dest upload
                         (as_completed a)))
                      (\<lambda>_ b. (Inr (), fold (s3_delete_key st) delete_after_ok b)) b')))))"

section \<open>The operations\<close>

definition s3_put_part :: "'b s3_store \<Rightarrow> upload_id \<Rightarrow> string \<Rightarrow> bytes \<Rightarrow> ('b, unit) op" where
  "s3_put_part st i key d = s3_put st i ''write part'' key d"

definition s3_put_empty :: "'b s3_store \<Rightarrow> upload_id \<Rightarrow> string \<Rightarrow> ('b, unit) op" where
  "s3_put_empty st i key = s3_put st i ''write empty final'' key []"

definition s3_download :: "'b s3_store \<Rightarrow> upload_id \<Rightarrow> string \<Rightarrow> ('b, reader) op" where
  "s3_download st i key = s3_get st i ''get object download'' key"

definition s3_assemble ::
  "'b s3_store \<Rightarrow> upload_id \<Rightarrow> string \<Rightarrow> string list \<Rightarrow> string \<Rightarrow> ('b, unit) op" where
  "s3_assemble st i dest sources op = multipart_assemble st i dest sources sources"

lemmas s3_call_defs = s3_put_part_def s3_put_empty_def s3_download_def s3_assemble_def

definition s3_calls :: "json_codec \<Rightarrow> 'b s3_store \<Rightarrow> 'b object_calls" where
  "s3_calls js st =
     \<lparr>oc_read_info = s3_read_info js st, oc_write_info = s3_write_info js st,
      oc_list_parts = s3_list_parts st, oc_put_part = s3_put_part st, oc_put_empty = s3_put_empty st,
      oc_get_data = s3_download st, oc_assemble = s3_assemble st, oc_delete = s3_delete_key st\<rparr>"

definition s3_create_upload :: "json_codec \<Rightarrow> 'b s3_store \<Rightarrow> upload_info \<Rightarrow> ('b, upload_id) op" where
  "s3_create_upload js st = object_create_upload (s3_calls js st)"

definition s3_get_upload :: "json_codec \<Rightarrow> 'b s3_store \<Rightarrow> upload_id \<Rightarrow> ('b, upload_id) op" where
  "s3_get_upload js st = object_get_upload (s3_calls js st)"

definition s3_write_chunk ::
  "json_codec \<Rightarrow> 'b s3_store \<Rightarrow> upload_id \<Rightarrow> u64 \<Rightarrow> reader \<Rightarrow> ('b, u64) op" where
  "s3_write_chunk js st = object_write_chunk (s3_prefix st) (s3_calls js st)"

definition s3_read_content :: "json_codec \<Rightarrow> 'b s3_store \<Rightarrow> upload_id \<Rightarrow> ('b, reader) op" where
  "s3_read_content js st = object_read_content (s3_prefix st) (s3_calls js st)"

definition s3_finalize :: "json_codec \<Rightarrow> 'b s3_store \<Rightarrow> upload_id \<Rightarrow> ('b, unit) op" where
  "s3_finalize js st = object_finalize (s3_prefix st) (s3_calls js st)"

definition s3_delete :: "json_codec \<Rightarrow> 'b s3_store \<Rightarrow> upload_id \<Rightarrow> ('b, unit) op" where
  "s3_delete js st = object_delete (s3_prefix st) (s3_calls js st)"

definition s3_declare_length :: "json_codec \<Rightarrow> 'b s3_store \<Rightarrow> upload_id \<Rightarrow> u64 \<Rightarrow> ('b, unit) op" where
  "s3_declare_length js st = object_declare_length (s3_calls js st)"

definition s3_concatenate ::
  "json_codec \<Rightarrow> 'b s3_store \<Rightarrow> upload_id \<Rightarrow> upload_info list \<Rightarrow> ('b, unit) op" where
  "s3_concatenate js st = object_concatenate (s3_prefix st) (s3_calls js st)"

definition s3_ops :: "json_codec \<Rightarrow> 'b s3_store \<Rightarrow> 'b datastore" where
  "s3_ops js st =
     \<lparr>ds_create_upload = s3_create_upload js st, ds_get_upload = s3_get_upload js st,
      up_write_chunk = s3_write_chunk js st, up_get_info = s3_read_info js st,
      up_finalize = s3_finalize js st, up_delete = s3_delete js st,
      up_declare_length = s3_declare_length js st, up_concatenate = s3_concatenate js st,
      up_read_content = s3_read_content js st\<rparr>"

lemma s3_ops_eq: "s3_ops js st = object_ops (s3_prefix st) (s3_calls js st)"
  by (simp add: s3_ops_def object_ops_def s3_create_upload_def s3_get_upload_def s3_write_chunk_def
      s3_finalize_def s3_delete_def s3_declare_length_def s3_concatenate_def s3_read_content_def
      s3_calls_def)

end
