(* ===== verification/Object_Contract.thy ===== *)
theory Object_Contract
  imports Object_Store Parted_Store File_Store_Facts
begin

text \<open>
  The contract of the object stores. A back end promises what each of its calls does to the objects of
  the bucket (\<open>object_backend\<close>); from that follow, once for all back ends, the contracts
  \<open>opened_store\<close> and \<open>parted_store\<close> of the operations built on the calls, as long as no stored
  identifier begins with another one followed by \<open>_part_\<close>: parts are listed by prefix, and such an
  upload would be taken for parts of the other.
\<close>

section \<open>Names\<close>

definition tmp_name :: "upload_id \<Rightarrow> nat \<Rightarrow> string" where
  "tmp_name i k = as_str i @ ''_tmp_'' @ dec k"

lemma tmp_not_data [simp]:
  assumes "valid_id j"
  shows "tmp_name i k \<noteq> as_str j"
proof
  assume eq: "tmp_name i k = as_str j"
  have "rfind (as_str j) ''_tmp_'' = Some (length (as_str i))"
    using rfind_append_last [of "''_tmp_''" "dec k" "as_str i"] dec_no_us [of k]
    by (simp add: eq [symmetric] tmp_name_def)
  then have "reserved_tail (as_str j) ''_tmp_''"
    using dec_digits [of k] by (simp add: reserved_tail_def eq [symmetric] tmp_name_def)
  then show False
    using valid_idD(3) [OF assms] by (auto simp: collides_with_reserved_key_def split: if_splits)
qed

lemma last_dec_digit: "is_digit (last (dec k))"
  using dec_digits [of k] dec_nonempty [of k] last_in_set [of "dec k"] by (simp add: list_all_iff)

lemma tmp_not_info [simp]: "tmp_name i k \<noteq> info_name j"
proof
  assume "tmp_name i k = info_name j"
  then have "last (dec k) = CHR ''o''"
    by (metis append_is_Nil_conv dec_nonempty info_name_def last.simps last_appendR list.distinct(1) tmp_name_def)
  with last_dec_digit [of k] digit_not_o show False by metis
qed

lemma us_suffix_eq:
  assumes "a @ CHR ''_'' # t = b @ CHR ''_'' # u" and "CHR ''_'' \<notin> set t" and "CHR ''_'' \<notin> set u"
  shows "a = b" and "t = u"
proof -
  show t: "t = u"
    using last_split_no_sep [OF assms(2), of a] last_split_no_sep [OF assms(3), of b] assms(1) by simp
  show "a = b" using assms(1) t by simp
qed

lemma tmp_not_part [simp]: "tmp_name i k \<noteq> part_name j n"
proof
  assume "tmp_name i k = part_name j n"
  then have "(as_str i @ ''_tmp'') @ CHR ''_'' # dec k = (as_str j @ ''_part'') @ CHR ''_'' # dec (unat n)"
    by (simp add: tmp_name_def part_name_def)
  from us_suffix_eq(1) [OF this dec_no_us dec_no_us]
  have "last (as_str i @ ''_tmp'') = last (as_str j @ ''_part'')" by (rule arg_cong)
  then show False by simp
qed

lemmas tmp_distinct [simp] = tmp_not_data [symmetric] tmp_not_info [symmetric] tmp_not_part [symmetric]

text \<open>An object whose name begins like the parts of \<open>i\<close>.\<close>

abbreviation like_part :: "upload_id \<Rightarrow> string \<Rightarrow> bool" where
  "like_part i n \<equiv> prefix (part_stem i) n"

lemma stem_ends: "last (part_stem i) = CHR ''_''" "part_stem i \<noteq> []"
  by (simp_all add: part_stem_def)

lemma prefix_append_cases:
  assumes "prefix p (a @ t)" and "p \<noteq> []"
  shows "prefix p a \<or> (\<exists>u. u \<noteq> [] \<and> prefix u t \<and> p = a @ u)"
proof (cases "length p \<le> length a")
  case True
  then show ?thesis using assms(1) by (metis prefixI prefix_length_prefix)
next
  case False
  then show ?thesis using assms(1) by (auto simp: prefix_append)
qed

lemma like_part_tail:
  assumes "like_part j (s @ t)" and "CHR ''_'' \<notin> set t"
  shows "like_part j s"
proof -
  from prefix_append_cases [OF assms(1) stem_ends(2)]
  consider "prefix (part_stem j) s" | u where "u \<noteq> []" "prefix u t" "part_stem j = s @ u" by blast
  then show ?thesis
  proof cases
    case 2
    then have "last u \<in> set t" by (auto simp: prefix_def)
    moreover have "last u = CHR ''_''" using 2 stem_ends(1) [of j] by simp
    ultimately show ?thesis using assms(2) by simp
  qed
qed

lemma like_part_own: "like_part i (part_name j n) \<Longrightarrow> like_part i (part_stem j)"
  unfolding part_name_stem by (erule like_part_tail) (rule dec_no_us)

lemma like_part_longer: "like_part i (as_str j) \<Longrightarrow> like_part i (part_stem j)"
  by (auto simp: part_stem_def prefix_def)

lemma like_part_info: "like_part i (info_name j) \<Longrightarrow> like_part i (part_stem j) \<and> i \<noteq> j"
proof -
  assume "like_part i (info_name j)"
  then have "like_part i (as_str j)" unfolding info_name_def by (rule like_part_tail) simp
  moreover have "i \<noteq> j" using \<open>like_part i (as_str j)\<close> by (auto simp: part_stem_def prefix_def)
  ultimately show ?thesis by (simp add: like_part_longer)
qed

lemma like_part_data: "like_part i (as_str j) \<Longrightarrow> i \<noteq> j"
  by (auto simp: part_stem_def prefix_def)

lemma like_part_tmp: "like_part i (tmp_name j k) \<Longrightarrow> like_part i (part_stem j) \<and> i \<noteq> j"
proof -
  assume "like_part i (tmp_name j k)"
  then have a: "like_part i (as_str j @ ''_tmp_'')"
    using like_part_tail [of i "as_str j @ ''_tmp_''" "dec k"] dec_no_us [of k] by (simp add: tmp_name_def)
  from prefix_append_cases [OF this stem_ends(2)]
  consider "like_part i (as_str j)" | u where "u \<noteq> []" "prefix u ''_tmp_''" "part_stem i = as_str j @ u"
    by blast
  then show ?thesis
  proof cases
    case 1
    then show ?thesis by (simp add: like_part_longer like_part_data)
  next
    case 2
    have "last u = CHR ''_''" using 2 stem_ends(1) [of i] by simp
    with 2(1,2) have "u = ''_'' \<or> u = ''_tmp_''" by (auto simp: prefix_Cons)
    moreover have "u \<noteq> ''_tmp_''"
    proof
      assume "u = ''_tmp_''"
      with 2(3) have "(as_str i @ ''_part'') @ [CHR ''_''] = (as_str j @ ''_tmp'') @ [CHR ''_'']"
        by (simp add: part_stem_def)
      then have "as_str i @ ''_part'' = as_str j @ ''_tmp''" by (simp only: append1_eq_conv)
      then have "last (as_str i @ ''_part'') = last (as_str j @ ''_tmp'')" by (rule arg_cong)
      then show False by simp
    qed
    ultimately have "part_stem i = as_str j @ ''_''" using 2(3) by simp
    then have "(as_str i @ ''_part'') @ [CHR ''_''] = as_str j @ [CHR ''_'']"
      by (simp add: part_stem_def)
    then have j: "as_str j = as_str i @ ''_part''" by (simp only: append1_eq_conv)
    then have "length (as_str i) < length (as_str j)" "like_part i (part_stem j)"
      by (simp_all add: part_stem_def j)
    then show ?thesis by auto
  qed
qed

section \<open>Records, parts and bytes in a bucket\<close>

text \<open>\<open>objs b\<close> are the objects of the bucket by key; \<open>svc\<close> is an invariant of the service.\<close>

definition object_info_of ::
  "string \<Rightarrow> json_codec \<Rightarrow> ('b \<Rightarrow> string \<Rightarrow> bytes option) \<Rightarrow> 'b \<Rightarrow> upload_id \<Rightarrow> upload_info option" where
  "object_info_of pre js objs b i =
     (if valid_id i
      then (case objs b (info_key pre i) of
              Some d \<Rightarrow> (case from_json js d of Inr x \<Rightarrow> Some x | Inl e \<Rightarrow> None)
            | None \<Rightarrow> None)
      else None)"

definition object_inv ::
  "string \<Rightarrow> json_codec \<Rightarrow> ('b \<Rightarrow> string \<Rightarrow> bytes option) \<Rightarrow> ('b \<Rightarrow> bool) \<Rightarrow> 'b \<Rightarrow> bool" where
  "object_inv pre js objs svc b \<longleftrightarrow>
     codec_ok js \<and> svc b
     \<and> (\<forall>i d. valid_id i \<longrightarrow> objs b (info_key pre i) = Some d \<longrightarrow> (\<exists>x. from_json js d = Inr x))
     \<and> (\<forall>i j. object_info_of pre js objs b i \<noteq> None \<longrightarrow> object_info_of pre js objs b j \<noteq> None
           \<longrightarrow> i \<noteq> j \<longrightarrow> \<not> like_part i (part_stem j))
     \<and> (\<forall>i n. object_info_of pre js objs b i \<noteq> None \<longrightarrow> objs b (pre @ n) \<noteq> None \<longrightarrow> like_part i n
           \<longrightarrow> (\<exists>k. n = part_name i k))"

definition object_parts ::
  "string \<Rightarrow> ('b \<Rightarrow> string \<Rightarrow> bytes option) \<Rightarrow> 'b \<Rightarrow> upload_id \<Rightarrow> bytes list \<Rightarrow> bool" where
  "object_parts pre objs b i bs \<longleftrightarrow>
     length bs < 2 ^ 32
     \<and> (\<forall>k. objs b (part_key pre i k) = (if unat k < length bs then Some (bs ! unat k) else None))"

definition object_data ::
  "string \<Rightarrow> ('b \<Rightarrow> string \<Rightarrow> bytes option) \<Rightarrow> 'b \<Rightarrow> upload_id \<Rightarrow> bytes option" where
  "object_data pre objs b i = objs b (data_key pre i)"

lemma object_invD:
  assumes "object_inv pre js objs svc b"
  shows "codec_ok js" and "svc b"
    and "valid_id i \<Longrightarrow> objs b (info_key pre i) = Some d \<Longrightarrow> \<exists>x. from_json js d = Inr x"
    and "object_info_of pre js objs b i \<noteq> None \<Longrightarrow> object_info_of pre js objs b j \<noteq> None \<Longrightarrow>
           like_part i (part_stem j) \<Longrightarrow> i = j"
    and "object_info_of pre js objs b i \<noteq> None \<Longrightarrow> objs b (pre @ n) \<noteq> None \<Longrightarrow> like_part i n \<Longrightarrow>
           \<exists>k. n = part_name i k"
  using assms unfolding object_inv_def by blast+

lemma object_invI:
  assumes "codec_ok js" and "svc b"
    and "\<And>i d. valid_id i \<Longrightarrow> objs b (info_key pre i) = Some d \<Longrightarrow> \<exists>x. from_json js d = Inr x"
    and "\<And>i j. object_info_of pre js objs b i \<noteq> None \<Longrightarrow> object_info_of pre js objs b j \<noteq> None \<Longrightarrow>
           like_part i (part_stem j) \<Longrightarrow> i = j"
    and "\<And>i n. object_info_of pre js objs b i \<noteq> None \<Longrightarrow> objs b (pre @ n) \<noteq> None \<Longrightarrow> like_part i n \<Longrightarrow>
           \<exists>k. n = part_name i k"
  shows "object_inv pre js objs svc b"
  unfolding object_inv_def
proof (intro conjI allI impI)
  show "\<not> like_part i (part_stem j)"
    if "object_info_of pre js objs b i \<noteq> None" "object_info_of pre js objs b j \<noteq> None" "i \<noteq> j" for i j
    using assms(4) that by blast
qed (use assms(1-3,5) in simp_all)

lemma object_info_SomeD:
  assumes "object_info_of pre js objs b i = Some x"
  obtains d where "valid_id i" and "objs b (info_key pre i) = Some d" and "from_json js d = Inr x"
  using assms by (auto simp: object_info_of_def split: if_splits option.splits sum.splits)

lemma object_info_valid: "object_info_of pre js objs b i \<noteq> None \<Longrightarrow> valid_id i"
  by (auto simp: object_info_of_def split: if_splits)

lemma object_info_None:
  assumes "object_inv pre js objs svc b" and "valid_id i"
  shows "object_info_of pre js objs b i = None \<longleftrightarrow> objs b (info_key pre i) = None"
  using object_invD(3) [OF assms(1,2)] assms(2)
  by (fastforce simp: object_info_of_def split: option.splits sum.splits)

text \<open>The objects of an upload other than its record.\<close>

definition owned :: "upload_id \<Rightarrow> string \<Rightarrow> bool" where
  "owned i n \<longleftrightarrow> n = as_str i \<or> (\<exists>k. n = part_name i k) \<or> (\<exists>k. n = tmp_name i k)"

lemma owned_not_info: "valid_id i \<Longrightarrow> owned i n \<Longrightarrow> n \<noteq> info_name j"
  by (auto simp: owned_def names_distinct)

lemma owned_like_part:
  "owned i n \<Longrightarrow> like_part j n \<Longrightarrow> (i = j \<and> (\<exists>k. n = part_name i k)) \<or> (i \<noteq> j \<and> like_part j (part_stem i))"
  using like_part_data [of j i] like_part_tmp [of j i]
  by (auto simp: owned_def like_part_longer dest: like_part_own)

text \<open>Objects of recorded uploads may come, change and go without touching the records.\<close>

lemma object_frame:
  assumes "object_inv pre js objs svc b" and "svc b'"
    and "\<And>k. objs b' k \<noteq> objs b k \<Longrightarrow>
           \<exists>i n. k = pre @ n \<and> owned i n \<and> object_info_of pre js objs b i \<noteq> None"
  shows "object_inv pre js objs svc b'" and "object_info_of pre js objs b' = object_info_of pre js objs b"
proof -
  have same: "objs b' (info_key pre j) = objs b (info_key pre j)" for j
  proof (rule ccontr)
    assume "objs b' (info_key pre j) \<noteq> objs b (info_key pre j)"
    from assms(3) [OF this] obtain i n where "info_key pre j = pre @ n" "owned i n"
      "object_info_of pre js objs b i \<noteq> None"
      by blast
    then show False
      using owned_not_info [OF object_info_valid, of pre js objs b i n j] by (simp add: key_names)
  qed
  show info: "object_info_of pre js objs b' = object_info_of pre js objs b"
    by (rule ext) (simp add: object_info_of_def same)
  have "\<exists>k. n = part_name j k"
    if j: "object_info_of pre js objs b j \<noteq> None" "objs b' (pre @ n) \<noteq> None" "like_part j n" for j n
  proof (cases "objs b' (pre @ n) = objs b (pre @ n)")
    case True
    then show ?thesis using object_invD(5) [OF assms(1) j(1) _ j(3)] j(2) by simp
  next
    case False
    from assms(3) [OF this] obtain i where i: "owned i n" "object_info_of pre js objs b i \<noteq> None"
      by auto
    from owned_like_part [OF i(1) j(3)] object_invD(4) [OF assms(1) j(1) i(2)] show ?thesis by auto
  qed
  then show "object_inv pre js objs svc b'"
    using object_invD [OF assms(1)] by (intro object_invI assms(2)) (simp_all add: info same)
qed

text \<open>A record is written over an existing one, or removed.\<close>

lemma object_set_info:
  assumes "object_inv pre js objs svc b" and "svc b'" and "object_info_of pre js objs b i \<noteq> None"
    and "to_json js x = Inr d" and "objs b' = (objs b)(info_key pre i \<mapsto> d)"
  shows "object_inv pre js objs svc b'"
    and "object_info_of pre js objs b' = (object_info_of pre js objs b)(i \<mapsto> x)"
proof -
  note v = object_info_valid [OF assms(3)]
  have x: "from_json js d = Inr x"
    using object_invD(1) [OF assms(1)] assms(4) by (simp add: codec_ok_def)
  have key: "info_key pre j = info_key pre i \<longleftrightarrow> j = i" for j by (simp add: key_names)
  show info: "object_info_of pre js objs b' = (object_info_of pre js objs b)(i \<mapsto> x)"
    by (rule ext) (simp add: object_info_of_def assms(5) key v x)
  have dom: "object_info_of pre js objs b' j \<noteq> None \<longleftrightarrow> object_info_of pre js objs b j \<noteq> None" for j
    using assms(3) by (simp add: info)
  have "\<exists>k. n = part_name j k"
    if j: "object_info_of pre js objs b j \<noteq> None" "objs b' (pre @ n) \<noteq> None" "like_part j n" for j n
  proof (cases "n = info_name i")
    case True
    then have "like_part j (part_stem i)" "j \<noteq> i"
      using like_part_info [of j i] j(3) by simp_all
    then show ?thesis using object_invD(4) [OF assms(1) j(1) assms(3)] by blast
  next
    case False
    then show ?thesis using object_invD(5) [OF assms(1) j(1) _ j(3)] j(2) by (simp add: assms(5) key_names)
  qed
  moreover have "\<exists>y. from_json js e = Inr y" if "valid_id j" "objs b' (info_key pre j) = Some e" for j e
    using that object_invD(3) [OF assms(1) that(1)] x by (auto simp: assms(5) key split: if_splits)
  ultimately show "object_inv pre js objs svc b'"
    using object_invD(1,4) [OF assms(1)] by (intro object_invI assms(2)) (simp_all only: dom)
qed

lemma object_del_info:
  assumes "object_inv pre js objs svc b" and "svc b'" and "valid_id i"
    and "objs b' = (objs b)(info_key pre i := None)"
  shows "object_inv pre js objs svc b'"
    and "object_info_of pre js objs b' = (object_info_of pre js objs b)(i := None)"
proof -
  have key: "info_key pre j = info_key pre i \<longleftrightarrow> j = i" for j by (simp add: key_names)
  show info: "object_info_of pre js objs b' = (object_info_of pre js objs b)(i := None)"
    by (rule ext) (simp add: object_info_of_def assms(4) key)
  have dom: "object_info_of pre js objs b' j \<noteq> None \<Longrightarrow> object_info_of pre js objs b j \<noteq> None" for j
    by (simp add: info split: if_splits)
  have objs: "objs b' k \<noteq> None \<Longrightarrow> objs b k \<noteq> None" for k
    by (simp add: assms(4) split: if_splits)
  have "\<exists>y. from_json js e = Inr y" if "valid_id j" "objs b' (info_key pre j) = Some e" for j e
    using that object_invD(3) [OF assms(1) that(1)] by (auto simp: assms(4) key split: if_splits)
  moreover have "i = j" if "object_info_of pre js objs b' i \<noteq> None"
      "object_info_of pre js objs b' j \<noteq> None" "like_part i (part_stem j)" for i j
    using object_invD(4) [OF assms(1) dom dom] that by blast
  moreover have "\<exists>k. n = part_name i k" if "object_info_of pre js objs b' i \<noteq> None"
      "objs b' (pre @ n) \<noteq> None" "like_part i n" for i n
    using object_invD(5) [OF assms(1) dom objs] that by blast
  ultimately show "object_inv pre js objs svc b'"
    using object_invD(1) [OF assms(1)] by (intro object_invI assms(2)) simp_all
qed

end
