(* ===== verification/Object_Laws.thy ===== *)
theory Object_Laws
  imports Object_Contract File_Parts
begin

text \<open>
  What a back end promises of its calls (\<open>object_backend\<close>), and the contract of the uploads that
  follows from it: the operations of \<open>Object_Store\<close> form a \<open>parted_store\<close>, whatever the service.
\<close>

section \<open>What a back end promises\<close>

text \<open>
  \<open>objs b\<close> are the objects of the bucket by key. Reading a record succeeds when it is there; a write
  that fails has no effect; a listing, when it succeeds, names every object below the prefix once, in
  the order of the numbers at the end of the names; an assembly touches its sources, its destination
  and intermediate objects only, and when it succeeds the destination holds the sources one after
  another, and they are gone.
\<close>

definition below_prefix :: "('b \<Rightarrow> string \<Rightarrow> bytes option) \<Rightarrow> 'b \<Rightarrow> string \<Rightarrow> string list \<Rightarrow> bool" where
  "below_prefix objs b p ks \<longleftrightarrow> distinct ks \<and> (\<forall>k. k \<in> set ks \<longleftrightarrow> prefix p k \<and> objs b k \<noteq> None)"

text \<open>A write of \<open>d\<close> at \<open>k\<close> that came back with \<open>r\<close>.\<close>

definition put_result ::
  "('b \<Rightarrow> string \<Rightarrow> bytes option) \<Rightarrow> string \<Rightarrow> bytes \<Rightarrow> 'b \<Rightarrow> tus_error + unit \<Rightarrow> 'b \<Rightarrow> bool" where
  "put_result objs k d b r b' \<longleftrightarrow>
     objs b' = (case r of Inr u \<Rightarrow> (objs b)(k \<mapsto> d) | Inl e \<Rightarrow> objs b)"

text \<open>The objects an assembly for upload \<open>i\<close> may touch.\<close>

definition assembly_frame ::
  "string \<Rightarrow> ('b \<Rightarrow> string \<Rightarrow> bytes option) \<Rightarrow> upload_id \<Rightarrow> string \<Rightarrow> string list \<Rightarrow> 'b \<Rightarrow> 'b \<Rightarrow> bool" where
  "assembly_frame pre objs i dest srcs b b' \<longleftrightarrow>
     (\<forall>k. objs b' k \<noteq> objs b k \<longrightarrow> k = dest \<or> k \<in> set srcs \<or> (\<exists>m. k = pre @ tmp_name i m))"

definition assembled_from ::
  "('b \<Rightarrow> string \<Rightarrow> bytes option) \<Rightarrow> string \<Rightarrow> string list \<Rightarrow> 'b \<Rightarrow> 'b \<Rightarrow> bool" where
  "assembled_from objs dest srcs b b' \<longleftrightarrow>
     (\<exists>ds. map (objs b) srcs = map Some ds \<and> objs b' dest = Some (concat ds))
     \<and> (\<forall>k\<in>set srcs. objs b' k = None)"

locale object_backend =
  fixes pre :: string
    and js :: json_codec
    and c :: "'b object_calls"
    and objs :: "'b \<Rightarrow> string \<Rightarrow> bytes option"
    and svc :: "'b \<Rightarrow> bool"
  assumes read_some: "svc b \<Longrightarrow> objs b (info_key pre i) = Some d \<Longrightarrow> oc_read_info c i b = (json_info js d, b)"
    and read_none: "svc b \<Longrightarrow> objs b (info_key pre i) = None \<Longrightarrow>
      oc_read_info c i b = (Inl (NotFound (as_str i)), b)"
    and write_record: "svc b \<Longrightarrow> oc_write_info c i x b = (r, b') \<Longrightarrow>
      svc b' \<and> (case to_json js x of
                   Inr d \<Rightarrow> put_result objs (info_key pre i) d b r b'
                 | Inl e \<Rightarrow> (\<exists>e. r = Inl e) \<and> objs b' = objs b)"
    and list_parts: "svc b \<Longrightarrow> oc_list_parts c i b = (lres, b') \<Longrightarrow>
      b' = b \<and> (\<forall>ks. lres = Inr ks \<longrightarrow>
                   (\<exists>l. below_prefix objs b (part_prefix pre i) l \<and> ks = sort_key key_index l))"
    and put_part: "svc b \<Longrightarrow> oc_put_part c i k d b = (r, b') \<Longrightarrow> svc b' \<and> put_result objs k d b r b'"
    and put_empty: "svc b \<Longrightarrow> oc_put_empty c i k b = (r, b') \<Longrightarrow> svc b' \<and> put_result objs k [] b r b'"
    and get_object: "svc b \<Longrightarrow> oc_get_data c i k b = (res, b') \<Longrightarrow>
      b' = b \<and> (\<forall>rd. res = Inr rd \<longrightarrow> (\<exists>d. objs b k = Some d \<and> read_to_end rd = Inr d))"
    and assemble_frame: "svc b \<Longrightarrow> oc_assemble c i dest srcs opn b = (r, b') \<Longrightarrow>
      svc b' \<and> assembly_frame pre objs i dest srcs b b'"
    and assemble_ok: "svc b \<Longrightarrow> oc_assemble c i dest srcs opn b = (Inr u, b') \<Longrightarrow> srcs \<noteq> [] \<Longrightarrow>
      distinct srcs \<Longrightarrow> dest \<notin> set srcs \<Longrightarrow> (\<And>m. pre @ tmp_name i m \<notin> insert dest (set srcs)) \<Longrightarrow>
      length srcs < 2 ^ 32 \<Longrightarrow> assembled_from objs dest srcs b b'"
    and delete_key: "svc b \<Longrightarrow> svc (oc_delete c k b) \<and> objs (oc_delete c k b) = (objs b)(k := None)"

section \<open>Assembling in groups\<close>

text \<open>
  A back end whose service takes few sources at once assembles them group by group, each group into an
  object of its own, and those again. \<open>f (t, g)\<close> assembles the group \<open>g\<close> into \<open>t\<close>.
\<close>

lemma sm_map_for:
  "sm_map (\<lambda>x. sm_bind (f (h x)) (\<lambda>_. sm_return (fst (h x)))) xs b =
     map_prod (map_sum id (\<lambda>u. map (fst \<circ> h) xs)) id (sm_for (map h xs) f b)"
proof (induction xs arbitrary: b)
  case (Cons x xs)
  obtain r b1 where c: "f (h x) b = (r, b1)" by fastforce
  show ?case
  proof (cases r)
    case (Inl e)
    then show ?thesis by (simp add: sm_bind_def c)
  next
    case (Inr u)
    obtain q b2 where "sm_for (map h xs) f b1 = (q, b2)" by fastforce
    with Cons.IH [of b1] Inr c show ?thesis
      by (cases q) (simp_all add: sm_bind_def sm_return_def)
  qed
qed (simp add: sm_return_def)

lemma for_groups_frame:
  assumes step: "\<And>t g b r b'. svc b \<Longrightarrow> f (t, g) b = (r, b') \<Longrightarrow>
      svc b' \<and> (\<forall>k. objs b' k \<noteq> objs b k \<longrightarrow> k = t \<or> k \<in> set g)"
  shows "svc b \<Longrightarrow> sm_for tgs f b = (r, b') \<Longrightarrow>
    svc b' \<and> (\<forall>k. objs b' k \<noteq> objs b k \<longrightarrow> k \<in> set (map fst tgs) \<or> k \<in> set (concat (map snd tgs)))"
proof (induction tgs arbitrary: b r b')
  case (Cons tg tgs)
  obtain t g where tg: "tg = (t, g)" by fastforce
  obtain cr b1 where c: "f (t, g) b = (cr, b1)" by fastforce
  note e = step [OF Cons.prems(1) c]
  show ?case
  proof (cases cr)
    case (Inl err)
    with Cons.prems(2) c tg have "b' = b1" by (simp add: sm_bind_def)
    with e tg show ?thesis by auto
  next
    case (Inr u)
    obtain mr b2 where m: "sm_for tgs f b1 = (mr, b2)" by fastforce
    with Cons.prems(2) c tg Inr have "b' = b2" by (simp add: sm_bind_def)
    with Cons.IH [OF _ m] e tg show ?thesis by (auto; metis)
  qed
qed (simp add: sm_return_def)

lemma for_groups_ok:
  assumes step: "\<And>t g b r b'. svc b \<Longrightarrow> f (t, g) b = (r, b') \<Longrightarrow>
      svc b' \<and> (\<forall>k. objs b' k \<noteq> objs b k \<longrightarrow> k = t \<or> k \<in> set g)"
    and ok: "\<And>t g b b'. svc b \<Longrightarrow> f (t, g) b = (Inr (), b') \<Longrightarrow> g \<noteq> [] \<Longrightarrow> length g \<le> 32 \<Longrightarrow>
      t \<notin> set g \<Longrightarrow> assembled_from objs t g b b'"
  shows "svc b \<Longrightarrow> sm_for tgs f b = (Inr (), b') \<Longrightarrow> distinct (map fst tgs) \<Longrightarrow>
    distinct (concat (map snd tgs)) \<Longrightarrow> \<forall>g \<in> set (map snd tgs). g \<noteq> [] \<and> length g \<le> 32 \<Longrightarrow>
    set (map fst tgs) \<inter> set (concat (map snd tgs)) = {} \<Longrightarrow>
    (\<exists>ds es. map (objs b) (concat (map snd tgs)) = map Some ds \<and> map (objs b') (map fst tgs) = map Some es
       \<and> concat es = concat ds)
    \<and> (\<forall>k \<in> set (concat (map snd tgs)). objs b' k = None)"
proof (induction tgs arbitrary: b b')
  case Nil
  then show ?case by (simp add: sm_return_def)
next
  case (Cons tg tgs)
  obtain t g where tg: "tg = (t, g)" by fastforce
  obtain cr b1 where c: "f (t, g) b = (cr, b1)" by fastforce
  from Cons.prems(2) c tg have cr: "cr = Inr ()"
    by (cases cr) (simp_all add: sm_bind_def)
  with Cons.prems(2) c tg have m: "sm_for tgs f b1 = (Inr (), b')" by (simp add: sm_bind_def)
  note e = step [OF Cons.prems(1) c]
  have up1: "svc b1" using e by blast
  have t: "t \<notin> set g" "t \<notin> set (map fst tgs)" "t \<notin> set (concat (map snd tgs))"
    and g: "g \<noteq> []" "length g \<le> 32" "set g \<inter> set (concat (map snd tgs)) = {}"
      "set g \<inter> set (map fst tgs) = {}"
    and rest: "distinct (map fst tgs)" "distinct (concat (map snd tgs))"
      "\<forall>g \<in> set (map snd tgs). g \<noteq> [] \<and> length g \<le> 32"
      "set (map fst tgs) \<inter> set (concat (map snd tgs)) = {}"
    using Cons.prems(3-6) tg by auto
  from ok [OF Cons.prems(1) c [unfolded cr] g(1,2) t(1)] obtain d where
    d: "map (objs b) g = map Some d" "objs b1 t = Some (concat d)" "\<And>k. k \<in> set g \<Longrightarrow> objs b1 k = None"
    by (auto simp: assembled_from_def)
  from Cons.IH [OF up1 m rest] obtain ds es where ih:
    "map (objs b1) (concat (map snd tgs)) = map Some ds" "map (objs b') (map fst tgs) = map Some es"
    "concat es = concat ds" "\<And>k. k \<in> set (concat (map snd tgs)) \<Longrightarrow> objs b' k = None" by blast
  have "svc b' \<and> (\<forall>k. objs b' k \<noteq> objs b1 k \<longrightarrow>
      k \<in> set (map fst tgs) \<or> k \<in> set (concat (map snd tgs)))"
    by (rule for_groups_frame [where svc = svc and objs = objs and f = f, OF _ up1 m]) (rule step)
  then have fr: "objs b' k = objs b1 k" if "k \<notin> set (map fst tgs)" "k \<notin> set (concat (map snd tgs))" for k
    using that by blast
  have "map (objs b) (concat (map snd tgs)) = map (objs b1) (concat (map snd tgs))"
  proof (rule map_cong)
    fix k
    assume "k \<in> set (concat (map snd tgs))"
    then have "k \<noteq> t" "k \<notin> set g" using t(3) g(3) by auto
    then show "objs b k = objs b1 k" using e by metis
  qed simp
  with ih(1) d(1) tg have "map (objs b) (concat (map snd (tg # tgs))) = map Some (d @ ds)" by simp
  moreover have "map (objs b') (map fst (tg # tgs)) = map Some (concat d # es)"
    using fr [OF t(2,3)] d(2) ih(2) tg by simp
  moreover have "objs b' k = None" if "k \<in> set (concat (map snd (tg # tgs)))" for k
  proof (cases "k \<in> set (concat (map snd tgs))")
    case False
    with that tg have "k \<in> set g" by simp
    with g(3,4) fr [of k] d(3) show ?thesis by auto
  qed (rule ih(4))
  ultimately show ?case
    using ih(3) by (intro conjI exI [of _ "d @ ds"] exI [of _ "concat d # es"]) auto
qed

text \<open>The groups assembled, and then their objects.\<close>

lemma assembled_groups:
  assumes "map (objs b) srcs = map Some ds" and "map (objs b1) names = map Some es"
    and "concat es = concat ds" and "\<And>k. k \<in> set srcs \<Longrightarrow> objs b1 k = None"
    and "assembled_from objs dest names b1 b'" and "\<And>k. k \<in> set srcs \<Longrightarrow> objs b' k = objs b1 k"
  shows "assembled_from objs dest srcs b b'"
proof -
  from assms(5) obtain es' where e: "map (objs b1) names = map Some es'" "objs b' dest = Some (concat es')"
    by (auto simp: assembled_from_def)
  have "es' = es" using e(1) assms(2) by (simp add: inj_map_eq_map inj_on_def)
  with e(2) assms(1,3,4,6) show ?thesis by (auto simp: assembled_from_def)
qed

section \<open>Lists of parts\<close>

lemma part_name_eq: "part_name i k = part_name j l \<longleftrightarrow> i = j \<and> k = l"
proof
  assume "part_name i k = part_name j l"
  then have "(as_str i @ ''_part'') @ CHR ''_'' # dec (unat k) = (as_str j @ ''_part'') @ CHR ''_'' # dec (unat l)"
    by (simp add: part_name_def)
  from us_suffix_eq [OF this dec_no_us dec_no_us] show "i = j \<and> k = l"
    by (auto dest: arg_cong [where f = parse_u32] simp: word_unat_eq_iff)
qed simp

lemma part_key_eq: "part_key pre i k = part_key pre j l \<longleftrightarrow> i = j \<and> k = l"
  by (simp add: key_names part_name_eq)

definition part_keys :: "string \<Rightarrow> upload_id \<Rightarrow> nat \<Rightarrow> string list" where
  "part_keys pre i n = map (\<lambda>k. part_key pre i (word_of_nat k)) [0 ..< n]"

lemma key_index_part_key [simp]: "key_index (part_key pre i k) = k"
  by (simp add: key_names)

lemma part_keys_index: "map key_index (part_keys pre i n) = map word_of_nat [0 ..< n]"
  by (simp add: part_keys_def o_def)

lemma word_list_sorted:
  "n < 2 ^ 32 \<Longrightarrow> sorted (map (word_of_nat :: nat \<Rightarrow> u32) [0 ..< n]) \<and> distinct (map (word_of_nat :: nat \<Rightarrow> u32) [0 ..< n])"
  by (auto simp: sorted_iff_nth_mono distinct_map inj_on_def word_of_nat_32_less word_of_nat_32_eq)

lemma sort_key_unique:
  fixes f :: "'a \<Rightarrow> 'k :: linorder"
  assumes "sorted (map f l)" and "distinct (map f l)" and "distinct ks" and "set ks = set l"
  shows "sort_key f ks = l"
proof (rule map_inj_on)
  have inj: "inj_on f (set l)" using assms(2) by (simp add: distinct_map)
  have "distinct (map f (sort_key f ks))" using assms(3,4) inj by (simp add: distinct_map)
  moreover have "set (map f (sort_key f ks)) = set (map f l)" using assms(4) by simp
  ultimately show "map f (sort_key f ks) = map f l"
    using assms(1,2) by (intro sorted_distinct_set_unique) simp_all
  show "inj_on f (set (sort_key f ks) \<union> set l)" using inj assms(4) by simp
qed

lemma listed_parts:
  assumes "object_inv pre js objs svc b" and "object_info_of pre js objs b i = Some x"
    and "object_parts pre objs b i bs" and "below_prefix objs b (part_prefix pre i) l"
  shows "sort_key key_index l = part_keys pre i (length bs)"
proof (rule sort_key_unique)
  have n: "length bs < 2 ^ 32" using assms(3) by (simp add: object_parts_def)
  then show "sorted (map key_index (part_keys pre i (length bs)))"
    and "distinct (map key_index (part_keys pre i (length bs)))"
    by (simp_all only: part_keys_index word_list_sorted)
  show "distinct l" using assms(4) by (simp add: below_prefix_def)
  have parts: "objs b (part_key pre i k) \<noteq> None \<longleftrightarrow> unat k < length bs" for k
    using assms(3) by (simp add: object_parts_def)
  show "set l = set (part_keys pre i (length bs))"
  proof (rule set_eqI)
    fix k
    have "k \<in> set l \<longleftrightarrow> (\<exists>m. k = part_key pre i m \<and> unat m < length bs)"
    proof
      assume "k \<in> set l"
      then have k: "prefix (pre @ part_stem i) k" "objs b k \<noteq> None"
        using assms(4) by (simp_all add: below_prefix_def key_names)
      then obtain t where t: "k = pre @ part_stem i @ t" by (auto simp: prefix_def)
      have "\<exists>m. part_stem i @ t = part_name i m"
        using object_invD(5) [OF assms(1), of i "part_stem i @ t"] assms(2) k(2) t by simp
      then obtain m where "part_stem i @ t = part_name i m" ..
      then have "k = part_key pre i m" by (simp add: t key_names)
      then show "\<exists>m. k = part_key pre i m \<and> unat m < length bs" using parts k(2) by auto
    next
      assume "\<exists>m. k = part_key pre i m \<and> unat m < length bs"
      then obtain m where "k = part_key pre i m" "unat m < length bs" by blast
      then show "k \<in> set l"
        using assms(4) parts [of m] by (simp add: below_prefix_def key_names part_name_stem)
    qed
    also have "\<dots> \<longleftrightarrow> (\<exists>m < length bs. k = part_key pre i (word_of_nat m))"
    proof
      assume "\<exists>m. k = part_key pre i m \<and> unat m < length bs"
      then obtain m where "k = part_key pre i m" "unat m < length bs" by blast
      then show "\<exists>m < length bs. k = part_key pre i (word_of_nat m)"
        by (intro exI [of _ "unat m"]) simp
    next
      assume "\<exists>m < length bs. k = part_key pre i (word_of_nat m)"
      then obtain m where "m < length bs" "k = part_key pre i (word_of_nat m)" by blast
      then show "\<exists>m. k = part_key pre i m \<and> unat m < length bs"
        using n by (intro exI [of _ "word_of_nat m"]) (simp add: unat_of_nat)
    qed
    finally show "k \<in> set l \<longleftrightarrow> k \<in> set (part_keys pre i (length bs))"
      by (auto simp: part_keys_def)
  qed
qed

lemma part_keys_Nil [simp]: "part_keys pre i n = [] \<longleftrightarrow> n = 0"
  by (simp add: part_keys_def)

lemma object_parts_objs:
  "object_parts pre objs b i bs \<Longrightarrow> map (objs b) (part_keys pre i (length bs)) = map Some bs"
  by (rule nth_equalityI) (simp_all add: object_parts_def part_keys_def unat_of_nat)

lemma object_parts_same:
  "(\<And>k. objs b' (part_key pre i k) = objs b (part_key pre i k)) \<Longrightarrow>
     object_parts pre objs b' i = object_parts pre objs b i"
  by (rule ext) (simp add: object_parts_def)

lemma unat_word_of_nat_32: "n < 2 ^ 32 \<Longrightarrow> unat (word_of_nat n :: u32) = n"
  by (simp add: unat_of_nat)

lemma object_parts_snoc:
  assumes "object_parts pre objs b i bs" and "Suc (length bs) < 2 ^ 32"
    and "\<And>k. objs b' (part_key pre i k) =
      (if k = word_of_nat (length bs) then Some d else objs b (part_key pre i k))"
  shows "object_parts pre objs b' i (bs @ [d])"
proof -
  have "k = word_of_nat (length bs) \<longleftrightarrow> unat k = length bs" for k :: u32
    using assms(2) unat_word_of_nat_32 [of "length bs"] by (simp add: word_unat_eq_iff)
  then show ?thesis
    using assms by (auto simp: object_parts_def nth_append less_Suc_eq)
qed

section \<open>The operations\<close>

context object_backend
begin

abbreviation "oinv \<equiv> object_inv pre js objs svc"
abbreviation "oinfo \<equiv> object_info_of pre js objs"

lemma oinv_svc: "oinv b \<Longrightarrow> svc b"
  by (rule object_invD(2))

lemma read_present: "oinv b \<Longrightarrow> oinfo b i = Some x \<Longrightarrow> oc_read_info c i b = (Inr x, b)"
  by (erule object_info_SomeD) (simp add: read_some [OF oinv_svc] json_info_def)

lemma read_missing:
  "oinv b \<Longrightarrow> valid_id i \<Longrightarrow> oinfo b i = None \<Longrightarrow> oc_read_info c i b = (Inl (NotFound (as_str i)), b)"
  by (simp add: object_info_None read_none [OF oinv_svc])

text \<open>Writing the record of an upload that has one.\<close>

lemma write_over:
  assumes "oinv b" and "oinfo b i \<noteq> None" and "oc_write_info c i x b = (r, b')"
  obtains (failed) e where "r = Inl e" and "oinv b'" and "oinfo b' = oinfo b" and "objs b' = objs b"
    | (written) d where "r = Inr ()" and "oinv b'" and "oinfo b' = (oinfo b)(i \<mapsto> x)"
      and "objs b' = (objs b)(info_key pre i \<mapsto> d)"
proof -
  from write_record [OF oinv_svc [OF assms(1)] assms(3)] have s: "svc b'"
    and w: "case to_json js x of
              Inr d \<Rightarrow> put_result objs (info_key pre i) d b r b'
            | Inl e \<Rightarrow> (\<exists>e. r = Inl e) \<and> objs b' = objs b"
    by simp_all
  have same: "oinv b'" "oinfo b' = oinfo b" if "objs b' = objs b"
    using object_frame [OF assms(1) s] that by simp_all
  show thesis
  proof (cases r)
    case (Inl e)
    with w have "objs b' = objs b" by (auto simp: put_result_def split: sum.splits)
    with Inl same failed show thesis by blast
  next
    case (Inr u)
    with w obtain d where "to_json js x = Inr d" "objs b' = (objs b)(info_key pre i \<mapsto> d)"
      by (auto simp: put_result_def split: sum.splits)
    with object_set_info [OF assms(1) s assms(2)] Inr written show thesis by simp
  qed
qed

text \<open>Writing an object of a recorded upload.\<close>

lemma put_owned:
  assumes "oinv b" and "oinfo b i \<noteq> None" and "owned i n" and "svc b'"
    and "put_result objs (pre @ n) d b r b'"
  shows "oinv b'" and "oinfo b' = oinfo b"
proof -
  have "\<exists>i n. k = pre @ n \<and> owned i n \<and> oinfo b i \<noteq> None" if "objs b' k \<noteq> objs b k" for k
    using that assms(2,3,5) by (auto simp: put_result_def split: sum.splits if_splits)
  from object_frame [OF assms(1,4) this] show "oinv b'" "oinfo b' = oinfo b" by blast+
qed

lemma owned_names: "owned i (as_str i)" "owned i (part_name i k)" "owned i (tmp_name i m)"
  by (auto simp: owned_def)

lemma write_chunk_cases:
  assumes "oinv b" and "oinfo b i = Some x" and "fits_vec rd"
    and "object_write_chunk pre c i off rd b = (r, b')"
  obtains (failed) e where "r = Inl e" and "oinv b'" and "oinfo b' = oinfo b"
    | (written) d l j where "r = Inr (len_u64 d)" and "read_to_end rd = Inr d" and "oinv b'"
      and "chunk_fits x off (len_u64 d)"
      and "oinfo b' = (oinfo b)(i \<mapsto> x\<lparr>info_offset := off + len_u64 d\<rparr>)"
      and "below_prefix objs b (part_prefix pre i) l"
      and "objs b' = (objs b)(part_key pre i (word_of_nat (length l)) \<mapsto> d, info_key pre i \<mapsto> j)"
proof -
  have some: "oinfo b i \<noteq> None" using assms(2) by simp
  note rd = read_present [OF assms(1,2)]
  note same = assms(1)
  show thesis
  proof (cases "info_offset x = off")
    case False
    with assms(4) rd failed assms(1) show thesis by (auto simp: object_write_chunk_def sm_simps)
  next
    case off: True
    show thesis
    proof (cases "read_all rd")
      case (Inl e)
      with assms(4) rd off failed assms(1) show thesis by (auto simp: object_write_chunk_def sm_simps)
    next
      case buf: (Inr d)
      show thesis
      proof (cases "checked_add off (len_u64 d)")
        case None
        with assms(4) rd off buf failed assms(1) show thesis
          by (auto simp: object_write_chunk_def sm_simps)
      next
        case m: (Some m)
        show thesis
        proof (cases "exceeds (info_size x) m")
          case (Inl e)
          with assms(4) rd off buf m failed assms(1) show thesis
            by (auto simp: object_write_chunk_def sm_simps)
        next
          case fits: (Inr u)
          obtain lr b0 where "oc_list_parts c i b = (lr, b0)" by fastforce
          with list_parts [OF oinv_svc [OF assms(1)]] have ls: "oc_list_parts c i b = (lr, b)"
            and l: "\<And>ks. lr = Inr ks \<Longrightarrow> \<exists>l. below_prefix objs b (part_prefix pre i) l \<and> ks = sort_key key_index l"
            by blast+
          show thesis
          proof (cases lr)
            case (Inl e)
            with assms(4) rd off buf m fits ls failed assms(1) show thesis
              by (auto simp: object_write_chunk_def sm_simps)
          next
            case ks: (Inr ks)
            from l [OF ks] obtain l where l: "below_prefix objs b (part_prefix pre i) l"
              and len: "length ks = length l" by auto
            let ?n = "part_name i (word_of_nat (length l))"
            obtain pr b1 where p: "oc_put_part c i (pre @ ?n) d b = (pr, b1)" by fastforce
            from put_part [OF oinv_svc [OF assms(1)] p] have s1: "svc b1"
              and res: "put_result objs (pre @ ?n) d b pr b1" by simp_all
            note o1 = put_owned [OF assms(1) some owned_names(2) s1 res]
            show thesis
            proof (cases pr)
              case (Inl e)
              with assms(4) rd off buf m fits ls ks p o1 len failed show thesis
                by (auto simp: object_write_chunk_def sm_simps key_names)
            next
              case pok: (Inr u)
              have some1: "oinfo b1 i \<noteq> None" using some o1(2) by simp
              obtain wr b2 where w: "oc_write_info c i (x\<lparr>info_offset := m\<rparr>) b1 = (wr, b2)" by fastforce
              have run: "(r, b') = (case wr of Inl e \<Rightarrow> (Inl e, b2) | Inr u \<Rightarrow> (Inr (len_u64 d), b2))"
                using assms(4) rd off buf m fits ls ks p pok w len
                by (simp add: object_write_chunk_def sm_simps key_names sm_bind_def sm_return_def split: sum.splits)
              from o1(1) some1 w show thesis
              proof (cases rule: write_over)
                case (failed e)
                with run o1 that(1) show thesis by simp
              next
                case (written j)
                have "m = off + len_u64 d" using checked_add_SomeD(1) [OF m] .
                moreover have "chunk_fits x off (len_u64 d)"
                  using m fits calculation by (auto simp: chunk_fits_def exceeds_Inr)
                moreover have "read_to_end rd = Inr d"
                  using buf by (auto simp: read_all_def split: sum.splits)
                moreover have "objs b1 = (objs b)(pre @ ?n \<mapsto> d)"
                  using res pok by (simp add: put_result_def)
                ultimately show thesis
                  using run written o1 that(2) [OF _ _ _ _ _ l, of d j] by (simp add: key_names)
              qed
            qed
          qed
        qed
      qed
    qed
  qed
qed

lemma declare_cases:
  assumes "oinv b" and "oinfo b i = Some x" and "object_declare_length c i n b = (r, b')"
  obtains (failed) e where "r = Inl e" and "oinv b'" and "oinfo b' = oinfo b"
    | (written) j where "r = Inr ()" and "oinv b'" and "info_size x = None"
      and "oinfo b' = (oinfo b)(i \<mapsto> with_length n x)" and "objs b' = (objs b)(info_key pre i \<mapsto> j)"
proof (cases "info_size x = None")
  case False
  then show thesis
    using assms read_present [OF assms(1,2)] failed by (auto simp: object_declare_length_def sm_simps)
next
  case True
  have "oc_write_info c i (with_length n x) b = (r, b')"
    using True assms(3) read_present [OF assms(1,2)]
    by (simp add: object_declare_length_def sm_simps with_length_def)
  from assms(1) _ this show thesis
    by (cases rule: write_over) (use assms(2) True failed written in auto)
qed

text \<open>An assembly whose sources are objects of recorded uploads.\<close>

lemma assemble_keeps:
  assumes "oinv b" and "oinfo b i \<noteq> None" and "oc_assemble c i (data_key pre i) srcs opn b = (r, b')"
    and "\<And>k. k \<in> set srcs \<Longrightarrow> \<exists>j n. k = pre @ n \<and> owned j n \<and> oinfo b j \<noteq> None"
  shows "oinv b'" and "oinfo b' = oinfo b"
proof -
  from assemble_frame [OF oinv_svc [OF assms(1)] assms(3)] have s: "svc b'"
    and fr: "assembly_frame pre objs i (data_key pre i) srcs b b'" by simp_all
  have "\<exists>j n. k = pre @ n \<and> owned j n \<and> oinfo b j \<noteq> None" if "objs b' k \<noteq> objs b k" for k
  proof -
    from fr that consider "k = pre @ as_str i" | "k \<in> set srcs" | m where "k = pre @ tmp_name i m"
      unfolding assembly_frame_def key_names by blast
    then show ?thesis using assms(2,4) owned_names by cases blast+
  qed
  from object_frame [OF assms(1) s this] show "oinv b'" "oinfo b' = oinfo b" by blast+
qed

text \<open>What the listing of a recorded upload finds are its parts.\<close>

lemma listed_owned:
  assumes "oinv b" and "oinfo b i = Some x" and "below_prefix objs b (part_prefix pre i) l" and "k \<in> set l"
  obtains m where "k = part_key pre i m"
proof -
  have k: "prefix (pre @ part_stem i) k" "objs b k \<noteq> None"
    using assms(3,4) by (simp_all add: below_prefix_def key_names)
  then obtain t where t: "k = pre @ part_stem i @ t" by (auto simp: prefix_def)
  then obtain m where "part_stem i @ t = part_name i m"
    using object_invD(5) [OF assms(1), of i "part_stem i @ t"] assms(2) k(2) by auto
  then show thesis using that [of m] t by (simp add: key_names)
qed

lemma finalize_keeps:
  assumes "oinv b" and "oinfo b i = Some x" and "object_finalize pre c i b = (r, b')"
  shows "oinv b' \<and> oinfo b' = oinfo b"
proof -
  have some: "oinfo b i \<noteq> None" using assms(2) by simp
  obtain lr b0 where "oc_list_parts c i b = (lr, b0)" by fastforce
  with list_parts [OF oinv_svc [OF assms(1)]] have ls: "oc_list_parts c i b = (lr, b)"
    and l: "\<And>ks. lr = Inr ks \<Longrightarrow> \<exists>l. below_prefix objs b (part_prefix pre i) l \<and> ks = sort_key key_index l"
    by blast+
  show ?thesis
  proof (cases lr)
    case (Inl e)
    with assms(1,3) ls show ?thesis by (auto simp: object_finalize_def sm_simps)
  next
    case ks: (Inr ks)
    from l [OF ks] obtain l where l: "below_prefix objs b (part_prefix pre i) l" "set ks = set l" by auto
    show ?thesis
    proof (cases "ks = []")
      case True
      with assms(3) ls ks have "oc_put_empty c i (pre @ as_str i) b = (r, b')"
        by (simp add: object_finalize_def sm_simps key_names)
      with put_empty [OF oinv_svc [OF assms(1)] this] put_owned [OF assms(1) some owned_names(1)]
      show ?thesis by blast
    next
      case False
      with assms(3) ls ks have "oc_assemble c i (data_key pre i) ks ''finalize'' b = (r, b')"
        by (simp add: object_finalize_def sm_simps)
      moreover have "\<exists>j n. k = pre @ n \<and> owned j n \<and> oinfo b j \<noteq> None" if "k \<in> set ks" for k
        using listed_owned [OF assms(1,2) l(1), of k] that l(2) some owned_names(2)
        by (metis key_names(3))
      ultimately show ?thesis using assemble_keeps [OF assms(1) some] by blast
    qed
  qed
qed

lemma deletes_objs:
  "svc b \<Longrightarrow> svc (fold (oc_delete c) ks b)
    \<and> objs (fold (oc_delete c) ks b) = (\<lambda>k. if k \<in> set ks then None else objs b k)"
  by (induction ks arbitrary: b) (use delete_key in \<open>auto simp: fun_eq_iff\<close>)

text \<open>Objects that are no records may disappear.\<close>

lemma vanish_keeps:
  assumes "oinv b" and "svc b'" and "\<And>k. objs b' k = objs b k \<or> objs b' k = None"
    and "\<And>j. objs b' (info_key pre j) = objs b (info_key pre j)"
  shows "oinv b'" and "oinfo b' = oinfo b"
proof -
  show info: "oinfo b' = oinfo b" by (rule ext) (simp add: object_info_of_def assms(4))
  have objs: "objs b' k \<noteq> None \<Longrightarrow> objs b k \<noteq> None" for k using assms(3) [of k] by auto
  have "\<exists>k. n = part_name i k" if "oinfo b' i \<noteq> None" "objs b' (pre @ n) \<noteq> None" "like_part i n" for i n
    using object_invD(5) [OF assms(1) _ objs] that info by metis
  then show "oinv b'"
    using object_invD(1,3,4) [OF assms(1)] by (intro object_invI assms(2)) (simp_all add: info assms(4))
qed

lemma deletes_keep:
  assumes "oinv b" and "\<And>k j. k \<in> set ks \<Longrightarrow> k \<noteq> info_key pre j"
  shows "oinv (fold (oc_delete c) ks b) \<and> oinfo (fold (oc_delete c) ks b) = oinfo b"
proof -
  note d = deletes_objs [OF oinv_svc [OF assms(1)], of ks]
  have "objs (fold (oc_delete c) ks b) (info_key pre j) = objs b (info_key pre j)" for j
    using d assms(2) by auto
  with d show ?thesis using vanish_keeps [OF assms(1)] by simp
qed

lemma delete_keeps:
  assumes "oinv b" and "oinfo b i = Some x" and "object_delete pre c i b = (r, b')"
  shows "r = Inr ()" and "oinv b'" and "oinfo b' = (oinfo b)(i := None)"
proof -
  note i = object_info_valid [of pre js objs b i, unfolded assms(2), simplified]
  let ?b1 = "oc_delete c (data_key pre i) b"
  let ?b2 = "oc_delete c (info_key pre i) ?b1"
  note d1 = delete_key [OF oinv_svc [OF assms(1)], of "data_key pre i"]
  note d2 = delete_key [of ?b1 "info_key pre i"]
  have no: "info_key pre j \<noteq> data_key pre i" for j
    using i by (simp add: key_names names_distinct)
  have 1: "oinv ?b1" "oinfo ?b1 = oinfo b"
    using vanish_keeps [OF assms(1), of ?b1] d1 no by auto
  have 2: "oinv ?b2" "oinfo ?b2 = (oinfo b)(i := None)"
    using object_del_info [OF 1(1) _ i, of ?b2] d1 d2 1(2) by simp_all
  obtain lr b3 where "oc_list_parts c i ?b2 = (lr, b3)" by fastforce
  with list_parts [OF oinv_svc [OF 2(1)]] have ls: "oc_list_parts c i ?b2 = (lr, ?b2)"
    and l: "\<And>ks. lr = Inr ks \<Longrightarrow> \<exists>l. below_prefix objs ?b2 (part_prefix pre i) l \<and> ks = sort_key key_index l"
    by blast+
  show "r = Inr ()"
    using assms(3) ls by (cases lr) (simp_all add: object_delete_def Let_def)
  have "oinv b' \<and> oinfo b' = oinfo ?b2"
  proof (cases lr)
    case (Inl e)
    then show ?thesis using assms(3) ls 2(1) by (simp add: object_delete_def Let_def)
  next
    case (Inr ks)
    then have b': "b' = fold (oc_delete c) ks ?b2"
      using assms(3) ls by (simp add: object_delete_def Let_def)
    from l [OF Inr] obtain l where l: "below_prefix objs ?b2 (part_prefix pre i) l" "set ks = set l" by auto
    show ?thesis
      unfolding b'
    proof (rule deletes_keep [OF 2(1)])
      fix k j
      assume "k \<in> set ks"
      then have k: "prefix (pre @ part_stem i) k" "objs ?b2 k \<noteq> None"
        using l by (simp_all add: below_prefix_def key_names)
      then obtain t where t: "k = pre @ part_stem i @ t" by (auto simp: prefix_def)
      have "objs b k \<noteq> None" using k(2) d1 d2 by (auto split: if_splits)
      then obtain m where "part_stem i @ t = part_name i m"
        using object_invD(5) [OF assms(1), of i "part_stem i @ t"] assms(2) t by auto
      then show "k \<noteq> info_key pre j" using t by (simp add: key_names names_distinct)
    qed
  qed
  with 2 show "oinv b'" "oinfo b' = (oinfo b)(i := None)" by simp_all
qed

lemma concatenate_cases:
  assumes "oinv b" and "oinfo b i = Some x" and "\<And>p. p \<in> set ps \<Longrightarrow> oinfo b (info_id p) = Some p"
    and "object_concatenate pre c i ps b = (r, b')"
  obtains (failed) e where "r = Inl e" and "oinv b'" and "oinfo b' = oinfo b"
    | (joined) "r = Inr ()" and "oinv b'"
      and "oinfo b' = (oinfo b)(i \<mapsto> with_total (sum_sizes ps) x)"
proof -
  have some: "oinfo b i \<noteq> None" using assms(2) by simp
  let ?srcs = "map (\<lambda>p. data_key pre (info_id p)) ps"
  obtain ar b1 where a: "oc_assemble c i (data_key pre i) ?srcs ''concatenate'' b = (ar, b1)" by fastforce
  have "\<exists>j n. k = pre @ n \<and> owned j n \<and> oinfo b j \<noteq> None" if "k \<in> set ?srcs" for k
    using that assms(3) owned_names(1) by (fastforce simp: key_names)
  note b1 = assemble_keeps [OF assms(1) some a this]
  show thesis
  proof (cases ar)
    case (Inl e)
    with assms(4) a b1 failed show thesis by (auto simp: object_concatenate_def sm_simps Let_def)
  next
    case (Inr u)
    have "oinfo b1 i = Some x" using b1(2) assms(2) by simp
    from read_present [OF b1(1) this]
    have w: "oc_write_info c i (with_total (sum_sizes ps) x) b1 = (r, b')"
      using assms(4) a Inr by (simp add: object_concatenate_def sm_simps Let_def with_total_def)
    have "oinfo b1 i \<noteq> None" using b1(2) some by simp
    from b1(1) this w show thesis
      by (cases rule: write_over) (use b1(2) failed joined in auto)
  qed
qed

lemma read_content_keeps:
  assumes "oinv b" and "oinfo b i = Some x" and "object_read_content pre c i b = (r, b')"
  shows "b' = b"
  using assms(3) read_present [OF assms(1,2)] get_object [OF oinv_svc [OF assms(1)]]
  by (cases "is_complete x") (auto simp: object_read_content_def sm_simps)

section \<open>Bytes\<close>

lemma info_key_keys [simp]:
  "info_key pre j \<noteq> part_key pre i k" "part_key pre i k \<noteq> info_key pre j"
  "valid_id i \<Longrightarrow> info_key pre j \<noteq> data_key pre i" "valid_id i \<Longrightarrow> data_key pre i \<noteq> info_key pre j"
  "valid_id j \<Longrightarrow> data_key pre j \<noteq> part_key pre i k" "valid_id j \<Longrightarrow> part_key pre i k \<noteq> data_key pre j"
  by (auto simp: key_names names_distinct)

lemma info_write_bytes:
  assumes "objs b' = (objs b)(info_key pre i \<mapsto> d)"
  shows "object_parts pre objs b' = object_parts pre objs b"
    and "valid_id j \<Longrightarrow> object_data pre objs b' j = object_data pre objs b j"
proof -
  show "object_parts pre objs b' = object_parts pre objs b"
    by (rule ext, rule object_parts_same) (simp add: assms)
  show "valid_id j \<Longrightarrow> object_data pre objs b' j = object_data pre objs b j"
    by (simp add: assms object_data_def)
qed

lemma write_bytes:
  assumes "oinv b" and "oinfo b i = Some x" and "object_parts pre objs b i bs"
    and "Suc (length bs) < 2 ^ 32" and "below_prefix objs b (part_prefix pre i) l"
    and "objs b' = (objs b)(part_key pre i (word_of_nat (length l)) \<mapsto> d, info_key pre i \<mapsto> j)"
  shows "object_parts pre objs b' i (bs @ [d])"
    and "k \<noteq> i \<Longrightarrow> object_parts pre objs b' k = object_parts pre objs b k"
    and "valid_id k \<Longrightarrow> object_data pre objs b' k = object_data pre objs b k"
proof -
  have "length (sort_key key_index l) = length bs"
    by (subst listed_parts [OF assms(1,2,3,5)]) (simp add: part_keys_def)
  then have l: "length l = length bs" by simp
  show "object_parts pre objs b' i (bs @ [d])"
    by (rule object_parts_snoc [OF assms(3,4)]) (simp add: assms(6) l part_key_eq)
  show "k \<noteq> i \<Longrightarrow> object_parts pre objs b' k = object_parts pre objs b k"
    by (rule object_parts_same) (simp add: assms(6) part_key_eq)
  show "valid_id k \<Longrightarrow> object_data pre objs b' k = object_data pre objs b k"
    by (simp add: assms(6) object_data_def)
qed

lemma finalize_bytes:
  assumes "oinv b" and "oinfo b i = Some x" and "object_parts pre objs b i bs"
    and "object_finalize pre c i b = (Inr u, b')"
  shows "object_data pre objs b' i = Some (concat bs)" and "object_parts pre objs b' i []"
    and "k \<noteq> i \<Longrightarrow> object_parts pre objs b' k = object_parts pre objs b k"
    and "k \<noteq> i \<Longrightarrow> valid_id k \<Longrightarrow> object_data pre objs b' k = object_data pre objs b k"
proof -
  note i = object_info_valid [of pre js objs b i, unfolded assms(2), simplified]
  note sv = oinv_svc [OF assms(1)]
  obtain lr b0 where "oc_list_parts c i b = (lr, b0)" by fastforce
  with list_parts [OF sv] have ls: "oc_list_parts c i b = (lr, b)"
    and l: "\<And>ks. lr = Inr ks \<Longrightarrow> \<exists>l. below_prefix objs b (part_prefix pre i) l \<and> ks = sort_key key_index l"
    by blast+
  from assms(4) ls obtain ks where ks: "lr = Inr ks"
    by (cases lr) (auto simp: object_finalize_def sm_simps)
  with l listed_parts [OF assms(1-3)] have keys: "ks = part_keys pre i (length bs)" by auto
  have n: "length bs < 2 ^ 32" using assms(3) by (simp add: object_parts_def)
  have in_keys: "part_key pre j m \<in> set (part_keys pre i (length bs)) \<longleftrightarrow> j = i \<and> unat m < length bs" for j m
  proof
    assume "part_key pre j m \<in> set (part_keys pre i (length bs))"
    then show "j = i \<and> unat m < length bs"
      using n by (auto simp: part_keys_def part_key_eq unat_word_of_nat_32)
  next
    assume "j = i \<and> unat m < length bs"
    then show "part_key pre j m \<in> set (part_keys pre i (length bs))"
      by (auto simp: part_keys_def intro!: image_eqI [of _ _ "unat m"])
  qed
  have own: "objs b (part_key pre i m) \<noteq> None \<longleftrightarrow> unat m < length bs" for m
    using assms(3) by (simp add: object_parts_def)
  have eff: "objs b' (data_key pre i) = Some (concat bs)
    \<and> (\<forall>m. objs b' (part_key pre i m) = None)
    \<and> (\<forall>j m. j \<noteq> i \<longrightarrow> objs b' (part_key pre j m) = objs b (part_key pre j m))
    \<and> (\<forall>j. j \<noteq> i \<longrightarrow> valid_id j \<longrightarrow> objs b' (data_key pre j) = objs b (data_key pre j))"
  proof (cases "bs = []")
    case True
    with assms(4) ls ks keys have "oc_put_empty c i (data_key pre i) b = (Inr u, b')"
      by (simp add: object_finalize_def sm_simps)
    with put_empty [OF sv this] have "objs b' = (objs b)(data_key pre i \<mapsto> [])"
      by (simp add: put_result_def)
    with True i own show ?thesis by (auto simp: key_names)
  next
    case False
    with assms(4) ls ks keys
    have a: "oc_assemble c i (data_key pre i) (part_keys pre i (length bs)) ''finalize'' b = (Inr u, b')"
      by (simp add: object_finalize_def sm_simps)
    from assemble_frame [OF sv a] have fr: "objs b' k \<noteq> objs b k \<Longrightarrow> k = data_key pre i
        \<or> k \<in> set (part_keys pre i (length bs)) \<or> (\<exists>m. k = pre @ tmp_name i m)" for k
      unfolding assembly_frame_def by blast
    have dist: "distinct (part_keys pre i (length bs))"
      using n by (auto simp: part_keys_def distinct_map inj_on_def part_key_eq word_of_nat_32_eq)
    have "assembled_from objs (data_key pre i) (part_keys pre i (length bs)) b b'"
    proof (rule assemble_ok [OF sv a])
      show "data_key pre i \<notin> set (part_keys pre i (length bs))"
        using i by (auto simp: part_keys_def)
      show "pre @ tmp_name i m \<notin> insert (data_key pre i) (set (part_keys pre i (length bs)))" for m
        using i by (auto simp: part_keys_def key_names)
      show "length (part_keys pre i (length bs)) < 2 ^ 32" using n by (simp add: part_keys_def)
    qed (use False dist in simp_all)
    then obtain ds where ds: "map (objs b) (part_keys pre i (length bs)) = map Some ds"
      "objs b' (data_key pre i) = Some (concat ds)"
      "\<And>k. k \<in> set (part_keys pre i (length bs)) \<Longrightarrow> objs b' k = None"
      unfolding assembled_from_def by blast
    have "map Some ds = map Some bs" using ds(1) object_parts_objs [OF assms(3)] by simp
    then have "ds = bs" by (simp add: inj_map_eq_map inj_on_def)
    moreover have other: "objs b' (part_key pre j m) = objs b (part_key pre j m)"
      if "\<not> (j = i \<and> unat m < length bs)" for j m
    proof (rule ccontr)
      assume "objs b' (part_key pre j m) \<noteq> objs b (part_key pre j m)"
      from fr [OF this] that have "part_key pre j m = data_key pre i \<or> (\<exists>n. part_key pre j m = pre @ tmp_name i n)"
        by (simp only: in_keys simp_thms)
      with i show False by (auto simp: key_names names_distinct)
    qed
    moreover have "objs b' (part_key pre i m) = None" for m
      using ds(3) in_keys [of i m] other [of i m] own [of m] by (cases "unat m < length bs") auto
    moreover have "objs b' (data_key pre j) = objs b (data_key pre j)" if "j \<noteq> i" "valid_id j" for j
    proof -
      have "data_key pre j \<notin> set (part_keys pre i (length bs))"
        using that(2) by (auto simp: part_keys_def)
      then show ?thesis using fr [of "data_key pre j"] that by (auto simp: key_names)
    qed
    ultimately show ?thesis using ds(2) by simp
  qed
  show "object_data pre objs b' i = Some (concat bs)" using eff by (simp add: object_data_def)
  show "object_parts pre objs b' i []" using eff by (simp add: object_parts_def)
  show "k \<noteq> i \<Longrightarrow> object_parts pre objs b' k = object_parts pre objs b k"
    by (rule object_parts_same) (use eff in blast)
  show "k \<noteq> i \<Longrightarrow> valid_id k \<Longrightarrow> object_data pre objs b' k = object_data pre objs b k"
    using eff by (simp add: object_data_def)
qed

end

section \<open>The contract of the uploads\<close>

sublocale object_backend \<subseteq> parted_store "object_ops pre c" "object_info_of pre js objs"
  "object_inv pre js objs svc" "object_parts pre objs" "object_data pre objs"
proof (unfold_locales, goal_cases)
  case (1 s i)
  then obtain x where x: "object_info_of pre js objs s i = Some x" by blast
  show ?case
    unfolding object_ops_sel object_get_upload_def
    by (simp add: sm_bind_def read_present [OF 1(1) x] sm_return_def)
next
  case (2 s i)
  show ?case
    unfolding object_ops_sel object_get_upload_def
    by (simp add: sm_bind_def read_missing [OF 2])
next
  case (3 s i x)
  then show ?case by (simp add: read_present)
next
  case (4 s i x r off n s')
  then have "object_write_chunk pre c i off r s = (Inr n, s')" by simp
  with 4(1-3) show ?case by (cases rule: write_chunk_cases) auto
next
  case (5 s i x r off e s')
  then have "object_write_chunk pre c i off r s = (Inl e, s')" by simp
  with 5(1-3) show ?case by (cases rule: write_chunk_cases) auto
next
  case (6 s i x res s')
  then have "object_finalize pre c i s = (res, s')" by simp
  from finalize_keeps [OF 6(1,2) this] show ?case .
next
  case (7 s i x n u s')
  then have "object_declare_length c i n s = (Inr u, s')" by simp
  with 7(1,2) show ?case by (cases rule: declare_cases) auto
next
  case (8 s i x n e s')
  then have "object_declare_length c i n s = (Inl e, s')" by simp
  with 8(1,2) show ?case by (cases rule: declare_cases) auto
next
  case (9 s i x u s')
  then have "object_delete pre c i s = (Inr u, s')" by simp
  from delete_keeps(2,3) [OF 9(1,2) this] show ?case by simp
next
  case (10 s i x ps u s')
  then have "object_concatenate pre c i ps s = (Inr u, s')" by simp
  with 10(1-3) show ?case by (cases rule: concatenate_cases) auto
next
  case (11 s i x ps e s')
  then have "object_concatenate pre c i ps s = (Inl e, s')" by simp
  with 11(1-3) show ?case by (cases rule: concatenate_cases) auto
next
  case (12 s i x res' s')
  then have "object_read_content pre c i s = (res', s')" by simp
  from read_content_keeps [OF 12(1,2) this] show ?case .
next
  case (13 s i x rd off n s' b bs)
  then have "object_write_chunk pre c i off rd s = (Inr n, s')" by simp
  with 13(1-3) show ?case
  proof (cases rule: write_chunk_cases)
    case (written d l j)
    with 13(5) have "d = b" by simp
    with write_bytes [OF 13(1,2,6,7) written(6,7)] show ?thesis by simp
  qed simp
next
  case (14 s i x m u s')
  then have "object_declare_length c i m s = (Inr u, s')" by simp
  with 14(1,2) show ?case
    by (cases rule: declare_cases) (simp_all add: info_write_bytes)
next
  case (15 s i x bs u s')
  then have "object_finalize pre c i s = (Inr u, s')" by simp
  from finalize_bytes [OF 15(1-3) this] show ?case by simp
next
  case (16 s i x rd s' d)
  then have "oc_get_data c i (data_key pre i) s = (Inr rd, s')"
    using read_present [OF 16(1,2)] by (simp add: object_read_content_def sm_simps)
  with get_object [OF oinv_svc [OF 16(1)] this] 16(5) show ?case by (auto simp: object_data_def)
qed

end
