(* ===== verification/S3_Laws.thy ===== *)
theory S3_Laws
  imports S3_Store Object_Laws
begin

text \<open>
  The S3 store on a service that behaves as S3 is documented to: its listing comes in a finite number
  of pages, and a multipart upload that is completed makes an object of its parts. From this the
  listing loop ends, the assembly writes the sources one after another in parts of 5 MiB, and the
  store meets the contract \<open>object_backend\<close>.
\<close>

section \<open>The service\<close>

text \<open>
  The pages of a listing from a token on: a page that is not truncated is the last one, a truncated
  page names the next token; a request may fail (\<open>None\<close>).
\<close>

inductive s3_listing ::
  "'b s3_client \<Rightarrow> string \<Rightarrow> string \<Rightarrow> 'b \<Rightarrow> string option \<Rightarrow> string list option \<Rightarrow> bool"
  for cl bk p b where
    failed: "s3_list_objects cl bk p token b = Inl e \<Longrightarrow> s3_listing cl bk p b token None"
  | last: "s3_list_objects cl bk p token b = Inr page \<Longrightarrow> pg_truncated page \<noteq> Some True \<Longrightarrow>
      s3_listing cl bk p b token (Some (page_keys page))"
  | more: "s3_list_objects cl bk p token b = Inr page \<Longrightarrow> pg_truncated page = Some True \<Longrightarrow>
      pg_next page = Some t \<Longrightarrow> t \<noteq> [] \<Longrightarrow> s3_listing cl bk p b (Some t) r \<Longrightarrow>
      s3_listing cl bk p b token (map_option (append (page_keys page)) r)"

text \<open>
  \<open>objs b\<close> are the objects of the bucket, \<open>mp b u n\<close> part number \<open>n\<close> of the multipart upload \<open>u\<close>, with
  its entity tag; \<open>ok\<close> is an invariant of the service.
\<close>

definition s3_service ::
  "'b s3_client \<Rightarrow> string \<Rightarrow> ('b \<Rightarrow> string \<Rightarrow> bytes option)
     \<Rightarrow> ('b \<Rightarrow> string \<Rightarrow> int \<Rightarrow> (string \<times> bytes) option) \<Rightarrow> ('b \<Rightarrow> bool) \<Rightarrow> bool" where
  "s3_service cl bk objs mp ok \<longleftrightarrow>
     (\<forall>b k d r b'. ok b \<longrightarrow> s3_put_object cl bk k d b = (r, b') \<longrightarrow>
        ok b' \<and> objs b' = (case r of Inr u \<Rightarrow> (objs b)(k \<mapsto> d) | Inl e \<Rightarrow> objs b))
     \<and> (\<forall>b k. ok b \<longrightarrow>
          (case objs b k of
             Some d \<Rightarrow> (\<exists>rd. s3_get_object cl bk k b = Inr rd \<and> read_to_end rd = Inr d)
           | None \<Rightarrow> (\<exists>e. s3_get_object cl bk k b = Inl e \<and> s3_is_not_found e)))
     \<and> (\<forall>b p. ok b \<longrightarrow> p \<noteq> [] \<longrightarrow>
          (\<exists>r. s3_listing cl bk p b None r \<and> (\<forall>l. r = Some l \<longrightarrow> below_prefix objs b p l)))
     \<and> (\<forall>b k r b'. ok b \<longrightarrow> s3_delete_object cl bk k b = (r, b') \<longrightarrow>
          ok b' \<and> objs b' = (objs b)(k := None))
     \<and> (\<forall>b k r b'. ok b \<longrightarrow> s3_create_multipart cl bk k b = (r, b') \<longrightarrow> ok b' \<and> objs b' = objs b)
     \<and> (\<forall>b k u n d r b'. ok b \<longrightarrow> s3_upload_part cl bk k u n d b = (r, b') \<longrightarrow>
          ok b' \<and> objs b' = objs b
          \<and> (\<forall>t. r = Inr (Some t) \<longrightarrow> mp b' u = (mp b u)(n \<mapsto> (t, d))))
     \<and> (\<forall>b k u cps r b'. ok b \<longrightarrow> s3_complete_multipart cl bk k u cps b = (r, b') \<longrightarrow>
          ok b'
          \<and> (case r of
               Inl e \<Rightarrow> objs b' = objs b
             | Inr x \<Rightarrow>
                 (\<exists>ds. list_all2 (\<lambda>cp d. mp b u (cp_number cp) = Some (cp_etag cp, d)) cps ds
                     \<and> objs b' = (objs b)(k \<mapsto> concat ds))))
     \<and> (\<forall>b k u r b'. ok b \<longrightarrow> s3_abort_multipart cl bk k u b = (r, b') \<longrightarrow> ok b' \<and> objs b' = objs b)"

lemma s3_serviceD:
  assumes "s3_service cl bk objs mp ok" and "ok b"
  shows s3_put_law: "s3_put_object cl bk k d b = (r, b') \<Longrightarrow>
      ok b' \<and> objs b' = (case r of Inr u \<Rightarrow> (objs b)(k \<mapsto> d) | Inl e \<Rightarrow> objs b)"
    and s3_get_some: "objs b k = Some d \<Longrightarrow> \<exists>rd. s3_get_object cl bk k b = Inr rd \<and> read_to_end rd = Inr d"
    and s3_get_none: "objs b k = None \<Longrightarrow> \<exists>e. s3_get_object cl bk k b = Inl e \<and> s3_is_not_found e"
    and s3_list_law: "p \<noteq> [] \<Longrightarrow> \<exists>r. s3_listing cl bk p b None r \<and> (\<forall>l. r = Some l \<longrightarrow> below_prefix objs b p l)"
    and s3_delete_law: "s3_delete_object cl bk k b = (rd, b') \<Longrightarrow> ok b' \<and> objs b' = (objs b)(k := None)"
    and s3_create_law: "s3_create_multipart cl bk k b = (rc, b') \<Longrightarrow> ok b' \<and> objs b' = objs b"
    and s3_part_law: "s3_upload_part cl bk k u n d b = (rp, b') \<Longrightarrow>
      ok b' \<and> objs b' = objs b \<and> (\<forall>t. rp = Inr (Some t) \<longrightarrow> mp b' u = (mp b u)(n \<mapsto> (t, d)))"
    and s3_complete_law: "s3_complete_multipart cl bk k u cps b = (r, b') \<Longrightarrow>
      ok b' \<and> (case r of
               Inl e \<Rightarrow> objs b' = objs b
             | Inr x \<Rightarrow>
                 (\<exists>ds. list_all2 (\<lambda>cp d. mp b u (cp_number cp) = Some (cp_etag cp, d)) cps ds
                     \<and> objs b' = (objs b)(k \<mapsto> concat ds)))"
    and s3_abort_law: "s3_abort_multipart cl bk k u b = (ra, b') \<Longrightarrow> ok b' \<and> objs b' = objs b"
proof -
  note L = assms(1) [unfolded s3_service_def]
  show "s3_put_object cl bk k d b = (r, b') \<Longrightarrow>
      ok b' \<and> objs b' = (case r of Inr u \<Rightarrow> (objs b)(k \<mapsto> d) | Inl e \<Rightarrow> objs b)"
    using L [THEN conjunct1] assms(2) by blast
  have get: "case objs b k of
             Some d \<Rightarrow> (\<exists>rd. s3_get_object cl bk k b = Inr rd \<and> read_to_end rd = Inr d)
           | None \<Rightarrow> (\<exists>e. s3_get_object cl bk k b = Inl e \<and> s3_is_not_found e)"
    using L [THEN conjunct2, THEN conjunct1] assms(2) by blast
  show "objs b k = Some d \<Longrightarrow> \<exists>rd. s3_get_object cl bk k b = Inr rd \<and> read_to_end rd = Inr d"
    and "objs b k = None \<Longrightarrow> \<exists>e. s3_get_object cl bk k b = Inl e \<and> s3_is_not_found e"
    using get by simp_all
  show "p \<noteq> [] \<Longrightarrow> \<exists>r. s3_listing cl bk p b None r \<and> (\<forall>l. r = Some l \<longrightarrow> below_prefix objs b p l)"
    using L [THEN conjunct2, THEN conjunct2, THEN conjunct1] assms(2) by blast
  show "s3_delete_object cl bk k b = (rd, b') \<Longrightarrow> ok b' \<and> objs b' = (objs b)(k := None)"
    using L [THEN conjunct2, THEN conjunct2, THEN conjunct2, THEN conjunct1] assms(2) by blast
  show "s3_create_multipart cl bk k b = (rc, b') \<Longrightarrow> ok b' \<and> objs b' = objs b"
    using L [THEN conjunct2, THEN conjunct2, THEN conjunct2, THEN conjunct2, THEN conjunct1] assms(2) by blast
  show "s3_upload_part cl bk k u n d b = (rp, b') \<Longrightarrow>
      ok b' \<and> objs b' = objs b \<and> (\<forall>t. rp = Inr (Some t) \<longrightarrow> mp b' u = (mp b u)(n \<mapsto> (t, d)))"
    using L [THEN conjunct2, THEN conjunct2, THEN conjunct2, THEN conjunct2, THEN conjunct2, THEN conjunct1] assms(2) by blast
  show "s3_complete_multipart cl bk k u cps b = (r, b') \<Longrightarrow>
      ok b' \<and> (case r of
               Inl e \<Rightarrow> objs b' = objs b
             | Inr x \<Rightarrow>
                 (\<exists>ds. list_all2 (\<lambda>cp d. mp b u (cp_number cp) = Some (cp_etag cp, d)) cps ds
                     \<and> objs b' = (objs b)(k \<mapsto> concat ds)))"
    using L [THEN conjunct2, THEN conjunct2, THEN conjunct2, THEN conjunct2, THEN conjunct2, THEN conjunct2, THEN conjunct1] assms(2) by blast
  show "s3_abort_multipart cl bk k u b = (ra, b') \<Longrightarrow> ok b' \<and> objs b' = objs b"
    using L [THEN conjunct2, THEN conjunct2, THEN conjunct2, THEN conjunct2, THEN conjunct2, THEN conjunct2, THEN conjunct2] assms(2) by blast
qed

section \<open>Listing\<close>

lemma s3_list_loop_ends:
  assumes "s3_listing (s3_client st) (s3_bucket st) (part_prefix (s3_prefix st) i) b token r"
  shows "\<exists>res. s3_list_loop st i token names b = Some res
    \<and> (\<forall>ks. res = Inr ks \<longrightarrow> (\<exists>l. r = Some l \<and> ks = names @ l))"
  using assms
proof (induction arbitrary: names rule: s3_listing.induct)
  case (failed token e)
  then show ?case by (simp add: s3_list_loop.simps)
next
  case (last token page)
  then show ?case by (simp add: s3_list_loop.simps [of st i token] Let_def)
next
  case (more token page t r)
  from more.IH [of "names @ page_keys page"] obtain res where
    res: "s3_list_loop st i (Some t) (names @ page_keys page) b = Some res"
      "\<And>ks. res = Inr ks \<Longrightarrow> \<exists>l. r = Some l \<and> ks = (names @ page_keys page) @ l" by blast
  from more.hyps res(1) have "s3_list_loop st i token names b = Some res"
    by (simp add: s3_list_loop.simps [of st i token] Let_def)
  with res(2) show ?case by auto
qed

section \<open>Parts of an assembly\<close>

abbreviation s3_up ::
  "'b s3_store \<Rightarrow> ('b \<Rightarrow> string \<Rightarrow> bytes option) \<Rightarrow> ('b \<Rightarrow> string \<Rightarrow> int \<Rightarrow> (string \<times> bytes) option)
     \<Rightarrow> ('b \<Rightarrow> bool) \<Rightarrow> 'b \<Rightarrow> bool" where
  "s3_up st objs mp ok b \<equiv> s3_service (s3_client st) (s3_bucket st) objs mp ok \<and> ok b"

text \<open>
  The parts recorded so far are numbered below the next number and hold \<open>ds\<close>, in order; \<open>full\<close> says
  that each is exactly as long as a part must be.
\<close>

definition parts_hold ::
  "(string \<Rightarrow> int \<Rightarrow> (string \<times> bytes) option) \<Rightarrow> string \<Rightarrow> assembly \<Rightarrow> bytes list \<Rightarrow> bool" where
  "parts_hold m u a ds \<longleftrightarrow>
     as_number a = int (length ds) + 1 \<and> as_number a \<le> MAX_MULTIPART_PARTS + 1
     \<and> (\<forall>cp \<in> set (as_completed a). cp_number cp < as_number a)
     \<and> list_all2 (\<lambda>cp d. m u (cp_number cp) = Some (cp_etag cp, d)) (as_completed a) ds"

abbreviation full :: "bytes list \<Rightarrow> bool" where
  "full ds \<equiv> \<forall>d \<in> set ds. length d = unat MIN_MULTIPART_PART"

abbreviation short :: "assembly \<Rightarrow> bool" where
  "short a \<equiv> length (as_buffer a) \<le> unat MIN_MULTIPART_PART"

lemma parts_hold_new [simp]: "parts_hold m u assembly_new []"
  by (simp add: parts_hold_def assembly_new_def MAX_MULTIPART_PARTS_def)

lemma parts_hold_buffer [simp]: "parts_hold m u (a\<lparr>as_buffer := x\<rparr>) ds = parts_hold m u a ds"
  by (simp add: parts_hold_def)

lemma parts_hold_completed: "parts_hold m u a ds \<Longrightarrow> as_completed a = [] \<longleftrightarrow> ds = []"
  by (auto simp: parts_hold_def)

lemma parts_hold_snoc:
  assumes "parts_hold m u a ds" and "m' u = (m u)(as_number a \<mapsto> (t, d))"
    and "as_number a \<le> MAX_MULTIPART_PARTS"
  shows "parts_hold m' u
    (a\<lparr>as_completed := as_completed a @ [\<lparr>cp_etag = t, cp_number = as_number a\<rparr>],
       as_number := as_number a + 1\<rparr>) (ds @ [d])"
proof -
  have "list_all2 (\<lambda>cp d. m' u (cp_number cp) = Some (cp_etag cp, d)) (as_completed a) ds"
    using assms unfolding parts_hold_def by (elim conjE list.rel_mono_strong) auto
  with assms show ?thesis
    by (force simp: parts_hold_def list_all2_appendI)
qed

lemma upload_one_part_step:
  assumes "s3_up st objs mp ok b" and "upload_one_part st i dest u d a b = (r, b')"
  shows "s3_up st objs mp ok b'" and "objs b' = objs b"
    and "r = Inr a' \<Longrightarrow> as_buffer a' = as_buffer a \<and> as_number a \<le> MAX_MULTIPART_PARTS"
    and "r = Inr a' \<Longrightarrow> parts_hold (mp b) u a ds \<Longrightarrow> parts_hold (mp b') u a' (ds @ [d])"
proof -
  obtain rp b1 where p: "s3_upload_part (s3_client st) (s3_bucket st) dest u (as_number a) d b = (rp, b1)"
    by fastforce
  from s3_part_law [OF _ _ p] assms(1) have law: "ok b1" "objs b1 = objs b"
    "\<And>t. rp = Inr (Some t) \<Longrightarrow> mp b1 u = (mp b u)(as_number a \<mapsto> (t, d))" by blast+
  have run: "upload_one_part st i dest u d a b =
    (if as_number a \<le> MAX_MULTIPART_PARTS
     then (case rp of
             Inl e \<Rightarrow> (Inl (s3_err i ''upload part'' e), b1)
           | Inr None \<Rightarrow> (Inl (Internal ''S3 upload part: missing ETag''), b1)
           | Inr (Some t) \<Rightarrow>
               (Inr (a\<lparr>as_completed := as_completed a @ [\<lparr>cp_etag = t, cp_number = as_number a\<rparr>],
                       as_number := as_number a + 1\<rparr>), b1))
     else (Inl (Internal ''S3 multipart: exceeded maximum part count (10000)''), b))"
    using p by (simp add: upload_one_part_def sm_simps sm_bind_def s3_send_def sm_return_def
        split: sum.splits option.splits)
  have b': "b' = (if as_number a \<le> MAX_MULTIPART_PARTS then b1 else b)"
    using run assms(2) by (auto split: if_splits sum.splits option.splits)
  show "s3_up st objs mp ok b'" "objs b' = objs b"
    using b' law assms(1) by simp_all
  show lim: "r = Inr a' \<Longrightarrow> as_buffer a' = as_buffer a \<and> as_number a \<le> MAX_MULTIPART_PARTS"
    using run assms(2) by (auto split: if_splits sum.splits option.splits)
  assume "r = Inr a'" and h: "parts_hold (mp b) u a ds"
  with run assms(2) obtain t where t: "rp = Inr (Some t)" "b' = b1"
    "a' = a\<lparr>as_completed := as_completed a @ [\<lparr>cp_etag = t, cp_number = as_number a\<rparr>],
            as_number := as_number a + 1\<rparr>"
    by (auto split: if_splits sum.splits option.splits)
  have num: "as_number a \<le> MAX_MULTIPART_PARTS" using lim \<open>r = Inr a'\<close> by simp
  show "parts_hold (mp b') u a' (ds @ [d])"
    unfolding t(2,3) using h law(3) [OF t(1)] num by (rule parts_hold_snoc)
qed

text \<open>What a run of the assembly adds: the parts \<open>cut\<close>, all full.\<close>

definition assembly_adds ::
  "'b s3_store \<Rightarrow> ('b \<Rightarrow> string \<Rightarrow> bytes option) \<Rightarrow> ('b \<Rightarrow> string \<Rightarrow> int \<Rightarrow> (string \<times> bytes) option)
     \<Rightarrow> ('b \<Rightarrow> bool) \<Rightarrow> string \<Rightarrow> bytes \<Rightarrow> assembly \<Rightarrow> 'b \<Rightarrow> (tus_error + assembly) \<times> 'b \<Rightarrow> bool" where
  "assembly_adds st objs mp ok u d a b res \<longleftrightarrow>
     s3_up st objs mp ok (snd res) \<and> objs (snd res) = objs b
     \<and> (\<forall>a' ds. fst res = Inr a' \<longrightarrow> parts_hold (mp b) u a ds \<longrightarrow>
          (\<exists>cut. d = concat cut @ as_buffer a' \<and> full cut \<and> parts_hold (mp (snd res)) u a' (ds @ cut)
             \<and> (length d < 2 ^ 63 \<longrightarrow> short a \<longrightarrow> short a')))"

lemma assembly_addsE:
  assumes "assembly_adds st objs mp ok u d a b (Inr a', b')" and "parts_hold (mp b) u a ds"
  obtains cut where "d = concat cut @ as_buffer a'" and "full cut" and "parts_hold (mp b') u a' (ds @ cut)"
    and "length d < 2 ^ 63 \<longrightarrow> short a \<longrightarrow> short a'"
  using assms unfolding assembly_adds_def fst_conv snd_conv by blast

lemma cut_parts_adds:
  "s3_up st objs mp ok b \<Longrightarrow>
     assembly_adds st objs mp ok u buffer a b (cut_parts st i dest u coming buffer a b)"
proof (induction st i dest u coming buffer a arbitrary: b rule: cut_parts.induct)
  case (1 st i dest u coming buffer a)
  let ?go = "MIN_MULTIPART_PART \<le> len_u64 buffer \<and> \<not> (len_u64 buffer = MIN_MULTIPART_PART \<and> \<not> coming)"
  let ?p = "take (unat MIN_MULTIPART_PART) buffer" and ?q = "drop (unat MIN_MULTIPART_PART) buffer"
  show ?case
  proof (cases ?go)
    case False
    then have "len_u64 buffer \<le> MIN_MULTIPART_PART" by auto
    then have "length buffer < 2 ^ 63 \<Longrightarrow> length buffer \<le> unat MIN_MULTIPART_PART"
      by (simp add: word_le_nat_alt len_u64_def unat_of_nat)
    with False 1(2) show ?thesis
      by (auto simp: cut_parts.simps [of st i dest u coming buffer a] assembly_adds_def sm_return_def
          intro: exI [of _ "[]"])
  next
    case True
    then have "unat MIN_MULTIPART_PART \<le> unat (len_u64 buffer)" by (simp add: word_le_nat_alt)
    also have "\<dots> \<le> length buffer" by (simp add: len_u64_def unat_of_nat)
    finally have len: "length ?p = unat MIN_MULTIPART_PART" by simp
    obtain r b1 where one: "upload_one_part st i dest u ?p a b = (r, b1)" by fastforce
    note step = upload_one_part_step [OF 1(2) one]
    show ?thesis
    proof (cases r)
      case (Inl e)
      with True one step(1,2) show ?thesis
        by (simp add: cut_parts.simps [of st i dest u coming buffer a] assembly_adds_def sm_simps)
    next
      case (Inr a1)
      have eq: "cut_parts st i dest u coming buffer a b = cut_parts st i dest u coming ?q a1 b1"
        using True one Inr by (simp add: cut_parts.simps [of st i dest u coming buffer a] sm_simps)
      from 1(1) [OF True step(1), of a1]
      have ih: "assembly_adds st objs mp ok u ?q a1 b1 (cut_parts st i dest u coming ?q a1 b1)" .
      have "\<exists>cut. buffer = concat cut @ as_buffer a' \<and> full cut
          \<and> parts_hold (mp (snd (cut_parts st i dest u coming ?q a1 b1))) u a' (ds @ cut)
          \<and> (length buffer < 2 ^ 63 \<longrightarrow> short a \<longrightarrow> short a')"
        if "fst (cut_parts st i dest u coming ?q a1 b1) = Inr a'" "parts_hold (mp b) u a ds" for a' ds
      proof -
        from ih that(1) step(4) [OF Inr that(2)] obtain cut where
          "?q = concat cut @ as_buffer a'" "full cut"
          "parts_hold (mp (snd (cut_parts st i dest u coming ?q a1 b1))) u a' ((ds @ [?p]) @ cut)"
          "length ?q < 2 ^ 63 \<longrightarrow> short a1 \<longrightarrow> short a'"
          unfolding assembly_adds_def by blast
        moreover have "length buffer < 2 ^ 63 \<longrightarrow> length ?q < 2 ^ 63" by auto
        moreover have "as_buffer a1 = as_buffer a" using step(3) [OF Inr] by simp
        ultimately show ?thesis
          using append_take_drop_id [of "unat MIN_MULTIPART_PART" buffer] len
          by (intro exI [of _ "?p # cut"]) (simp del: append_take_drop_id)
      qed
      with ih step(2) show ?thesis
        unfolding eq assembly_adds_def by simp
    qed
  qed
qed

lemma assembly_adds_keeps:
  "s3_up st objs mp ok b \<Longrightarrow> assembly_adds st objs mp ok u (as_buffer a) a b (Inr a, b)"
  by (auto simp: assembly_adds_def intro: exI [of _ "[]"])

lemma assembly_adds_fails:
  "s3_up st objs mp ok b \<Longrightarrow> assembly_adds st objs mp ok u d a b (Inl e, b)"
  by (simp add: assembly_adds_def)

text \<open>One run after another.\<close>

lemma assembly_adds_trans:
  assumes "assembly_adds st objs mp ok u d a b (Inr a1, b1)"
    and "assembly_adds st objs mp ok u (as_buffer a1 @ e) a1 b1 res"
  shows "assembly_adds st objs mp ok u (d @ e) a b res"
proof -
  have "\<exists>cut. d @ e = concat cut @ as_buffer a' \<and> full cut \<and> parts_hold (mp (snd res)) u a' (ds @ cut)
      \<and> (length (d @ e) < 2 ^ 63 \<longrightarrow> short a \<longrightarrow> short a')"
    if "fst res = Inr a'" "parts_hold (mp b) u a ds" for a' ds
  proof -
    from assms(1) that(2) obtain cut where c: "d = concat cut @ as_buffer a1" "full cut"
      "parts_hold (mp b1) u a1 (ds @ cut)" "length d < 2 ^ 63 \<longrightarrow> short a \<longrightarrow> short a1"
      by (auto simp: assembly_adds_def)
    with assms(2) that(1) obtain cut' where c': "as_buffer a1 @ e = concat cut' @ as_buffer a'" "full cut'"
      "parts_hold (mp (snd res)) u a' ((ds @ cut) @ cut')"
      "length (as_buffer a1 @ e) < 2 ^ 63 \<longrightarrow> short a1 \<longrightarrow> short a'"
      unfolding assembly_adds_def by blast
    have "d @ e = concat cut @ (as_buffer a1 @ e)" using c(1) by simp
    also have "\<dots> = concat (cut @ cut') @ as_buffer a'" by (simp only: c'(1) concat_append append_assoc)
    finally have "d @ e = concat (cut @ cut') @ as_buffer a'" .
    moreover have "length (as_buffer a1 @ e) \<le> length (d @ e)" "length d \<le> length (d @ e)"
      using c(1) by simp_all
    then have "length (d @ e) < 2 ^ 63 \<longrightarrow> short a \<longrightarrow> short a'"
      using c(4) c'(4) by linarith
    ultimately show ?thesis using c(2) c'(2,3) by (intro exI [of _ "cut @ cut'"]) auto
  qed
  with assms show ?thesis unfolding assembly_adds_def by auto
qed

lemma read_some_bytes:
  "read_some rd = (r, rd') \<Longrightarrow>
     read_to_end rd =
       (case r of Inl e \<Rightarrow> Inl e
        | Inr got \<Rightarrow> if got = [] then Inr []
                      else (case read_to_end rd' of Inl e \<Rightarrow> Inl e | Inr t \<Rightarrow> Inr (got @ t)))"
proof (induction rd arbitrary: r rd' rule: read_some.induct)
  case (2 c q)
  show ?case
  proof (cases "c = []")
    case True
    from 2(1) [OF True] 2(2) True show ?thesis by (auto split: sum.splits)
  next
    case False
    with 2(2) show ?thesis
      using append_take_drop_id [of "unat READ_BUF" c]
      by (auto simp: READ_BUF_def split: sum.splits if_splits)
  qed
qed auto

lemma copy_source_adds:
  "s3_up st objs mp ok b \<Longrightarrow> read_to_end rd = Inr d \<Longrightarrow>
     assembly_adds st objs mp ok u (as_buffer a @ d) a b (copy_source st i dest u more_keys rd a b)"
proof (induction st i dest u more_keys rd a arbitrary: b d rule: copy_source.induct)
  case (1 st i dest u more_keys rd a)
  obtain rs rd' where rs: "read_some rd = (rs, rd')" by fastforce
  from read_some_bytes [OF rs] 1(3) obtain got where got: "rs = Inr got" by (cases rs) auto
  have rest: "if got = [] then d = [] else \<exists>t. read_to_end rd' = Inr t \<and> d = got @ t"
    using read_some_bytes [OF rs] 1(3) got by (auto split: sum.splits if_splits)
  let ?coming = "\<not> got = [] \<or> more_keys"
  obtain r b1 where cut: "cut_parts st i dest u ?coming (as_buffer a @ got) a b = (r, b1)" by fastforce
  have adds: "assembly_adds st objs mp ok u (as_buffer a @ got) a b (r, b1)"
    using cut_parts_adds [OF 1(2), of u "as_buffer a @ got" a i dest ?coming] cut by simp
  have eq: "copy_source st i dest u more_keys rd a b =
    (case r of Inl e \<Rightarrow> (Inl e, b1)
     | Inr a1 \<Rightarrow> if got = [] then (Inr a1, b1) else copy_source st i dest u more_keys rd' a1 b1)"
    using cut by (simp add: copy_source.simps [of st i dest u more_keys rd a] rs got Let_def sm_bind_def
        sm_return_def split: sum.split)
  show ?case
  proof (cases r)
    case (Inl e)
    with adds show ?thesis unfolding eq by (auto simp: assembly_adds_def)
  next
    case (Inr a1)
    show ?thesis
    proof (cases "got = []")
      case True
      with adds rest Inr show ?thesis unfolding eq by simp
    next
      case False
      with rest obtain t where t: "read_to_end rd' = Inr t" "d = got @ t" by auto
      have up: "s3_up st objs mp ok b1" using adds by (simp add: assembly_adds_def)
      from 1(1) [OF rs [symmetric] got refl _ up t(1), of a1] False
      have "assembly_adds st objs mp ok u (as_buffer a1 @ t) a1 b1
          (copy_source st i dest u more_keys rd' a1 b1)" by blast
      from assembly_adds_trans [OF adds [unfolded Inr] this] show ?thesis
        unfolding eq using Inr False t(2) by simp
    qed
  qed
qed

lemma s3_get_eq:
  assumes "s3_up st objs mp ok b" and "objs b key = Some d"
  obtains rd where "s3_get st i op key b = (Inr rd, b)" and "read_to_end rd = Inr d"
  using s3_get_some [of "s3_client st" "s3_bucket st" objs mp ok b key d] assms
  by (auto simp: s3_get_def s3_ask_def)

lemma s3_get_missing:
  assumes "s3_up st objs mp ok b" and "objs b key = None"
  shows "s3_get st i op key b = (Inl (NotFound (as_str i)), b)"
  using s3_get_none [of "s3_client st" "s3_bucket st" objs mp ok b key] assms
  by (auto simp: s3_get_def s3_ask_def s3_err_def)

text \<open>The sources that are there are copied; one that is not stops the assembly.\<close>

lemma copy_sources_adds:
  "s3_up st objs mp ok b \<Longrightarrow>
     (\<exists>ds. map (objs b) keys = map Some ds
        \<and> assembly_adds st objs mp ok u (as_buffer a @ concat ds) a b (copy_sources st i dest u keys a b))
     \<or> (s3_up st objs mp ok (snd (copy_sources st i dest u keys a b))
        \<and> objs (snd (copy_sources st i dest u keys a b)) = objs b
        \<and> (\<exists>e. fst (copy_sources st i dest u keys a b) = Inl e))"
proof (induction keys arbitrary: a b)
  case Nil
  then show ?case using assembly_adds_keeps [of st objs mp ok b u a] by (simp add: sm_simps)
next
  case (Cons key rest)
  show ?case
  proof (cases "objs b key")
    case None
    with Cons.prems show ?thesis by (simp add: sm_bind_def s3_get_missing)
  next
    case (Some d)
    obtain rd where rd: "s3_get st i ''get source for assembly'' key b = (Inr rd, b)" "read_to_end rd = Inr d"
      using s3_get_eq [OF Cons.prems Some] by blast
    obtain r b1 where c: "copy_source st i dest u (rest \<noteq> []) rd a b = (r, b1)" by fastforce
    have adds: "assembly_adds st objs mp ok u (as_buffer a @ d) a b (r, b1)"
      using copy_source_adds [OF Cons.prems rd(2), of u a i dest "rest \<noteq> []"] c by simp
    then have up: "s3_up st objs mp ok b1" and same: "objs b1 = objs b" by (simp_all add: assembly_adds_def)
    have eq: "copy_sources st i dest u (key # rest) a b =
      (case r of Inl e \<Rightarrow> (Inl e, b1) | Inr a1 \<Rightarrow> copy_sources st i dest u rest a1 b1)"
      using rd(1) c by (simp add: sm_bind_def split: sum.split)
    show ?thesis
    proof (cases r)
      case (Inl e)
      with up same show ?thesis unfolding eq by simp
    next
      case (Inr a1)
      from Cons.IH [OF up, of a1] show ?thesis
      proof
        assume "\<exists>ds. map (objs b1) rest = map Some ds
          \<and> assembly_adds st objs mp ok u (as_buffer a1 @ concat ds) a1 b1 (copy_sources st i dest u rest a1 b1)"
        then obtain ds where ds: "map (objs b1) rest = map Some ds"
          "assembly_adds st objs mp ok u (as_buffer a1 @ concat ds) a1 b1 (copy_sources st i dest u rest a1 b1)"
          by blast
        from assembly_adds_trans [OF adds [unfolded Inr] ds(2)] ds(1) same Some
        have "map (objs b) (key # rest) = map Some (d # ds)
          \<and> assembly_adds st objs mp ok u (as_buffer a @ concat (d # ds)) a b
              (copy_sources st i dest u rest a1 b1)" by simp
        then show ?thesis unfolding eq Inr by (intro disjI1 exI [of _ "d # ds"]) simp
      next
        assume "s3_up st objs mp ok (snd (copy_sources st i dest u rest a1 b1))
          \<and> objs (snd (copy_sources st i dest u rest a1 b1)) = objs b1
          \<and> (\<exists>e. fst (copy_sources st i dest u rest a1 b1) = Inl e)"
        then show ?thesis unfolding eq Inr using same by simp
      qed
    qed
  qed
qed

text \<open>The parts of a whole assembly: all but the last are full, and the last is not longer.\<close>

lemma multipart_parts:
  assumes "s3_up st objs mp ok b" and "multipart_upload_parts st i dest u keys assembly_new b = (r, b')"
  shows "s3_up st objs mp ok b'" and "objs b' = objs b"
    and "r = Inr a \<Longrightarrow> \<exists>ds parts. map (objs b) keys = map Some ds \<and> concat parts = concat ds
      \<and> parts_hold (mp b') u a parts \<and> parts \<noteq> [] \<and> full (butlast parts)
      \<and> (length (concat ds) < 2 ^ 63 \<longrightarrow> length (last parts) \<le> unat MIN_MULTIPART_PART)"
proof -
  obtain cr b1 where c: "copy_sources st i dest u keys assembly_new b = (cr, b1)" by fastforce
  have new: "as_buffer assembly_new = []" by (simp add: assembly_new_def)
  have up1: "s3_up st objs mp ok b1" and same1: "objs b1 = objs b"
    and adds: "\<And>a1. cr = Inr a1 \<Longrightarrow> \<exists>ds. map (objs b) keys = map Some ds
      \<and> assembly_adds st objs mp ok u (concat ds) assembly_new b (Inr a1, b1)"
    using copy_sources_adds [OF assms(1), of keys u assembly_new i dest] unfolding c new
    by (auto simp: assembly_adds_def)
  have run: "multipart_upload_parts st i dest u keys assembly_new b =
    (case cr of Inl e \<Rightarrow> (Inl e, b1)
     | Inr a1 \<Rightarrow>
        if as_buffer a1 = [] \<and> as_completed a1 = [] then upload_one_part st i dest u [] a1 b1
        else if as_buffer a1 \<noteq> [] then upload_one_part st i dest u (as_buffer a1) (a1\<lparr>as_buffer := []\<rparr>) b1
        else (Inr a1, b1))"
    using c by (simp add: multipart_upload_parts_def sm_bind_def sm_return_def split: sum.split)
  have "s3_up st objs mp ok b' \<and> objs b' = objs b
    \<and> (\<forall>a. r = Inr a \<longrightarrow> (\<exists>ds parts. map (objs b) keys = map Some ds \<and> concat parts = concat ds
      \<and> parts_hold (mp b') u a parts \<and> parts \<noteq> [] \<and> full (butlast parts)
      \<and> (length (concat ds) < 2 ^ 63 \<longrightarrow> length (last parts) \<le> unat MIN_MULTIPART_PART)))"
  proof (cases cr)
    case (Inl e)
    with run assms(2) up1 same1 show ?thesis by simp
  next
    case (Inr a1)
    from adds [OF Inr] obtain ds where ds: "map (objs b) keys = map Some ds"
      and ad: "assembly_adds st objs mp ok u (concat ds) assembly_new b (Inr a1, b1)" by blast
    have "parts_hold (mp b) u assembly_new []" by simp
    from assembly_addsE [OF ad this] obtain cut where "concat ds = concat cut @ as_buffer a1"
      "full cut" "parts_hold (mp b1) u a1 ([] @ cut)"
      "length (concat ds) < 2 ^ 63 \<longrightarrow> short assembly_new \<longrightarrow> short a1"
      by blast
    then have cut: "concat ds = concat cut @ as_buffer a1" "full cut"
      "parts_hold (mp b1) u a1 cut" "length (concat ds) < 2 ^ 63 \<longrightarrow> short a1"
      by (simp_all add: new)
    have one: ?thesis
      if h: "upload_one_part st i dest u d a2 b1 = (r, b')" "parts_hold (mp b1) u a2 cut"
        "concat (cut @ [d]) = concat ds" "length (concat ds) < 2 ^ 63 \<longrightarrow> length d \<le> unat MIN_MULTIPART_PART"
      for d a2
    proof -
      note step = upload_one_part_step [OF up1 h(1)]
      have "\<exists>ds parts. map (objs b) keys = map Some ds \<and> concat parts = concat ds
        \<and> parts_hold (mp b') u a parts \<and> parts \<noteq> [] \<and> full (butlast parts)
        \<and> (length (concat ds) < 2 ^ 63 \<longrightarrow> length (last parts) \<le> unat MIN_MULTIPART_PART)" if "r = Inr a" for a
        using ds h(3,4) cut(2) step(4) [OF that h(2)]
        by (intro exI [of _ ds] exI [of _ "cut @ [d]"] conjI) simp_all
      with step(1,2) same1 show ?thesis by auto
    qed
    show ?thesis
    proof (cases "as_buffer a1 = [] \<and> as_completed a1 = []")
      case True
      then have "cut = []" using parts_hold_completed [OF cut(3)] by simp
      with True cut run assms(2) Inr show ?thesis by (intro one [of "[]" a1]) auto
    next
      case False
      show ?thesis
      proof (cases "as_buffer a1 = []")
        case True
        with False have "cut \<noteq> []" using parts_hold_completed [OF cut(3)] by simp
        moreover have "full (butlast cut)" using cut(2) by (auto dest: in_set_butlastD)
        moreover have "length (last cut) \<le> unat MIN_MULTIPART_PART" using \<open>cut \<noteq> []\<close> cut(2) by simp
        moreover have "r = Inr a1" "b' = b1" using run assms(2) Inr True False by auto
        moreover have "concat cut = concat ds" using cut(1) True by simp
        ultimately show ?thesis using ds cut(3) up1 same1 by blast
      next
        case buf: False
        with cut run assms(2) Inr show ?thesis
          by (intro one [of "as_buffer a1" "a1\<lparr>as_buffer := []\<rparr>"]) auto
      qed
    qed
  qed
  then show "s3_up st objs mp ok b'" "objs b' = objs b"
    and "r = Inr a \<Longrightarrow> \<exists>ds parts. map (objs b) keys = map Some ds \<and> concat parts = concat ds
      \<and> parts_hold (mp b') u a parts \<and> parts \<noteq> [] \<and> full (butlast parts)
      \<and> (length (concat ds) < 2 ^ 63 \<longrightarrow> length (last parts) \<le> unat MIN_MULTIPART_PART)"
    by blast+
qed

lemma s3_delete_effect:
  assumes "s3_up st objs mp ok b"
  shows "s3_up st objs mp ok (s3_delete_key st k b)" and "objs (s3_delete_key st k b) = (objs b)(k := None)"
proof -
  obtain r b' where "s3_delete_object (s3_client st) (s3_bucket st) k b = (r, b')" by fastforce
  with s3_delete_law [OF conjunct1 [OF assms] conjunct2 [OF assms] this] assms
  show "s3_up st objs mp ok (s3_delete_key st k b)" "objs (s3_delete_key st k b) = (objs b)(k := None)"
    by (simp_all add: s3_delete_key_def)
qed

lemma s3_deletes_effect:
  "s3_up st objs mp ok b \<Longrightarrow> s3_up st objs mp ok (fold (s3_delete_key st) ks b)
    \<and> objs (fold (s3_delete_key st) ks b) = (\<lambda>k. if k \<in> set ks then None else objs b k)"
proof (induction ks arbitrary: b)
  case (Cons k ks)
  note d = s3_delete_effect [OF Cons.prems, of k]
  from Cons.IH [OF d(1)] show ?case by (auto simp: d(2) fun_eq_iff)
qed simp

lemma s3_abort_effect:
  assumes "s3_up st objs mp ok b"
  shows "s3_up st objs mp ok (s3_abort st dest u b)" and "objs (s3_abort st dest u b) = objs b"
proof -
  obtain r b' where "s3_abort_multipart (s3_client st) (s3_bucket st) dest u b = (r, b')" by fastforce
  with s3_abort_law [OF conjunct1 [OF assms] conjunct2 [OF assms] this] assms
  show "s3_up st objs mp ok (s3_abort st dest u b)" "objs (s3_abort st dest u b) = objs b"
    by (simp_all add: s3_abort_def)
qed

section \<open>The contract\<close>

lemma list_all2_same_right:
  assumes "list_all2 P xs ys" and "list_all2 P xs zs" and "\<And>x y z. P x y \<Longrightarrow> P x z \<Longrightarrow> y = z"
  shows "ys = zs"
  using assms
proof (induction xs arbitrary: ys zs)
  case (Cons x xs)
  then obtain y ys' z zs' where eq: "ys = y # ys'" "zs = z # zs'" "P x y" "P x z"
    "list_all2 P xs ys'" "list_all2 P xs zs'" by (auto simp: list_all2_Cons1)
  from Cons.IH [OF eq(5,6) Cons.prems(3)] Cons.prems(3) [OF eq(3,4)] eq(1,2) show ?case by simp
qed simp

lemma multipart_assemble_effect:
  assumes "s3_up st objs mp ok b" and "multipart_assemble st i dest srcs srcs b = (r, b')"
  shows "s3_up st objs mp ok b'"
    and "objs b' k \<noteq> objs b k \<Longrightarrow> k = dest \<or> k \<in> set srcs"
    and "r = Inr u \<Longrightarrow> srcs \<noteq> [] \<Longrightarrow> dest \<notin> set srcs \<Longrightarrow> assembled_from objs dest srcs b b'"
proof -
  have "s3_up st objs mp ok b' \<and> (\<forall>k. objs b' k \<noteq> objs b k \<longrightarrow> k = dest \<or> k \<in> set srcs)
    \<and> (r = Inr () \<longrightarrow> srcs \<noteq> [] \<longrightarrow> dest \<notin> set srcs \<longrightarrow> assembled_from objs dest srcs b b')"
  proof (cases "srcs = []")
    case True
    with assms show ?thesis by (simp add: multipart_assemble_def sm_return_def)
  next
    case False
    obtain cr b1 where c: "s3_create_multipart (s3_client st) (s3_bucket st) dest b = (cr, b1)" by fastforce
    from s3_create_law [OF conjunct1 [OF assms(1)] conjunct2 [OF assms(1)] c] assms(1)
    have up1: "s3_up st objs mp ok b1" and same1: "objs b1 = objs b" by simp_all
    show ?thesis
    proof (cases "\<exists>m. cr = Inr (Some m)")
      case False
      then have "r \<noteq> Inr () \<and> b' = b1"
        using assms(2) c \<open>srcs \<noteq> []\<close>
        by (cases cr rule: sum.exhaust; cases "projr cr")
           (auto simp: multipart_assemble_def sm_bind_def s3_send_def sm_lift_def)
      with up1 same1 show ?thesis by simp
    next
      case True
      then obtain m where m: "cr = Inr (Some m)" by blast
      obtain pr b2 where p: "multipart_upload_parts st i dest m srcs assembly_new b1 = (pr, b2)" by fastforce
      note parts = multipart_parts [OF up1 p]
      note ab = s3_abort_effect [OF parts(1), of dest m]
      show ?thesis
      proof (cases pr)
        case (Inl e)
        with assms(2) c m p \<open>srcs \<noteq> []\<close> have "r = Inl e" "b' = s3_abort st dest m b2"
          by (simp_all add: multipart_assemble_def sm_bind_def s3_send_def sm_lift_def)
        with ab parts(2) same1 show ?thesis by simp
      next
        case (Inr a)
        from parts(3) [OF Inr] obtain ds ps where ds: "map (objs b1) srcs = map Some ds"
          and ps: "concat ps = concat ds" "parts_hold (mp b2) m a ps" "ps \<noteq> []" by blast
        have ne: "as_completed a \<noteq> []" using parts_hold_completed [OF ps(2)] ps(3) by simp
        obtain kr b3 where k: "s3_complete_multipart (s3_client st) (s3_bucket st) dest m (as_completed a) b2 = (kr, b3)"
          by fastforce
        note law = s3_complete_law [OF conjunct1 [OF parts(1)] conjunct2 [OF parts(1)] k]
        have up3: "s3_up st objs mp ok b3" using law parts(1) by simp
        have run: "(r, b') = (case kr of
            Inl e \<Rightarrow> (Inl (s3_err i ''complete multipart'' e), b3)
          | Inr x \<Rightarrow> (Inr (), fold (s3_delete_key st) srcs b3))"
          using assms(2) c m p Inr ne k \<open>srcs \<noteq> []\<close>
          by (cases kr) (simp_all add: multipart_assemble_def sm_bind_def s3_send_def sm_lift_def)
        show ?thesis
        proof (cases kr)
          case e: (Inl e)
          with run up3 law parts(2) same1 show ?thesis by simp
        next
          case x: (Inr x)
          with law obtain ds' where ds': "objs b3 = (objs b2)(dest \<mapsto> concat ds')"
            "list_all2 (\<lambda>cp d. mp b2 m (cp_number cp) = Some (cp_etag cp, d)) (as_completed a) ds'" by auto
          have "list_all2 (\<lambda>cp d. mp b2 m (cp_number cp) = Some (cp_etag cp, d)) (as_completed a) ps"
            using ps(2) by (simp add: parts_hold_def)
          from list_all2_same_right [OF ds'(2) this] have "ds' = ps" by simp
          with ds' ps(1) parts(2) same1 have objs3: "objs b3 = (objs b)(dest \<mapsto> concat ds)" by simp
          note del = s3_deletes_effect [OF up3, of srcs]
          have rb: "r = Inr ()" "b' = fold (s3_delete_key st) srcs b3" using run x by simp_all
          show ?thesis
            unfolding rb using del objs3 ds same1 by (auto simp: assembled_from_def)
        qed
      qed
    qed
  qed
  then show "s3_up st objs mp ok b'"
    and "objs b' k \<noteq> objs b k \<Longrightarrow> k = dest \<or> k \<in> set srcs"
    and "r = Inr u \<Longrightarrow> srcs \<noteq> [] \<Longrightarrow> dest \<notin> set srcs \<Longrightarrow> assembled_from objs dest srcs b b'"
    by auto
qed

lemma s3_put_result:
  assumes "s3_up st objs mp ok b" and "s3_put st i op k d b = (r, b')"
  shows "s3_up st objs mp ok b' \<and> put_result objs k d b r b'"
proof -
  obtain pr b1 where p: "s3_put_object (s3_client st) (s3_bucket st) k d b = (pr, b1)" by fastforce
  from s3_put_law [OF conjunct1 [OF assms(1)] conjunct2 [OF assms(1)] p] p assms show ?thesis
    by (cases pr) (auto simp: s3_put_def s3_send_def put_result_def)
qed

lemma s3_list_result:
  assumes "s3_up st objs mp ok b" and "s3_list_parts st i b = (r, b')"
  shows "b' = b \<and> (\<forall>ks. r = Inr ks \<longrightarrow>
    (\<exists>l. below_prefix objs b (part_prefix (s3_prefix st) i) l \<and> ks = sort_key key_index l))"
proof -
  have "part_prefix (s3_prefix st) i \<noteq> []" by (simp add: part_prefix_def)
  from s3_list_law [OF conjunct1 [OF assms(1)] conjunct2 [OF assms(1)] this]
  obtain lr where lr: "s3_listing (s3_client st) (s3_bucket st) (part_prefix (s3_prefix st) i) b None lr"
    "\<And>l. lr = Some l \<Longrightarrow> below_prefix objs b (part_prefix (s3_prefix st) i) l" by blast
  from s3_list_loop_ends [OF lr(1), of "[]"] obtain res where
    "s3_list_loop st i None [] b = Some res" "\<And>ks. res = Inr ks \<Longrightarrow> lr = Some ks" by auto
  with assms(2) lr(2) show ?thesis by (cases res) (auto simp: s3_list_parts_def)
qed

interpretation s3_uploads:
  object_backend "s3_prefix st" js "s3_calls js st" objs "s3_up st objs mp ok"
proof (unfold_locales, goal_cases)
  case (1 b i d)
  from s3_get_eq [OF 1] obtain rd where
    "s3_get st i ''read info'' (info_key (s3_prefix st) i) b = (Inr rd, b)" "read_to_end rd = Inr d" by blast
  then show ?case
    by (simp add: s3_calls_def s3_read_info_def sm_bind_def read_all_def sm_lift_def)
next
  case (2 b i)
  from s3_get_missing [OF 2] show ?case
    by (simp add: s3_calls_def s3_read_info_def sm_bind_def)
next
  case (3 b i x r b')
  then show ?case
    using s3_put_result [OF 3(1)]
    by (cases "to_json js x")
       (auto simp: s3_calls_def s3_write_info_def sm_bind_def sm_lift_def info_json_def)
next
  case (4 b i lres b')
  then have "s3_list_parts st i b = (lres, b')" by (simp add: s3_calls_def s3_call_defs)
  from s3_list_result [OF 4(1) this] show ?case .
next
  case (5 b i k d r b')
  then have "s3_put st i ''write part'' k d b = (r, b')" by (simp add: s3_calls_def s3_call_defs)
  from s3_put_result [OF 5(1) this] show ?case .
next
  case (6 b i k r b')
  then have "s3_put st i ''write empty final'' k [] b = (r, b')" by (simp add: s3_calls_def s3_call_defs)
  from s3_put_result [OF 6(1) this] show ?case .
next
  case (7 b i k res b')
  show ?case
  proof (cases "objs b k")
    case None
    from s3_get_missing [OF 7(1) None] 7(2) show ?thesis by (auto simp: s3_calls_def s3_call_defs)
  next
    case (Some d)
    from s3_get_eq [OF 7(1) Some] obtain rd where
      "s3_get st i ''get object download'' k b = (Inr rd, b)" "read_to_end rd = Inr d" by blast
    with 7(2) Some show ?thesis by (auto simp: s3_calls_def s3_call_defs)
  qed
next
  case (8 b i dest srcs opn r b')
  then have "multipart_assemble st i dest srcs srcs b = (r, b')" by (simp add: s3_calls_def s3_call_defs)
  from multipart_assemble_effect(1,2) [OF 8(1) this] show ?case
    by (auto simp: assembly_frame_def)
next
  case (9 b i dest srcs opn u b')
  then have "multipart_assemble st i dest srcs srcs b = (Inr u, b')" by (simp add: s3_calls_def s3_call_defs)
  from multipart_assemble_effect(3) [OF 9(1) this] 9 show ?case by simp
next
  case (10 b k)
  then show ?case using s3_delete_effect [OF 10] by (simp add: s3_calls_def s3_call_defs)
qed

end
