(* ===== verification/Object_Demo.thy ===== *)
theory Object_Demo
  imports Object_Laws File_Demo "HOL-Library.AList"
begin

text \<open>
  A bucket that can be evaluated, for the witnesses of the three object stores: an association list of
  objects, with the record of one open upload of five bytes.
\<close>

type_synonym bucket = "(string \<times> bytes) list"

definition bucket_keys :: "string \<Rightarrow> bucket \<Rightarrow> string list" where
  "bucket_keys p b = filter (prefix p) (map fst b)"

lemma bucket_keys_below:
  "distinct (map fst b) \<Longrightarrow> objs s = map_of b \<Longrightarrow> below_prefix objs s p (bucket_keys p b)"
  by (auto simp: below_prefix_def bucket_keys_def map_of_eq_None_iff)

definition demo_bucket :: bucket where
  "demo_bucket = [(''up/a.info'', projr (put_info (upload_info_new (UploadId ''a'') (Some 5))))]"

lemma demo_bucket_key:
  "map_of demo_bucket k = Some d \<longleftrightarrow>
     k = info_key ''up/'' (UploadId ''a'') \<and> d = projr (put_info (upload_info_new (UploadId ''a'') (Some 5)))"
  by (auto simp: demo_bucket_def info_key_def)

lemma demo_bucket_info:
  assumes "objs s = map_of demo_bucket"
  shows "object_info_of ''up/'' demo_codec objs s =
    (\<lambda>i. if i = UploadId ''a'' then Some (upload_info_new (UploadId ''a'') (Some 5)) else None)"
proof (rule ext)
  fix i
  have a: "valid_id (UploadId ''a'')" by code_simp
  have codec: "from_json demo_codec (projr (put_info x)) = Inr x" for x
    using demo_codec_ok by (simp add: codec_ok_def demo_codec_def put_info_def)
  have key: "info_key ''up/'' i = info_key ''up/'' (UploadId ''a'') \<longleftrightarrow> i = UploadId ''a''"
    by (simp only: key_names) simp
  show "object_info_of ''up/'' demo_codec objs s i =
    (if i = UploadId ''a'' then Some (upload_info_new (UploadId ''a'') (Some 5)) else None)"
  proof (cases "i = UploadId ''a''")
    case True
    then have "map_of demo_bucket (info_key ''up/'' i) = Some (projr (put_info (upload_info_new (UploadId ''a'') (Some 5))))"
      by (simp add: demo_bucket_key)
    with True a codec show ?thesis by (simp add: object_info_of_def assms)
  next
    case False
    then have "map_of demo_bucket (info_key ''up/'' i) = None"
      using key demo_bucket_key [of "info_key ''up/'' i"] by (cases "map_of demo_bucket (info_key ''up/'' i)") auto
    with False show ?thesis by (simp add: object_info_of_def assms)
  qed
qed

lemma demo_bucket_inv:
  assumes "objs s = map_of demo_bucket" and "svc s"
  shows "object_inv ''up/'' demo_codec objs svc s"
proof (rule object_invI)
  show "codec_ok demo_codec" by (rule demo_codec_ok)
  show "svc s" by (rule assms(2))
  show "\<exists>x. from_json demo_codec d = Inr x" if "objs s (info_key ''up/'' i) = Some d" for i d
    using that demo_codec_ok by (auto simp: assms(1) demo_bucket_key codec_ok_def demo_codec_def put_info_def)
  show "i = j" if "object_info_of ''up/'' demo_codec objs s i \<noteq> None"
    "object_info_of ''up/'' demo_codec objs s j \<noteq> None" for i j
    using that by (simp add: demo_bucket_info [of objs s, OF assms(1)] split: if_splits)
  show "\<exists>k. n = part_name i k" if h: "object_info_of ''up/'' demo_codec objs s i \<noteq> None"
    "objs s (''up/'' @ n) \<noteq> None" "like_part i n" for i n
  proof -
    have i: "i = UploadId ''a''" using h(1) by (simp add: demo_bucket_info [of objs s, OF assms(1)] split: if_splits)
    obtain d where "map_of demo_bucket (''up/'' @ n) = Some d" using h(2) assms(1) by auto
    then have "n = info_name i" unfolding i by (simp add: demo_bucket_key key_names)
    with h(3) i show ?thesis by (simp add: part_stem_def info_name_def)
  qed
qed

lemma demo_bucket_parts:
  assumes "objs s = map_of demo_bucket"
  shows "object_parts ''up/'' objs s (UploadId ''a'') []"
proof -
  have "map_of demo_bucket (part_key ''up/'' (UploadId ''a'') k) = None" for k
    using demo_bucket_key [of "part_key ''up/'' (UploadId ''a'') k"]
    by (cases "map_of demo_bucket (part_key ''up/'' (UploadId ''a'') k)") (auto simp: key_names)
  then show ?thesis by (simp add: object_parts_def assms)
qed

end
