(* ===== verification/S3_Session.thy ===== *)
theory S3_Session
  imports S3_Laws Object_Demo
begin

text \<open>
  What the S3 store guarantees on a service that keeps its contract: the listing ends, an assembly has
  the parts S3 accepts, and a download after a session of uploads streams the bodies. A small service
  that can be evaluated and is proved to keep the contract serves the witnesses.
\<close>

section \<open>A service\<close>

record s3_demo =
  sd_bucket :: bucket
  sd_parts :: "((string \<times> int) \<times> bytes) list"

definition demo_page :: "string list \<Rightarrow> nat \<Rightarrow> s3_page" where
  "demo_page ks n =
     (if n < length ks
      then \<lparr>pg_keys = [Some (ks ! n)], pg_truncated = Some (Suc n < length ks),
            pg_next = Some (replicate (Suc n) (CHR ''x''))\<rparr>
      else \<lparr>pg_keys = [], pg_truncated = None, pg_next = None\<rparr>)"

text \<open>Pages of one key; the token counts the keys that were listed.\<close>

definition sd_put :: "string \<Rightarrow> string \<Rightarrow> bytes \<Rightarrow> s3_demo \<Rightarrow> (s3_error + unit) \<times> s3_demo" where
  "sd_put bk k d b = (Inr (), b\<lparr>sd_bucket := AList.update k d (sd_bucket b)\<rparr>)"

definition sd_get :: "string \<Rightarrow> string \<Rightarrow> s3_demo \<Rightarrow> s3_error + reader" where
  "sd_get bk k b = (case map_of (sd_bucket b) k of
     Some d \<Rightarrow> Inr [Chunk d] | None \<Rightarrow> Inl (ServiceError (Some ''NoSuchKey'') []))"

definition sd_list :: "string \<Rightarrow> string \<Rightarrow> string option \<Rightarrow> s3_demo \<Rightarrow> s3_error + s3_page" where
  "sd_list bk p token b =
     Inr (demo_page (bucket_keys p (sd_bucket b)) (case token of None \<Rightarrow> 0 | Some t \<Rightarrow> length t))"

definition sd_delete :: "string \<Rightarrow> string \<Rightarrow> s3_demo \<Rightarrow> (s3_error + unit) \<times> s3_demo" where
  "sd_delete bk k b = (Inr (), b\<lparr>sd_bucket := AList.delete k (sd_bucket b)\<rparr>)"

definition sd_create :: "string \<Rightarrow> string \<Rightarrow> s3_demo \<Rightarrow> (s3_error + string option) \<times> s3_demo" where
  "sd_create bk k b = (Inr (Some ''u''), b\<lparr>sd_parts := []\<rparr>)"

definition sd_upload ::
  "string \<Rightarrow> string \<Rightarrow> string \<Rightarrow> int \<Rightarrow> bytes \<Rightarrow> s3_demo \<Rightarrow> (s3_error + string option) \<times> s3_demo" where
  "sd_upload bk k u n d b = (Inr (Some ''t''), b\<lparr>sd_parts := AList.update (u, n) d (sd_parts b)\<rparr>)"

definition sd_complete ::
  "string \<Rightarrow> string \<Rightarrow> string \<Rightarrow> completed_part list \<Rightarrow> s3_demo \<Rightarrow> (s3_error + unit) \<times> s3_demo" where
  "sd_complete bk k u cps b =
     (case those (map (\<lambda>cp. map_of (sd_parts b) (u, cp_number cp)) cps) of
        None \<Rightarrow> (Inl (ServiceError (Some ''InvalidPart'') []), b)
      | Some ds \<Rightarrow>
          if list_all (\<lambda>cp. cp_etag cp = ''t'') cps
          then (Inr (), b\<lparr>sd_bucket := AList.update k (concat ds) (sd_bucket b)\<rparr>)
          else (Inl (ServiceError (Some ''InvalidPart'') []), b))"

definition sd_abort :: "string \<Rightarrow> string \<Rightarrow> string \<Rightarrow> s3_demo \<Rightarrow> (s3_error + unit) \<times> s3_demo" where
  "sd_abort bk k u b = (Inr (), b\<lparr>sd_parts := []\<rparr>)"

lemmas sd_defs = sd_put_def sd_get_def sd_list_def sd_delete_def sd_create_def sd_upload_def
  sd_complete_def sd_abort_def

definition s3_demo_client :: "s3_demo s3_client" where
  "s3_demo_client =
     \<lparr>s3_put_object = sd_put, s3_get_object = sd_get, s3_list_objects = sd_list,
      s3_delete_object = sd_delete, s3_create_multipart = sd_create, s3_upload_part = sd_upload,
      s3_complete_multipart = sd_complete, s3_abort_multipart = sd_abort\<rparr>"

definition sd_objs :: "s3_demo \<Rightarrow> string \<Rightarrow> bytes option" where
  "sd_objs b = map_of (sd_bucket b)"

definition sd_mp :: "s3_demo \<Rightarrow> string \<Rightarrow> int \<Rightarrow> (string \<times> bytes) option" where
  "sd_mp b u n = map_option (Pair ''t'') (map_of (sd_parts b) (u, n))"

definition sd_ok :: "s3_demo \<Rightarrow> bool" where
  "sd_ok b \<longleftrightarrow> distinct (map fst (sd_bucket b))"

lemma demo_listing:
  assumes "ks = bucket_keys p (sd_bucket b)" and "[] \<notin> set ks" and "n < length ks"
    and "token = (if n = 0 then None else Some (replicate n (CHR ''x'')))"
  shows "s3_listing s3_demo_client bk p b token (Some (drop n ks))"
  using assms(3,4)
proof (induction "length ks - n" arbitrary: n token)
  case (Suc m)
  have ask: "s3_list_objects s3_demo_client bk p token b = Inr (demo_page ks n)"
    using Suc.prems by (simp add: s3_demo_client_def sd_list_def assms(1))
  have "ks ! n \<noteq> []" using assms(2) Suc.prems(1) nth_mem [of n ks] by metis
  then have keys: "page_keys (demo_page ks n) = [ks ! n]"
    using Suc.prems by (simp add: page_keys_def demo_page_def List.map_filter_simps)
  show ?case
  proof (cases "Suc n < length ks")
    case True
    let ?t = "replicate (Suc n) (CHR ''x'')"
    have "s3_listing s3_demo_client bk p b (Some ?t) (Some (drop (Suc n) ks))"
      using Suc.hyps(2) True by (intro Suc.hyps(1)) simp_all
    from s3_listing.more [OF ask _ _ _ this] True Suc.prems(1) keys show ?thesis
      by (simp add: demo_page_def Cons_nth_drop_Suc)
  next
    case False
    then have "drop n ks = [ks ! n]" using Suc.prems by (simp add: Cons_nth_drop_Suc [symmetric])
    with s3_listing.last [OF ask] False Suc.prems keys show ?thesis by (simp add: demo_page_def)
  qed
qed simp

lemma demo_listing_all:
  assumes "p \<noteq> []"
  shows "s3_listing s3_demo_client bk p b None (Some (bucket_keys p (sd_bucket b)))"
proof (cases "bucket_keys p (sd_bucket b) = []")
  case True
  have "s3_list_objects s3_demo_client bk p None b = Inr (demo_page [] 0)"
    by (simp add: s3_demo_client_def sd_list_def True)
  from s3_listing.last [OF this] True show ?thesis
    by (simp add: demo_page_def page_keys_def List.map_filter_simps)
next
  case False
  have "[] \<notin> set (bucket_keys p (sd_bucket b))" using assms by (auto simp: bucket_keys_def)
  with demo_listing [of "bucket_keys p (sd_bucket b)" p b 0 None bk] False show ?thesis by simp
qed

lemma those_all2: "those (map f xs) = Some ys \<Longrightarrow> list_all2 (\<lambda>x y. f x = Some y) xs ys"
proof (induction xs arbitrary: ys)
  case (Cons x xs)
  then show ?case by (cases "f x"; cases "those (map f xs)") auto
qed simp

lemma s3_demo_service: "s3_service s3_demo_client bk sd_objs sd_mp sd_ok"
  unfolding s3_service_def
proof (intro conjI allI impI)
  fix b and p :: string
  assume "sd_ok b" "p \<noteq> []"
  then show "\<exists>r. s3_listing s3_demo_client bk p b None r \<and> (\<forall>l. r = Some l \<longrightarrow> below_prefix sd_objs b p l)"
    using demo_listing_all [of p bk b] bucket_keys_below [of "sd_bucket b" sd_objs b p]
    by (auto simp: sd_ok_def sd_objs_def)
next
  fix b k u cps r b'
  assume ok: "sd_ok b" and c: "s3_complete_multipart s3_demo_client bk k u cps b = (r, b')"
  from ok c show "sd_ok b'"
    by (auto simp: s3_demo_client_def sd_defs sd_ok_def distinct_update split: option.splits if_splits)
  show "case r of Inl e \<Rightarrow> sd_objs b' = sd_objs b
    | Inr x \<Rightarrow> \<exists>ds. list_all2 (\<lambda>cp d. sd_mp b u (cp_number cp) = Some (cp_etag cp, d)) cps ds
        \<and> sd_objs b' = (sd_objs b)(k \<mapsto> concat ds)"
  proof (cases r)
    case (Inl e)
    with c show ?thesis by (auto simp: s3_demo_client_def sd_defs split: option.splits if_splits)
  next
    case (Inr x)
    with c obtain ds where ds: "those (map (\<lambda>cp. map_of (sd_parts b) (u, cp_number cp)) cps) = Some ds"
      "list_all (\<lambda>cp. cp_etag cp = ''t'') cps"
      "b' = b\<lparr>sd_bucket := AList.update k (concat ds) (sd_bucket b)\<rparr>"
      by (auto simp: s3_demo_client_def sd_defs split: option.splits if_splits)
    have "list_all2 (\<lambda>cp d. sd_mp b u (cp_number cp) = Some (cp_etag cp, d)) cps ds"
      using those_all2 [OF ds(1)] ds(2)
      by (auto simp: list_all2_conv_all_nth sd_mp_def list_all_length)
    with Inr ds(3) show ?thesis by (auto simp: sd_objs_def update_conv')
  qed
qed (auto simp: s3_demo_client_def sd_defs sd_ok_def sd_objs_def sd_mp_def update_conv' delete_conv' fun_eq_iff
    distinct_update distinct_delete split: option.splits)

section \<open>A server\<close>

definition s3_demo_store :: "s3_demo s3_store" where
  "s3_demo_store = \<lparr>s3_client = s3_demo_client, s3_bucket = ''bucket'', s3_prefix = ''up/''\<rparr>"

definition s3_server :: "(s3_demo, held_set) tus_handler" where
  "s3_server = tus_handler_new (s3_ops demo_codec s3_demo_store) (Some memory_locker_ops) demo_config"

definition s3_world :: "(s3_demo, held_set) world" where
  "s3_world =
     \<lparr>w_store = \<lparr>sd_bucket = demo_bucket, sd_parts = []\<rparr>, w_lock = {}, w_events = []\<rparr>"

lemma s3_demo_sel [simp]:
  "s3_client s3_demo_store = s3_demo_client" "s3_bucket s3_demo_store = ''bucket''"
  "s3_prefix s3_demo_store = ''up/''"
  by (simp_all add: s3_demo_store_def)

lemma s3_world_up: "s3_up s3_demo_store sd_objs sd_mp sd_ok (w_store s3_world)"
  using s3_demo_service by (simp add: s3_world_def sd_ok_def demo_bucket_def)

lemma s3_world_objs: "sd_objs (w_store s3_world) = map_of demo_bucket"
  by (simp add: sd_objs_def s3_world_def)

lemma length_concat_bound: "\<forall>d \<in> set ds. length d \<le> n \<Longrightarrow> length (concat ds) \<le> length ds * n"
  by (induction ds) auto

section \<open>Properties\<close>

text \<open>
  C21. The listing of an upload's parts on S3 ends, however many pages the service cuts it into and
  whatever continuation tokens it hands out, and unless a request fails it names every object whose
  key starts with the part prefix, once.
\<close>

theorem s3_listing_terminates:
  assumes "s3_service (s3_client st) (s3_bucket st) objs mp ok" and "ok b"
  shows "\<exists>res. s3_list_loop st i None [] b = Some res
    \<and> (\<forall>ks. res = Inr ks \<longrightarrow> below_prefix objs b (part_prefix (s3_prefix st) i) ks)"
proof -
  have "part_prefix (s3_prefix st) i \<noteq> []" by (simp add: part_prefix_def)
  from s3_list_law [OF assms this] obtain r where
    "s3_listing (s3_client st) (s3_bucket st) (part_prefix (s3_prefix st) i) b None r"
    "\<And>l. r = Some l \<Longrightarrow> below_prefix objs b (part_prefix (s3_prefix st) i) l" by blast
  with s3_list_loop_ends [OF this(1), of "[]"] show ?thesis by auto
qed

theorem s3_listing_terminates_witness:
  "s3_list_loop s3_demo_store (UploadId ''a'') None []
     \<lparr>sd_bucket = [(''up/a_part_1'', ''d''), (''up/a'', ''x''), (''up/a_part_0'', ''abc'')], sd_parts = []\<rparr>
   = Some (Inr [''up/a_part_1'', ''up/a_part_0''])"
proof -
  let ?b = "\<lparr>sd_bucket = [(''up/a_part_1'', ''d''), (''up/a'', ''x''), (''up/a_part_0'', ''abc'')], sd_parts = []\<rparr>"
  have "sd_ok ?b" by code_simp
  with s3_listing_terminates [of s3_demo_store sd_objs sd_mp sd_ok ?b "UploadId ''a''"] s3_demo_service
  obtain res where "s3_list_loop s3_demo_store (UploadId ''a'') None [] ?b = Some res"
    by auto
  moreover have "s3_list_loop s3_demo_store (UploadId ''a'') None [] ?b
    = Some (Inr [''up/a_part_1'', ''up/a_part_0''])"
    by code_simp
  ultimately show ?thesis by simp
qed

text \<open>
  C20. The parts of an S3 assembly. When copying the sources into a multipart upload succeeds, every
  source was there; the completed parts are at most 10000, hold the sources one after another, and
  each but the last is exactly 5 MiB, as S3 demands; the last is no longer. So no more than 10000
  times 5 MiB can be assembled.
\<close>

theorem s3_parts_sized:
  assumes "s3_service (s3_client st) (s3_bucket st) objs mp ok" and "ok b"
    and "multipart_upload_parts st i dest u keys assembly_new b = (Inr a, b')"
  shows "\<exists>ds parts. map (objs b) keys = map Some ds \<and> concat parts = concat ds
    \<and> list_all2 (\<lambda>cp d. mp b' u (cp_number cp) = Some (cp_etag cp, d)) (as_completed a) parts
    \<and> 0 < length parts \<and> length parts \<le> 10000
    \<and> (\<forall>d \<in> set (butlast parts). length d = 5 * 1024 * 1024)
    \<and> (length (concat ds) < 2 ^ 63 \<longrightarrow>
         length (last parts) \<le> 5 * 1024 * 1024 \<and> length (concat ds) \<le> 10000 * (5 * 1024 * 1024))"
proof -
  have min: "unat MIN_MULTIPART_PART = 5 * 1024 * 1024" by (simp add: MIN_MULTIPART_PART_def)
  from multipart_parts(3) [of st objs mp ok b, OF _ assms(3) refl] assms(1,2)
  obtain ds parts where p: "map (objs b) keys = map Some ds" "concat parts = concat ds"
    "parts_hold (mp b') u a parts" "parts \<noteq> []" "full (butlast parts)"
    "length (concat ds) < 2 ^ 63 \<longrightarrow> length (last parts) \<le> unat MIN_MULTIPART_PART" by blast
  have n: "length parts \<le> 10000" using p(3) by (simp add: parts_hold_def MAX_MULTIPART_PARTS_def)
  have "length (concat ds) \<le> 10000 * (5 * 1024 * 1024)" if "length (concat ds) < 2 ^ 63"
  proof -
    have last: "length (last parts) \<le> unat MIN_MULTIPART_PART" using p(6) that by blast
    have "set parts = insert (last parts) (set (butlast parts))"
      using p(4) by (cases parts rule: rev_cases) auto
    with p(5) last have "\<forall>d \<in> set parts. length d \<le> unat MIN_MULTIPART_PART" by simp
    from length_concat_bound [OF this] have "length (concat ds) \<le> length parts * unat MIN_MULTIPART_PART"
      unfolding p(2) .
    also have "\<dots> \<le> 10000 * unat MIN_MULTIPART_PART" by (rule mult_le_mono1 [OF n])
    finally show ?thesis unfolding min .
  qed
  with p n show ?thesis
    unfolding min parts_hold_def by (intro exI [of _ ds] exI [of _ parts] conjI) blast+
qed

theorem s3_parts_sized_witness:
  "\<exists>a b'. multipart_upload_parts s3_demo_store (UploadId ''a'') ''up/a'' ''u'' [''up/x'', ''up/y''] assembly_new
       \<lparr>sd_bucket = [(''up/x'', ''ab''), (''up/y'', ''c'')], sd_parts = []\<rparr> = (Inr a, b')
     \<and> length (as_completed a) \<le> 10000"
proof -
  let ?b = "\<lparr>sd_bucket = [(''up/x'', ''ab''), (''up/y'', ''c'')], sd_parts = []\<rparr>"
  define res where "res = multipart_upload_parts s3_demo_store (UploadId ''a'') ''up/a'' ''u''
    [''up/x'', ''up/y''] assembly_new ?b"
  have "sd_ok ?b" by code_simp
  moreover have "\<not> isl (fst res)" unfolding res_def by code_simp
  then obtain a b' where res: "res = (Inr a, b')" by (cases res; cases "fst res") auto
  ultimately have "length (as_completed a) \<le> 10000"
    using s3_parts_sized [of s3_demo_store sd_objs sd_mp sd_ok ?b "UploadId ''a''" "''up/a''" "''u''"
        "[''up/x'', ''up/y'']" a b'] s3_demo_service [of "''bucket''"]
    by (auto simp: res_def dest: list_all2_lengthD)
  with res show ?thesis unfolding res_def by blast
qed

text \<open>
  C17. A download from a server on S3 after any session of PATCH requests with bytes, each answered
  204, on an upload that had received nothing: a GET answered 200 streams the bodies of those
  requests, all of them, in order. The service keeps its documented contract, every record in the
  bucket can be read, and no stored identifier followed by \<open>_part_\<close> begins another one
  (\<open>object_inv\<close>).
\<close>

theorem s3_downloads_deliver:
  assumes "s3_service (s3_client st) (s3_bucket st) objs mp ok"
    and "h_store h = s3_ops js st" and "object_inv (s3_prefix st) js objs ok (w_store w)"
    and "object_info_of (s3_prefix st) js objs (w_store w) i = Some y" and "\<not> is_complete y"
    and "object_parts (s3_prefix st) objs (w_store w) i []"
    and "list_all (chunk_request i) rs" and "length rs < 2 ^ 32"
    and "handle_all x h rs w = (resps, w')" and "list_all (\<lambda>r. resp_status r = 204) resps"
    and "req_method req = GET" and "request_id req = Inr i"
    and "handle x h e req w' = (resp, w'')" and "resp_status resp = 200"
  shows "\<exists>rd. resp_body resp = Body_Reader rd
    \<and> read_to_end rd = Inr (concat (map (body_bytes \<circ> snd) rs))"
proof -
  have "object_inv (s3_prefix st) js objs (s3_up st objs mp ok) (w_store w)"
    using assms(1,3) by (auto simp: object_inv_def)
  from s3_uploads.session_download [OF assms(2) [unfolded s3_ops_eq] this assms(4-14)]
  show ?thesis .
qed

theorem s3_downloads_deliver_witness:
  "\<exists>rd. resp_body (fst (handle demo_externals s3_server (fst (demo_plain GET ''a'')) (snd (demo_plain GET ''a''))
          (snd (handle_all demo_externals s3_server
             [demo_patch ''a'' ''0'' ''abc'', demo_patch ''a'' ''3'' ''de''] s3_world))))
        = Body_Reader rd \<and> read_to_end rd = Inr ''abcde''"
proof -
  define w where "w = s3_world"
  define rs where "rs = [demo_patch ''a'' ''0'' ''abc'', demo_patch ''a'' ''3'' ''de'']"
  define res where "res = handle_all demo_externals s3_server rs w"
  define out where "out = handle demo_externals s3_server (fst (demo_plain GET ''a''))
    (snd (demo_plain GET ''a'')) (snd res)"
  have objs: "sd_objs (w_store w) = map_of demo_bucket" unfolding w_def by (rule s3_world_objs)
  have ok: "sd_ok (w_store w)" using s3_world_up by (simp add: w_def)
  have bodies: "concat (map (body_bytes \<circ> snd) rs) = ''abcde''" unfolding rs_def by code_simp
  have "\<exists>rd. resp_body (fst out) = Body_Reader rd
      \<and> read_to_end rd = Inr (concat (map (body_bytes \<circ> snd) rs))"
  proof (rule s3_downloads_deliver)
    show "s3_service (s3_client s3_demo_store) (s3_bucket s3_demo_store) sd_objs sd_mp sd_ok"
      by (simp add: s3_demo_service)
    show "h_store s3_server = s3_ops demo_codec s3_demo_store"
      by (simp add: s3_server_def tus_handler_new_def)
    show "object_inv (s3_prefix s3_demo_store) demo_codec sd_objs sd_ok (w_store w)"
      using demo_bucket_inv [of sd_objs "w_store w" sd_ok, OF objs ok] by simp
    show "object_info_of (s3_prefix s3_demo_store) demo_codec sd_objs (w_store w) (UploadId ''a'')
        = Some (upload_info_new (UploadId ''a'') (Some 5))"
      using demo_bucket_info [of sd_objs "w_store w", OF objs] by simp
    show "\<not> is_complete (upload_info_new (UploadId ''a'') (Some 5))" by code_simp
    show "object_parts (s3_prefix s3_demo_store) sd_objs (w_store w) (UploadId ''a'') []"
      using demo_bucket_parts [of sd_objs "w_store w", OF objs] by simp
    show "list_all (chunk_request (UploadId ''a'')) rs" "length rs < 2 ^ 32"
      unfolding rs_def by code_simp+
    show "handle_all demo_externals s3_server rs w = (fst res, snd res)" by (simp add: res_def)
    show "list_all (\<lambda>r. resp_status r = 204) (fst res)"
      unfolding res_def rs_def w_def by code_simp
    show "resp_status (fst out) = 200"
      unfolding out_def res_def rs_def w_def by code_simp
    show "req_method (snd (demo_plain GET ''a'')) = GET"
      "request_id (snd (demo_plain GET ''a'')) = Inr (UploadId ''a'')" by code_simp+
    show "handle demo_externals s3_server (fst (demo_plain GET ''a'')) (snd (demo_plain GET ''a'')) (snd res)
        = (fst out, snd out)" by (simp add: out_def)
  qed
  then have "\<exists>rd. resp_body (fst out) = Body_Reader rd \<and> read_to_end rd = Inr ''abcde''"
    by (simp only: bodies)
  then show ?thesis by (simp only: out_def res_def rs_def w_def)
qed

end
