(* ===== verification/GCS_Store.thy ===== *)
theory GCS_Store
  imports Object_Store
begin

text \<open>
  \<open>fileloft-store-gcs/src/store.rs\<close> and \<open>error.rs\<close>. The two clients of the Google SDK, data plane and
  control plane, are third-party code: records of the requests the store sends, each on the state
  \<open>'b\<close> of the service. Objects are composed by the service, at most 32 at a time.
\<close>

section \<open>The clients\<close>

text \<open>An SDK error: the HTTP status and the gRPC code it may carry, and its text.\<close>

record gcs_error =
  ge_http :: "nat option"
  ge_code :: "int option"
  ge_text :: string

record gcs_page =
  gp_objects :: "string list"
  gp_next_token :: string

record 'b gcs_storage =
  gcs_write_object :: "string \<Rightarrow> string \<Rightarrow> bytes \<Rightarrow> 'b \<Rightarrow> (gcs_error + unit) \<times> 'b"
  gcs_read_object :: "string \<Rightarrow> string \<Rightarrow> 'b \<Rightarrow> gcs_error + (gcs_error + bytes) list"

record 'b gcs_control =
  gcs_list_objects :: "string \<Rightarrow> string \<Rightarrow> string option \<Rightarrow> 'b \<Rightarrow> gcs_error + gcs_page"
  gcs_compose_object :: "string \<Rightarrow> string \<Rightarrow> string list \<Rightarrow> bool \<Rightarrow> 'b \<Rightarrow> (gcs_error + unit) \<times> 'b"
  gcs_delete_object :: "string \<Rightarrow> string \<Rightarrow> 'b \<Rightarrow> (gcs_error + unit) \<times> 'b"

definition gcs_is_not_found :: "gcs_error \<Rightarrow> bool" where
  "gcs_is_not_found e \<longleftrightarrow>
     (if ge_http e = Some 404 then True
      else case ge_code e of Some c \<Rightarrow> c = 5 | None \<Rightarrow> False)"

definition gcs_err :: "upload_id \<Rightarrow> string \<Rightarrow> gcs_error \<Rightarrow> tus_error" where
  "gcs_err i op e =
     (if gcs_is_not_found e then NotFound (as_str i)
      else Internal (''GCS '' @ op @ '': '' @ ge_text e))"

definition gcs_send :: "upload_id \<Rightarrow> string \<Rightarrow> ('b \<Rightarrow> (gcs_error + 'a) \<times> 'b) \<Rightarrow> ('b, 'a) op" where
  "gcs_send i op m b = (case m b of (r, b') \<Rightarrow> (map_sum (gcs_err i op) id r, b'))"

section \<open>The store and its builder\<close>

record 'b gcs_store =
  gs_storage :: "'b gcs_storage"
  gs_control :: "'b gcs_control"
  gs_bucket :: string
  gs_prefix :: string

datatype gcs_store_error = GCS_BucketEmpty | GCS_ClientInit string

record 'b gcs_builder =
  gb_bucket :: string
  gb_prefix :: string
  gb_storage :: "'b gcs_storage option"
  gb_control :: "'b gcs_control option"

definition gcs_store_builder :: "string \<Rightarrow> 'b gcs_builder" where
  "gcs_store_builder bucket =
     \<lparr>gb_bucket = bucket, gb_prefix = [], gb_storage = None, gb_control = None\<rparr>"

definition gcs_builder_prefix :: "string \<Rightarrow> 'b gcs_builder \<Rightarrow> 'b gcs_builder" where
  "gcs_builder_prefix p b = b\<lparr>gb_prefix := p\<rparr>"

definition gcs_builder_with_storage :: "'b gcs_storage \<Rightarrow> 'b gcs_builder \<Rightarrow> 'b gcs_builder" where
  "gcs_builder_with_storage s b = b\<lparr>gb_storage := Some s\<rparr>"

definition gcs_builder_with_control :: "'b gcs_control \<Rightarrow> 'b gcs_builder \<Rightarrow> 'b gcs_builder" where
  "gcs_builder_with_control c b = b\<lparr>gb_control := Some c\<rparr>"

text \<open>\<open>build\<close>; making the SDK's own clients is third-party code and may fail.\<close>

definition gcs_build ::
  "(string + 'b gcs_storage) \<Rightarrow> (string + 'b gcs_control) \<Rightarrow> 'b gcs_builder
     \<Rightarrow> gcs_store_error + 'b gcs_store" where
  "gcs_build new_storage new_control b =
     (if gb_bucket b = [] then Inl GCS_BucketEmpty
      else
        res_bind (case gb_storage b of
                    Some s \<Rightarrow> Inr s | None \<Rightarrow> map_sum GCS_ClientInit id new_storage) (\<lambda>storage.
        res_bind (case gb_control b of
                    Some c \<Rightarrow> Inr c | None \<Rightarrow> map_sum GCS_ClientInit id new_control) (\<lambda>control.
        Inr \<lparr>gs_storage = storage, gs_control = control,
             gs_bucket = ''projects/_/buckets/'' @ gb_bucket b,
             gs_prefix = normal_prefix (gb_prefix b)\<rparr>)))"

section \<open>Records\<close>

definition gcs_put :: "'b gcs_store \<Rightarrow> upload_id \<Rightarrow> string \<Rightarrow> string \<Rightarrow> bytes \<Rightarrow> ('b, unit) op" where
  "gcs_put st i op key d = gcs_send i op (gcs_write_object (gs_storage st) (gs_bucket st) key d)"

text \<open>\<open>while let Some(chunk) = resp.next().await\<close>: the chunks until the end or the first error.\<close>

fun gcs_collect :: "string \<Rightarrow> (gcs_error + bytes) list \<Rightarrow> tus_error + bytes" where
  "gcs_collect op [] = Inr []"
| "gcs_collect op (Inl e # r) = Inl (Internal (''GCS '' @ op @ '': '' @ ge_text e))"
| "gcs_collect op (Inr chunk # r) = res_bind (gcs_collect op r) (\<lambda>rest. Inr (chunk @ rest))"

definition gcs_read ::
  "'b gcs_store \<Rightarrow> upload_id \<Rightarrow> string \<Rightarrow> string \<Rightarrow> string \<Rightarrow> ('b, bytes) op" where
  "gcs_read st i op chunk_op key b =
     (case gcs_read_object (gs_storage st) (gs_bucket st) key b of
        Inl e \<Rightarrow> (Inl (gcs_err i op e), b)
      | Inr resp \<Rightarrow> (gcs_collect chunk_op resp, b))"

definition gcs_write_info :: "json_codec \<Rightarrow> 'b gcs_store \<Rightarrow> upload_id \<Rightarrow> upload_info \<Rightarrow> ('b, unit) op"
where
  "gcs_write_info js st i info =
     sm_bind (sm_lift (info_json js info)) (\<lambda>json.
     gcs_put st i ''write info'' (info_key (gs_prefix st) i) json)"

definition gcs_read_info :: "json_codec \<Rightarrow> 'b gcs_store \<Rightarrow> upload_id \<Rightarrow> ('b, upload_info) op" where
  "gcs_read_info js st i =
     sm_bind (gcs_read st i ''read info'' ''read chunk'' (info_key (gs_prefix st) i)) (\<lambda>buf.
     sm_lift (json_info js buf))"

section \<open>Listing\<close>

text \<open>
  The loop over the pages: \<open>page_token\<close> is empty before the first page and after the last; \<open>None\<close> is a
  loop that never ends.
\<close>

partial_function (option) gcs_list_loop ::
  "'b gcs_store \<Rightarrow> upload_id \<Rightarrow> string \<Rightarrow> string list \<Rightarrow> 'b \<Rightarrow> (tus_error + string list) option" where
  "gcs_list_loop st i page_token names b =
     (case gcs_list_objects (gs_control st) (gs_bucket st) (part_prefix (gs_prefix st) i)
             (if page_token \<noteq> [] then Some page_token else None) b of
        Inl e \<Rightarrow> Some (Inl (gcs_err i ''list parts'' e))
      | Inr page \<Rightarrow>
          (let names' = names @ filter (\<lambda>n. n \<noteq> []) (gp_objects page)
           in if gp_next_token page = [] then Some (Inr names')
              else gcs_list_loop st i (gp_next_token page) names' b))"

declare gcs_list_loop.simps [code]

definition gcs_list_parts :: "'b gcs_store \<Rightarrow> upload_id \<Rightarrow> ('b, string list) op" where
  "gcs_list_parts st i b =
     (map_sum id (sort_key key_index) (the (gcs_list_loop st i [] [] b)), b)"

section \<open>Composing\<close>

definition MAX_COMPOSE_SOURCES :: nat where "MAX_COMPOSE_SOURCES = 32"

definition compose_chunk ::
  "'b gcs_store \<Rightarrow> upload_id \<Rightarrow> string \<Rightarrow> string list \<Rightarrow> ('b, unit) op" where
  "compose_chunk st i dest_key source_keys =
     (if source_keys = [] then sm_return ()
      else gcs_send i ''compose''
             (gcs_compose_object (gs_control st) (gs_bucket st) dest_key source_keys True))"

definition tmp_key :: "string \<Rightarrow> upload_id \<Rightarrow> nat \<Rightarrow> string" where
  "tmp_key pre i k = pre @ as_str i @ ''_tmp_'' @ dec k"

text \<open>At most 32 sources at once; otherwise group by group into intermediate objects, and those once.\<close>

definition compose_all ::
  "'b gcs_store \<Rightarrow> upload_id \<Rightarrow> string \<Rightarrow> string list \<Rightarrow> ('b, unit) op" where
  "compose_all st i dest_key source_keys =
     (if length source_keys \<le> MAX_COMPOSE_SOURCES then compose_chunk st i dest_key source_keys
      else
        sm_bind (sm_map (\<lambda>(k, chunk).
            sm_bind (compose_chunk st i (tmp_key (gs_prefix st) i k) chunk) (\<lambda>_.
            sm_return (tmp_key (gs_prefix st) i k)))
          (List.enumerate 0 (chunks MAX_COMPOSE_SOURCES source_keys)))
          (compose_chunk st i dest_key))"

definition gcs_delete_key :: "'b gcs_store \<Rightarrow> string \<Rightarrow> 'b \<Rightarrow> 'b" where
  "gcs_delete_key st key b = snd (gcs_delete_object (gs_control st) (gs_bucket st) key b)"

section \<open>The operations\<close>

definition gcs_put_part :: "'b gcs_store \<Rightarrow> upload_id \<Rightarrow> string \<Rightarrow> bytes \<Rightarrow> ('b, unit) op" where
  "gcs_put_part st i key d = gcs_put st i ''write part'' key d"

text \<open>The empty object of an upload without parts, whose errors are worded without \<open>gcs_err\<close>.\<close>

definition gcs_put_empty :: "'b gcs_store \<Rightarrow> upload_id \<Rightarrow> string \<Rightarrow> ('b, unit) op" where
  "gcs_put_empty st i key b =
     (case gcs_write_object (gs_storage st) (gs_bucket st) key [] b of
        (r, b') \<Rightarrow> (map_sum (\<lambda>e. Internal (''GCS write empty final: '' @ ge_text e)) id r, b'))"

definition gcs_download :: "'b gcs_store \<Rightarrow> upload_id \<Rightarrow> string \<Rightarrow> ('b, reader) op" where
  "gcs_download st i key =
     sm_bind (gcs_read st i ''read download'' ''read download'' key) (\<lambda>buf. sm_return [Chunk buf])"

definition gcs_assemble ::
  "'b gcs_store \<Rightarrow> upload_id \<Rightarrow> string \<Rightarrow> string list \<Rightarrow> string \<Rightarrow> ('b, unit) op" where
  "gcs_assemble st i dest sources op = compose_all st i dest sources"

lemmas gcs_call_defs = gcs_put_part_def gcs_put_empty_def gcs_download_def gcs_assemble_def

definition gcs_calls :: "json_codec \<Rightarrow> 'b gcs_store \<Rightarrow> 'b object_calls" where
  "gcs_calls js st =
     \<lparr>oc_read_info = gcs_read_info js st, oc_write_info = gcs_write_info js st,
      oc_list_parts = gcs_list_parts st, oc_put_part = gcs_put_part st,
      oc_put_empty = gcs_put_empty st, oc_get_data = gcs_download st,
      oc_assemble = gcs_assemble st, oc_delete = gcs_delete_key st\<rparr>"

definition gcs_create_upload :: "json_codec \<Rightarrow> 'b gcs_store \<Rightarrow> upload_info \<Rightarrow> ('b, upload_id) op" where
  "gcs_create_upload js st = object_create_upload (gcs_calls js st)"

definition gcs_get_upload :: "json_codec \<Rightarrow> 'b gcs_store \<Rightarrow> upload_id \<Rightarrow> ('b, upload_id) op" where
  "gcs_get_upload js st = object_get_upload (gcs_calls js st)"

definition gcs_write_chunk ::
  "json_codec \<Rightarrow> 'b gcs_store \<Rightarrow> upload_id \<Rightarrow> u64 \<Rightarrow> reader \<Rightarrow> ('b, u64) op" where
  "gcs_write_chunk js st = object_write_chunk (gs_prefix st) (gcs_calls js st)"

definition gcs_read_content :: "json_codec \<Rightarrow> 'b gcs_store \<Rightarrow> upload_id \<Rightarrow> ('b, reader) op" where
  "gcs_read_content js st = object_read_content (gs_prefix st) (gcs_calls js st)"

definition gcs_finalize :: "json_codec \<Rightarrow> 'b gcs_store \<Rightarrow> upload_id \<Rightarrow> ('b, unit) op" where
  "gcs_finalize js st = object_finalize (gs_prefix st) (gcs_calls js st)"

definition gcs_delete :: "json_codec \<Rightarrow> 'b gcs_store \<Rightarrow> upload_id \<Rightarrow> ('b, unit) op" where
  "gcs_delete js st = object_delete (gs_prefix st) (gcs_calls js st)"

definition gcs_declare_length :: "json_codec \<Rightarrow> 'b gcs_store \<Rightarrow> upload_id \<Rightarrow> u64 \<Rightarrow> ('b, unit) op" where
  "gcs_declare_length js st = object_declare_length (gcs_calls js st)"

definition gcs_concatenate ::
  "json_codec \<Rightarrow> 'b gcs_store \<Rightarrow> upload_id \<Rightarrow> upload_info list \<Rightarrow> ('b, unit) op" where
  "gcs_concatenate js st = object_concatenate (gs_prefix st) (gcs_calls js st)"

definition gcs_ops :: "json_codec \<Rightarrow> 'b gcs_store \<Rightarrow> 'b datastore" where
  "gcs_ops js st =
     \<lparr>ds_create_upload = gcs_create_upload js st, ds_get_upload = gcs_get_upload js st,
      up_write_chunk = gcs_write_chunk js st, up_get_info = gcs_read_info js st,
      up_finalize = gcs_finalize js st, up_delete = gcs_delete js st,
      up_declare_length = gcs_declare_length js st, up_concatenate = gcs_concatenate js st,
      up_read_content = gcs_read_content js st\<rparr>"

lemma gcs_ops_eq: "gcs_ops js st = object_ops (gs_prefix st) (gcs_calls js st)"
  by (simp add: gcs_ops_def object_ops_def gcs_create_upload_def gcs_get_upload_def
      gcs_write_chunk_def gcs_finalize_def gcs_delete_def gcs_declare_length_def
      gcs_concatenate_def gcs_read_content_def gcs_calls_def)

end
