(* ===== verification/GCS_Laws.thy ===== *)
theory GCS_Laws
  imports GCS_Store Object_Laws
begin

text \<open>
  The Google Cloud Storage store on a service that behaves as documented: its listing comes in a
  finite number of pages, and composing at most 32 objects makes one of them and, as asked, deletes
  them. From this the listing loop ends and the store meets the contract \<open>object_backend\<close>. The service
  takes no more than 32 sources, so the one more round of composition makes 1024 parts the most an
  upload can have.
\<close>

section \<open>The service\<close>

inductive gcs_listing ::
  "'b gcs_control \<Rightarrow> string \<Rightarrow> string \<Rightarrow> 'b \<Rightarrow> string \<Rightarrow> string list option \<Rightarrow> bool"
  for ctl bk p b where
    failed: "gcs_list_objects ctl bk p (if token \<noteq> [] then Some token else None) b = Inl e \<Longrightarrow>
      gcs_listing ctl bk p b token None"
  | last: "gcs_list_objects ctl bk p (if token \<noteq> [] then Some token else None) b = Inr page \<Longrightarrow>
      gp_next_token page = [] \<Longrightarrow>
      gcs_listing ctl bk p b token (Some (filter (\<lambda>n. n \<noteq> []) (gp_objects page)))"
  | more: "gcs_list_objects ctl bk p (if token \<noteq> [] then Some token else None) b = Inr page \<Longrightarrow>
      gp_next_token page \<noteq> [] \<Longrightarrow> gcs_listing ctl bk p b (gp_next_token page) r \<Longrightarrow>
      gcs_listing ctl bk p b token
        (map_option (append (filter (\<lambda>n. n \<noteq> []) (gp_objects page))) r)"

definition gcs_service ::
  "'b gcs_storage \<Rightarrow> 'b gcs_control \<Rightarrow> string \<Rightarrow> ('b \<Rightarrow> string \<Rightarrow> bytes option) \<Rightarrow> ('b \<Rightarrow> bool) \<Rightarrow> bool" where
  "gcs_service sto ctl bk objs ok \<longleftrightarrow>
     (\<forall>b k d r b'. ok b \<longrightarrow> gcs_write_object sto bk k d b = (r, b') \<longrightarrow>
        ok b' \<and> objs b' = (case r of Inr u \<Rightarrow> (objs b)(k \<mapsto> d) | Inl e \<Rightarrow> objs b))
     \<and> (\<forall>b k. ok b \<longrightarrow>
          (case objs b k of
             Some d \<Rightarrow> (\<exists>cs. gcs_read_object sto bk k b = Inr (map Inr cs) \<and> concat cs = d)
           | None \<Rightarrow> (\<exists>e. gcs_read_object sto bk k b = Inl e \<and> gcs_is_not_found e)))
     \<and> (\<forall>b p. ok b \<longrightarrow> p \<noteq> [] \<longrightarrow>
          (\<exists>r. gcs_listing ctl bk p b [] r \<and> (\<forall>l. r = Some l \<longrightarrow> below_prefix objs b p l)))
     \<and> (\<forall>b k r b'. ok b \<longrightarrow> gcs_delete_object ctl bk k b = (r, b') \<longrightarrow>
          ok b' \<and> objs b' = (objs b)(k := None))
     \<and> (\<forall>b k srcs r b'. ok b \<longrightarrow> gcs_compose_object ctl bk k srcs True b = (r, b') \<longrightarrow>
          ok b'
          \<and> (case r of
               Inl e \<Rightarrow> objs b' = objs b
             | Inr u \<Rightarrow> length srcs \<le> 32
                 \<and> (\<exists>ds. map (objs b) srcs = map Some ds
                      \<and> objs b' = (\<lambda>n. if n = k then Some (concat ds)
                                       else if n \<in> set srcs then None else objs b n))))"

lemma gcs_serviceD:
  assumes "gcs_service sto ctl bk objs ok" and "ok b"
  shows gcs_put_law: "gcs_write_object sto bk k d b = (r, b') \<Longrightarrow>
      ok b' \<and> objs b' = (case r of Inr u \<Rightarrow> (objs b)(k \<mapsto> d) | Inl e \<Rightarrow> objs b)"
    and gcs_get_some: "objs b k = Some d \<Longrightarrow> \<exists>cs. gcs_read_object sto bk k b = Inr (map Inr cs) \<and> concat cs = d"
    and gcs_get_none: "objs b k = None \<Longrightarrow> \<exists>e. gcs_read_object sto bk k b = Inl e \<and> gcs_is_not_found e"
    and gcs_list_law: "p \<noteq> [] \<Longrightarrow>
      \<exists>r. gcs_listing ctl bk p b [] r \<and> (\<forall>l. r = Some l \<longrightarrow> below_prefix objs b p l)"
    and gcs_delete_law: "gcs_delete_object ctl bk k b = (r, b') \<Longrightarrow> ok b' \<and> objs b' = (objs b)(k := None)"
    and gcs_compose_law: "gcs_compose_object ctl bk k srcs True b = (r, b') \<Longrightarrow>
      ok b' \<and> (case r of
               Inl e \<Rightarrow> objs b' = objs b
             | Inr u \<Rightarrow> length srcs \<le> 32
                 \<and> (\<exists>ds. map (objs b) srcs = map Some ds
                      \<and> objs b' = (\<lambda>n. if n = k then Some (concat ds)
                                       else if n \<in> set srcs then None else objs b n)))"
proof -
  note L = assms(1) [unfolded gcs_service_def]
  show "gcs_write_object sto bk k d b = (r, b') \<Longrightarrow>
      ok b' \<and> objs b' = (case r of Inr u \<Rightarrow> (objs b)(k \<mapsto> d) | Inl e \<Rightarrow> objs b)"
    using L [THEN conjunct1] assms(2) by blast
  have "case objs b k of
             Some d \<Rightarrow> (\<exists>cs. gcs_read_object sto bk k b = Inr (map Inr cs) \<and> concat cs = d)
           | None \<Rightarrow> (\<exists>e. gcs_read_object sto bk k b = Inl e \<and> gcs_is_not_found e)"
    using L [THEN conjunct2, THEN conjunct1] assms(2) by blast
  then show "objs b k = Some d \<Longrightarrow> \<exists>cs. gcs_read_object sto bk k b = Inr (map Inr cs) \<and> concat cs = d"
    and "objs b k = None \<Longrightarrow> \<exists>e. gcs_read_object sto bk k b = Inl e \<and> gcs_is_not_found e"
    by simp_all
  show "p \<noteq> [] \<Longrightarrow> \<exists>r. gcs_listing ctl bk p b [] r \<and> (\<forall>l. r = Some l \<longrightarrow> below_prefix objs b p l)"
    using L [THEN conjunct2, THEN conjunct2, THEN conjunct1] assms(2) by blast
  show "gcs_delete_object ctl bk k b = (r, b') \<Longrightarrow> ok b' \<and> objs b' = (objs b)(k := None)"
    using L [THEN conjunct2, THEN conjunct2, THEN conjunct2, THEN conjunct1] assms(2) by blast
  show "gcs_compose_object ctl bk k srcs True b = (r, b') \<Longrightarrow>
      ok b' \<and> (case r of
               Inl e \<Rightarrow> objs b' = objs b
             | Inr u \<Rightarrow> length srcs \<le> 32
                 \<and> (\<exists>ds. map (objs b) srcs = map Some ds
                      \<and> objs b' = (\<lambda>n. if n = k then Some (concat ds)
                                       else if n \<in> set srcs then None else objs b n)))"
    using L [THEN conjunct2, THEN conjunct2, THEN conjunct2, THEN conjunct2] assms(2) by blast
qed

abbreviation gcs_up :: "'b gcs_store \<Rightarrow> ('b \<Rightarrow> string \<Rightarrow> bytes option) \<Rightarrow> ('b \<Rightarrow> bool) \<Rightarrow> 'b \<Rightarrow> bool" where
  "gcs_up st objs ok b \<equiv> gcs_service (gs_storage st) (gs_control st) (gs_bucket st) objs ok \<and> ok b"

section \<open>Requests\<close>

lemma gcs_list_loop_ends:
  assumes "gcs_listing (gs_control st) (gs_bucket st) (part_prefix (gs_prefix st) i) b token r"
  shows "\<exists>res. gcs_list_loop st i token names b = Some res
    \<and> (\<forall>ks. res = Inr ks \<longrightarrow> (\<exists>l. r = Some l \<and> ks = names @ l))"
  using assms
proof (induction arbitrary: names rule: gcs_listing.induct)
  case (failed token e)
  then show ?case by (simp add: gcs_list_loop.simps [of st i token])
next
  case (last token page)
  then show ?case by (simp add: gcs_list_loop.simps [of st i token] Let_def)
next
  case (more token page r)
  from more.IH [of "names @ filter (\<lambda>n. n \<noteq> []) (gp_objects page)"] obtain res where
    res: "gcs_list_loop st i (gp_next_token page) (names @ filter (\<lambda>n. n \<noteq> []) (gp_objects page)) b = Some res"
      "\<And>ks. res = Inr ks \<Longrightarrow> \<exists>l. r = Some l \<and> ks = (names @ filter (\<lambda>n. n \<noteq> []) (gp_objects page)) @ l"
    by blast
  from more.hyps res(1) have "gcs_list_loop st i token names b = Some res"
    by (simp add: gcs_list_loop.simps [of st i token] Let_def)
  with res(2) show ?case by auto
qed

lemma gcs_put_result:
  assumes "gcs_up st objs ok b" and "gcs_put st i op k d b = (r, b')"
  shows "gcs_up st objs ok b' \<and> put_result objs k d b r b'"
proof -
  obtain pr b1 where p: "gcs_write_object (gs_storage st) (gs_bucket st) k d b = (pr, b1)" by fastforce
  from gcs_put_law [OF conjunct1 [OF assms(1)] conjunct2 [OF assms(1)] p] p assms show ?thesis
    by (cases pr) (auto simp: gcs_put_def gcs_send_def put_result_def)
qed

lemma gcs_put_empty_result:
  assumes "gcs_up st objs ok b" and "gcs_put_empty st i k b = (r, b')"
  shows "gcs_up st objs ok b' \<and> put_result objs k [] b r b'"
proof -
  obtain pr b1 where p: "gcs_write_object (gs_storage st) (gs_bucket st) k [] b = (pr, b1)" by fastforce
  from gcs_put_law [OF conjunct1 [OF assms(1)] conjunct2 [OF assms(1)] p] p assms show ?thesis
    by (cases pr) (auto simp: gcs_put_empty_def put_result_def)
qed

lemma gcs_collect_ok [simp]: "gcs_collect op (map Inr cs) = Inr (concat cs)"
  by (induction cs) (simp_all add: res_bind_def)

lemma gcs_read_some:
  assumes "gcs_up st objs ok b" and "objs b k = Some d"
  shows "gcs_read st i op cop k b = (Inr d, b)"
  using gcs_get_some [OF conjunct1 [OF assms(1)] conjunct2 [OF assms(1)] assms(2)]
  by (auto simp: gcs_read_def)

lemma gcs_read_none:
  assumes "gcs_up st objs ok b" and "objs b k = None"
  shows "gcs_read st i op cop k b = (Inl (NotFound (as_str i)), b)"
  using gcs_get_none [OF conjunct1 [OF assms(1)] conjunct2 [OF assms(1)] assms(2)]
  by (auto simp: gcs_read_def gcs_err_def)

lemma gcs_delete_effect:
  assumes "gcs_up st objs ok b"
  shows "gcs_up st objs ok (gcs_delete_key st k b)" and "objs (gcs_delete_key st k b) = (objs b)(k := None)"
proof -
  obtain r b' where "gcs_delete_object (gs_control st) (gs_bucket st) k b = (r, b')" by fastforce
  with gcs_delete_law [OF conjunct1 [OF assms] conjunct2 [OF assms] this] assms
  show "gcs_up st objs ok (gcs_delete_key st k b)" "objs (gcs_delete_key st k b) = (objs b)(k := None)"
    by (simp_all add: gcs_delete_key_def)
qed

lemma gcs_list_result:
  assumes "gcs_up st objs ok b" and "gcs_list_parts st i b = (r, b')"
  shows "b' = b \<and> (\<forall>ks. r = Inr ks \<longrightarrow>
    (\<exists>l. below_prefix objs b (part_prefix (gs_prefix st) i) l \<and> ks = sort_key key_index l))"
proof -
  have "part_prefix (gs_prefix st) i \<noteq> []" by (simp add: part_prefix_def)
  from gcs_list_law [OF conjunct1 [OF assms(1)] conjunct2 [OF assms(1)] this]
  obtain lr where lr: "gcs_listing (gs_control st) (gs_bucket st) (part_prefix (gs_prefix st) i) b [] lr"
    "\<And>l. lr = Some l \<Longrightarrow> below_prefix objs b (part_prefix (gs_prefix st) i) l" by blast
  from gcs_list_loop_ends [OF lr(1), of "[]"] obtain res where
    "gcs_list_loop st i [] [] b = Some res" "\<And>ks. res = Inr ks \<Longrightarrow> lr = Some ks" by auto
  with assms(2) lr(2) show ?thesis by (cases res) (auto simp: gcs_list_parts_def)
qed

section \<open>Composition\<close>

lemma tmp_key_eq: "tmp_key pre i k = pre @ tmp_name i k"
  by (simp add: tmp_key_def tmp_name_def)

lemma tmp_key_inj: "tmp_key pre i k = tmp_key pre i l \<Longrightarrow> k = l"
  by (auto simp: tmp_key_def dest: arg_cong [where f = digits_val])

lemma compose_chunk_effect:
  assumes "gcs_up st objs ok b" and "compose_chunk st i dest srcs b = (r, b')"
  shows "gcs_up st objs ok b'" and "objs b' k \<noteq> objs b k \<Longrightarrow> k = dest \<or> k \<in> set srcs"
    and "r = Inr u \<Longrightarrow> srcs \<noteq> [] \<Longrightarrow> length srcs \<le> 32
      \<and> (\<exists>ds. map (objs b) srcs = map Some ds
           \<and> objs b' = (\<lambda>n. if n = dest then Some (concat ds) else if n \<in> set srcs then None else objs b n))"
proof -
  have "gcs_up st objs ok b' \<and> (\<forall>k. objs b' k \<noteq> objs b k \<longrightarrow> k = dest \<or> k \<in> set srcs)
    \<and> (r = Inr () \<longrightarrow> srcs \<noteq> [] \<longrightarrow> length srcs \<le> 32
      \<and> (\<exists>ds. map (objs b) srcs = map Some ds
           \<and> objs b' = (\<lambda>n. if n = dest then Some (concat ds) else if n \<in> set srcs then None else objs b n)))"
  proof (cases "srcs = []")
    case True
    with assms show ?thesis by (simp add: compose_chunk_def sm_return_def)
  next
    case False
    obtain cr b1 where c: "gcs_compose_object (gs_control st) (gs_bucket st) dest srcs True b = (cr, b1)" by fastforce
    with False assms(2) have rb: "r = map_sum (gcs_err i ''compose'') id cr" "b' = b1"
      by (simp_all add: compose_chunk_def gcs_send_def)
    note law = gcs_compose_law [OF conjunct1 [OF assms(1)] conjunct2 [OF assms(1)] c]
    show ?thesis
    proof (cases cr)
      case (Inl e)
      with law rb assms(1) show ?thesis by simp
    next
      case (Inr x)
      with law obtain ds where "length srcs \<le> 32" "map (objs b) srcs = map Some ds"
        "objs b1 = (\<lambda>n. if n = dest then Some (concat ds) else if n \<in> set srcs then None else objs b n)"
        by auto
      with law rb assms(1) show ?thesis by (auto split: if_splits)
    qed
  qed
  then show "gcs_up st objs ok b'" and "objs b' k \<noteq> objs b k \<Longrightarrow> k = dest \<or> k \<in> set srcs"
    and "r = Inr u \<Longrightarrow> srcs \<noteq> [] \<Longrightarrow> length srcs \<le> 32
      \<and> (\<exists>ds. map (objs b) srcs = map Some ds
           \<and> objs b' = (\<lambda>n. if n = dest then Some (concat ds) else if n \<in> set srcs then None else objs b n))"
    by simp_all
qed

lemma compose_chunk_assembles:
  assumes "gcs_up st objs ok b" and "compose_chunk st i dest srcs b = (Inr u, b')" and "srcs \<noteq> []"
    and "dest \<notin> set srcs"
  shows "assembled_from objs dest srcs b b'"
  using compose_chunk_effect(3) [OF assms(1,2) refl assms(3)] assms(4)
  by (auto simp: assembled_from_def)

text \<open>The groups with the keys of their intermediate objects.\<close>

definition tmp_groups :: "'b gcs_store \<Rightarrow> upload_id \<Rightarrow> string list \<Rightarrow> (string \<times> string list) list" where
  "tmp_groups st i srcs =
     map (map_prod (tmp_key (gs_prefix st) i) id) (List.enumerate 0 (chunks 32 srcs))"

lemma compose_map_for:
  "sm_map (\<lambda>(k, chunk).
       sm_bind (compose_chunk st i (tmp_key pre i k) chunk) (\<lambda>_. sm_return (tmp_key pre i k))) gs b =
   map_prod (map_sum id (\<lambda>u. map (tmp_key pre i \<circ> fst) gs)) id
     (sm_for (map (map_prod (tmp_key pre i) id) gs) (\<lambda>(t, g). compose_chunk st i t g) b)"
proof -
  have "(\<lambda>(k, chunk). sm_bind (compose_chunk st i (tmp_key pre i k) chunk) (\<lambda>_. sm_return (tmp_key pre i k)))
      = (\<lambda>x. sm_bind ((\<lambda>(t, g). compose_chunk st i t g) (map_prod (tmp_key pre i) id x))
                 (\<lambda>_. sm_return (fst (map_prod (tmp_key pre i) id x))))"
    by (auto simp: fun_eq_iff)
  then show ?thesis
    using sm_map_for [of "\<lambda>(t, g). compose_chunk st i t g" "map_prod (tmp_key pre i) id" gs b]
    by (simp add: comp_def)
qed

lemma compose_all_alt:
  "compose_all st i dest srcs b =
     (if length srcs \<le> 32 then compose_chunk st i dest srcs b
      else (case sm_for (tmp_groups st i srcs) (\<lambda>(t, g). compose_chunk st i t g) b of
              (Inl e, b1) \<Rightarrow> (Inl e, b1)
            | (Inr u, b1) \<Rightarrow> compose_chunk st i dest (map fst (tmp_groups st i srcs)) b1))"
proof -
  obtain r b1 where "sm_for (tmp_groups st i srcs) (\<lambda>(t, g). compose_chunk st i t g) b = (r, b1)" by fastforce
  then show ?thesis
    using compose_map_for [of st i "gs_prefix st" "List.enumerate 0 (chunks 32 srcs)" b]
    by (cases r) (simp_all add: compose_all_def MAX_COMPOSE_SOURCES_def sm_bind_Inr sm_bind_Inl
        tmp_groups_def comp_def)
qed

lemma tmp_groups_props:
  shows "concat (map snd (tmp_groups st i srcs)) = srcs"
    and "distinct (map fst (tmp_groups st i srcs))"
    and "\<forall>g \<in> set (map snd (tmp_groups st i srcs)). g \<noteq> [] \<and> length g \<le> 32"
    and "set (map fst (tmp_groups st i srcs)) \<subseteq> range (tmp_key (gs_prefix st) i)"
    and "length (tmp_groups st i srcs) = length (chunks 32 srcs)"
proof -
  have snd: "map snd (tmp_groups st i srcs) = chunks 32 srcs"
    by (simp add: tmp_groups_def comp_def)
  have fst: "map fst (tmp_groups st i srcs) = map (tmp_key (gs_prefix st) i) [0 ..< length (chunks 32 srcs)]"
  proof -
    have "map fst (tmp_groups st i srcs)
        = map (tmp_key (gs_prefix st) i) (map fst (List.enumerate 0 (chunks 32 srcs)))"
      unfolding tmp_groups_def map_map by (rule map_cong) auto
    then show ?thesis by (simp only: map_fst_enumerate) simp
  qed
  show "concat (map snd (tmp_groups st i srcs)) = srcs" by (simp add: snd concat_chunks)
  show "distinct (map fst (tmp_groups st i srcs))"
    unfolding fst by (auto simp: distinct_map inj_on_def dest: tmp_key_inj)
  show "\<forall>g \<in> set (map snd (tmp_groups st i srcs)). g \<noteq> [] \<and> length g \<le> 32"
    unfolding snd using chunks_bounds [of 32 _ srcs] by auto
  show "set (map fst (tmp_groups st i srcs)) \<subseteq> range (tmp_key (gs_prefix st) i)"
    unfolding fst by auto
  show "length (tmp_groups st i srcs) = length (chunks 32 srcs)" by (simp add: tmp_groups_def)
qed

lemma compose_all_effect:
  assumes "gcs_up st objs ok b" and "compose_all st i dest srcs b = (r, b')"
  shows "gcs_up st objs ok b'" and "assembly_frame (gs_prefix st) objs i dest srcs b b'"
    and "r = Inr u \<Longrightarrow> srcs \<noteq> [] \<Longrightarrow> distinct srcs \<Longrightarrow> dest \<notin> set srcs \<Longrightarrow>
      (\<And>m. tmp_key (gs_prefix st) i m \<notin> insert dest (set srcs)) \<Longrightarrow> assembled_from objs dest srcs b b'"
proof -
  let ?tgs = "tmp_groups st i srcs"
  let ?f = "\<lambda>(t, g). compose_chunk st i t g"
  note P = tmp_groups_props [of st i srcs]
  have step: "gcs_up st objs ok c' \<and> (\<forall>k. objs c' k \<noteq> objs c k \<longrightarrow> k = t \<or> k \<in> set g)"
    if "gcs_up st objs ok c" "?f (t, g) c = (q, c')" for t g c q c'
    using compose_chunk_effect(1,2) [of st objs ok c i t g q c'] that by auto
  let ?ok = "gcs_up st objs ok b' \<and> assembly_frame (gs_prefix st) objs i dest srcs b b'"
  let ?good = "r = Inr () \<longrightarrow> srcs \<noteq> [] \<longrightarrow> distinct srcs \<longrightarrow> dest \<notin> set srcs \<longrightarrow>
      (\<forall>m. tmp_key (gs_prefix st) i m \<notin> insert dest (set srcs)) \<longrightarrow> assembled_from objs dest srcs b b'"
  have "?ok \<and> ?good"
  proof (cases "length srcs \<le> 32")
    case True
    with assms(2) have c: "compose_chunk st i dest srcs b = (r, b')" by (simp add: compose_all_alt)
    with compose_chunk_assembles [OF assms(1), of i dest srcs "()" b'] compose_chunk_effect(1,2) [OF assms(1) c]
    show ?thesis by (auto simp: assembly_frame_def)
  next
    case False
    obtain mr b1 where m: "sm_for ?tgs ?f b = (mr, b1)" by fastforce
    have fr: "gcs_up st objs ok b1 \<and> (\<forall>k. objs b1 k \<noteq> objs b k \<longrightarrow>
        k \<in> set (map fst ?tgs) \<or> k \<in> set srcs)"
      using for_groups_frame [where svc = "gcs_up st objs ok" and objs = objs and f = ?f, OF _ assms(1) m]
      unfolding P(1) using step by blast
    have up1: "gcs_up st objs ok b1" and fr1: "\<And>k. objs b1 k \<noteq> objs b k \<Longrightarrow>
        k \<in> set srcs \<or> k \<in> range (tmp_key (gs_prefix st) i)"
      using fr P(4) by blast+
    show ?thesis
    proof (cases mr)
      case (Inl e)
      with m False assms(2) have "r = Inl e" "b' = b1" by (simp_all add: compose_all_alt)
      with up1 fr1 show ?thesis by (auto simp: assembly_frame_def tmp_key_eq)
    next
      case (Inr u)
      with m False assms(2) have c: "compose_chunk st i dest (map fst ?tgs) b1 = (r, b')"
        by (simp add: compose_all_alt)
      note e = compose_chunk_effect [OF up1 c]
      have frame: "k = dest \<or> k \<in> set srcs \<or> k \<in> range (tmp_key (gs_prefix st) i)"
        if "objs b' k \<noteq> objs b k" for k
        using that e(2) [of k] fr1 [of k] P(4) by (cases "objs b' k = objs b1 k") auto
      then have ?ok using e(1) by (auto simp: assembly_frame_def tmp_key_eq)
      moreover have ?good
      proof (intro impI)
        assume h: "r = Inr ()" "srcs \<noteq> []" "distinct srcs" "dest \<notin> set srcs"
          "\<forall>m. tmp_key (gs_prefix st) i m \<notin> insert dest (set srcs)"
        have disj: "set (map fst ?tgs) \<inter> set srcs = {}" "dest \<notin> set (map fst ?tgs)"
          using P(4) h(5) by blast+
        have "(\<exists>ds es. map (objs b) (concat (map snd ?tgs)) = map Some ds
            \<and> map (objs b1) (map fst ?tgs) = map Some es \<and> concat es = concat ds)
          \<and> (\<forall>k \<in> set (concat (map snd ?tgs)). objs b1 k = None)"
        proof (rule for_groups_ok [where svc = "gcs_up st objs ok" and f = ?f])
          show "sm_for ?tgs ?f b = (Inr (), b1)" using m Inr by simp
          show "assembled_from objs t g c c'" if "gcs_up st objs ok c" "?f (t, g) c = (Inr (), c')"
            "g \<noteq> []" "t \<notin> set g" for t g c c'
            using compose_chunk_assembles [of st objs ok c i t g] that by simp
        qed (use step assms(1) P(1-3) h(3) disj(1) in auto)
        then obtain ds es where g: "map (objs b) srcs = map Some ds" "map (objs b1) (map fst ?tgs) = map Some es"
          "concat es = concat ds" "\<And>k. k \<in> set srcs \<Longrightarrow> objs b1 k = None"
          unfolding P(1) by blast
        have "map fst ?tgs \<noteq> []" using P(5) h(2) by (auto simp: chunks.simps [of 32 srcs])
        note last = compose_chunk_assembles [OF up1 c [unfolded h(1)] this disj(2)]
        show "assembled_from objs dest srcs b b'"
          using e(2) disj(1) h(4) by (intro assembled_groups [OF g last]) auto
      qed
      ultimately show ?thesis by blast
    qed
  qed
  then show "gcs_up st objs ok b'" "assembly_frame (gs_prefix st) objs i dest srcs b b'"
    and "r = Inr u \<Longrightarrow> srcs \<noteq> [] \<Longrightarrow> distinct srcs \<Longrightarrow> dest \<notin> set srcs \<Longrightarrow>
      (\<And>m. tmp_key (gs_prefix st) i m \<notin> insert dest (set srcs)) \<Longrightarrow> assembled_from objs dest srcs b b'"
    by simp_all
qed

text \<open>More than 32 groups of 32 are too many sources for the second round.\<close>

lemma many_chunks: "0 < n \<Longrightarrow> length xs \<le> n * length (chunks n xs)"
proof (induction n xs rule: chunks.induct)
  case (1 n xs)
  then show ?case
    by (cases "xs = []") (simp_all add: chunks.simps [of n xs])
qed

lemma compose_all_too_many:
  assumes "gcs_up st objs ok b" and "1024 < length srcs"
  shows "fst (compose_all st i dest srcs b) \<noteq> Inr u"
proof
  let ?tgs = "tmp_groups st i srcs" and ?f = "\<lambda>(t, g). compose_chunk st i t g"
  assume ok: "fst (compose_all st i dest srcs b) = Inr u"
  have big: "\<not> length srcs \<le> 32" using assms(2) by simp
  obtain mr b1 where m: "sm_for ?tgs ?f b = (mr, b1)" by fastforce
  from ok big m obtain v where mr: "mr = Inr v" by (cases mr) (simp_all add: compose_all_alt)
  obtain cr b2 where c: "compose_chunk st i dest (map fst ?tgs) b1 = (cr, b2)" by fastforce
  from ok big m mr c have cr: "cr = Inr u" by (simp add: compose_all_alt)
  have many: "32 < length (map fst ?tgs)"
    using many_chunks [of 32 srcs] assms(2) tmp_groups_props(5) [of st i srcs] by simp
  have step: "gcs_up st objs ok c' \<and> (\<forall>k. objs c' k \<noteq> objs c k \<longrightarrow> k = t \<or> k \<in> set g)"
    if "gcs_up st objs ok c" "?f (t, g) c = (q, c')" for t g c q c'
    using compose_chunk_effect(1,2) [of st objs ok c i t g q c'] that by auto
  have up1: "gcs_up st objs ok b1"
    using for_groups_frame [where svc = "gcs_up st objs ok" and objs = objs and f = ?f, OF _ assms(1) m] step
    by blast
  have "map fst ?tgs \<noteq> []" using many by auto
  from compose_chunk_effect(3) [OF up1 c cr this] have "length (map fst ?tgs) \<le> 32" by blast
  with many show False by simp
qed

section \<open>The contract\<close>

interpretation gcs_uploads: object_backend "gs_prefix st" js "gcs_calls js st" objs "gcs_up st objs ok"
proof (unfold_locales, goal_cases)
  case (1 b i d)
  from gcs_read_some [OF 1] show ?case
    by (simp add: gcs_calls_def gcs_read_info_def sm_bind_def sm_lift_def)
next
  case (2 b i)
  from gcs_read_none [OF 2] show ?case
    by (simp add: gcs_calls_def gcs_read_info_def sm_bind_def)
next
  case (3 b i x r b')
  then show ?case
    using gcs_put_result [OF 3(1)]
    by (cases "to_json js x")
       (auto simp: gcs_calls_def gcs_write_info_def sm_bind_def sm_lift_def info_json_def)
next
  case (4 b i lres b')
  then have "gcs_list_parts st i b = (lres, b')" by (simp add: gcs_calls_def)
  from gcs_list_result [OF 4(1) this] show ?case .
next
  case (5 b i k d r b')
  then have "gcs_put st i ''write part'' k d b = (r, b')" by (simp add: gcs_calls_def gcs_put_part_def)
  from gcs_put_result [OF 5(1) this] show ?case .
next
  case (6 b i k r b')
  then have "gcs_put_empty st i k b = (r, b')" by (simp add: gcs_calls_def)
  from gcs_put_empty_result [OF 6(1) this] show ?case .
next
  case (7 b i k res b')
  show ?case
  proof (cases "objs b k")
    case None
    from gcs_read_none [OF 7(1) None] 7(2) show ?thesis
      by (auto simp: gcs_calls_def gcs_download_def sm_bind_def)
  next
    case (Some d)
    from gcs_read_some [OF 7(1) Some] 7(2) Some show ?thesis
      by (auto simp: gcs_calls_def gcs_download_def sm_bind_def sm_return_def)
  qed
next
  case (8 b i dest srcs opn r b')
  then have "compose_all st i dest srcs b = (r, b')" by (simp add: gcs_calls_def gcs_assemble_def)
  from compose_all_effect(1,2) [OF 8(1) this] show ?case by blast
next
  case (9 b i dest srcs opn u b')
  then have "compose_all st i dest srcs b = (Inr u, b')" by (simp add: gcs_calls_def gcs_assemble_def)
  from compose_all_effect(3) [OF 9(1) this refl 9(3-5)] 9(6) show ?case by (simp add: tmp_key_eq)
next
  case (10 b k)
  then show ?case using gcs_delete_effect [OF 10] by (simp add: gcs_calls_def)
qed

end
