(* ===== verification/GCS_Session.thy ===== *)
theory GCS_Session
  imports GCS_Laws Object_Demo
begin

text \<open>
  What the Google Cloud Storage store guarantees on a service that keeps its contract: a download
  after a session of uploads streams the bodies, and an upload of more than 1024 parts is never
  assembled. A small service that can be evaluated and is proved to keep the contract serves the
  witnesses.
\<close>

section \<open>A service\<close>

definition gd_write :: "string \<Rightarrow> string \<Rightarrow> bytes \<Rightarrow> bucket \<Rightarrow> (gcs_error + unit) \<times> bucket" where
  "gd_write bk k d b = (Inr (), AList.update k d b)"

definition gd_missing :: gcs_error where
  "gd_missing = \<lparr>ge_http = Some 404, ge_code = None, ge_text = ''no such object''\<rparr>"

definition gd_invalid :: gcs_error where
  "gd_invalid = \<lparr>ge_http = Some 400, ge_code = None, ge_text = ''invalid''\<rparr>"

definition gd_read :: "string \<Rightarrow> string \<Rightarrow> bucket \<Rightarrow> gcs_error + (gcs_error + bytes) list" where
  "gd_read bk k b = (case map_of b k of Some d \<Rightarrow> Inr [Inr d] | None \<Rightarrow> Inl gd_missing)"

text \<open>The first page of a listing is empty, the second one the whole listing.\<close>

definition gd_list :: "string \<Rightarrow> string \<Rightarrow> string option \<Rightarrow> bucket \<Rightarrow> gcs_error + gcs_page" where
  "gd_list bk p token b =
     Inr (if token = None then \<lparr>gp_objects = [], gp_next_token = ''x''\<rparr>
          else \<lparr>gp_objects = bucket_keys p b, gp_next_token = []\<rparr>)"

definition gd_compose ::
  "string \<Rightarrow> string \<Rightarrow> string list \<Rightarrow> bool \<Rightarrow> bucket \<Rightarrow> (gcs_error + unit) \<times> bucket" where
  "gd_compose bk k srcs del b =
     (case those (map (map_of b) srcs) of
        Some ds \<Rightarrow>
          if length srcs \<le> 32
          then (Inr (), AList.update k (concat ds) (if del then fold AList.delete srcs b else b))
          else (Inl gd_invalid, b)
      | None \<Rightarrow> (Inl gd_missing, b))"

definition gd_delete :: "string \<Rightarrow> string \<Rightarrow> bucket \<Rightarrow> (gcs_error + unit) \<times> bucket" where
  "gd_delete bk k b = (Inr (), AList.delete k b)"

definition gd_storage :: "bucket gcs_storage" where
  "gd_storage = \<lparr>gcs_write_object = gd_write, gcs_read_object = gd_read\<rparr>"

definition gd_control :: "bucket gcs_control" where
  "gd_control = \<lparr>gcs_list_objects = gd_list, gcs_compose_object = gd_compose, gcs_delete_object = gd_delete\<rparr>"

definition gd_ok :: "bucket \<Rightarrow> bool" where
  "gd_ok b \<longleftrightarrow> distinct (map fst b)"

lemma deletes_map_of: "map_of (fold AList.delete ks b) = (\<lambda>k. if k \<in> set ks then None else map_of b k)"
  by (induction ks arbitrary: b) (auto simp: delete_conv')

lemma deletes_distinct: "distinct (map fst b) \<Longrightarrow> distinct (map fst (fold AList.delete ks b))"
  by (induction ks arbitrary: b) (simp_all add: distinct_delete)

lemma those_map: "those (map f xs) = Some ys \<Longrightarrow> map f xs = map Some ys"
proof (induction xs arbitrary: ys)
  case (Cons x xs)
  then show ?case by (cases "f x"; cases "those (map f xs)") auto
qed simp

lemma gd_service: "gcs_service gd_storage gd_control bk map_of gd_ok"
  unfolding gcs_service_def
proof (intro conjI allI impI)
  fix b and p :: string
  assume "gd_ok b" "p \<noteq> []"
  have "gcs_list_objects gd_control bk p (if [] \<noteq> ([] :: string) then Some [] else None) b
      = Inr \<lparr>gp_objects = [], gp_next_token = ''x''\<rparr>"
    by (simp add: gd_control_def gd_list_def)
  moreover have two: "gcs_list_objects gd_control bk p (if ''x'' \<noteq> [] then Some ''x'' else None) b
      = Inr \<lparr>gp_objects = bucket_keys p b, gp_next_token = []\<rparr>"
    by (simp add: gd_control_def gd_list_def)
  moreover have "gcs_listing gd_control bk p b ''x'' (Some (filter (\<lambda>n. n \<noteq> []) (bucket_keys p b)))"
    using gcs_listing.last [OF two] by simp
  ultimately have "gcs_listing gd_control bk p b [] (Some (filter (\<lambda>n. n \<noteq> []) (bucket_keys p b)))"
    using gcs_listing.more [of gd_control bk p "[]" b] by fastforce
  moreover have "filter (\<lambda>n. n \<noteq> []) (bucket_keys p b) = bucket_keys p b"
    using \<open>p \<noteq> []\<close> unfolding filter_id_conv by (auto simp: bucket_keys_def)
  moreover have "below_prefix map_of b p (bucket_keys p b)"
    using \<open>gd_ok b\<close> by (auto simp: gd_ok_def intro: bucket_keys_below)
  ultimately show "\<exists>r. gcs_listing gd_control bk p b [] r \<and> (\<forall>l. r = Some l \<longrightarrow> below_prefix map_of b p l)"
    by (intro exI [of _ "Some (bucket_keys p b)"]) simp
next
  fix b k
  assume "gd_ok b"
  show "case map_of b k of
      Some d \<Rightarrow> \<exists>cs. gcs_read_object gd_storage bk k b = Inr (map Inr cs) \<and> concat cs = d
    | None \<Rightarrow> \<exists>e. gcs_read_object gd_storage bk k b = Inl e \<and> gcs_is_not_found e"
    by (auto simp: gd_storage_def gd_read_def gd_missing_def gcs_is_not_found_def
        intro: exI [of _ "[the (map_of b k)]"] split: option.split)
next
  fix b k srcs r b'
  assume ok: "gd_ok b" and c: "gcs_compose_object gd_control bk k srcs True b = (r, b')"
  from ok c show "gd_ok b'"
    by (auto simp: gd_control_def gd_compose_def gd_ok_def distinct_update deletes_distinct
        split: option.splits if_splits)
  show "case r of Inl e \<Rightarrow> map_of b' = map_of b
    | Inr u \<Rightarrow> length srcs \<le> 32
        \<and> (\<exists>ds. map (map_of b) srcs = map Some ds
             \<and> map_of b' = (\<lambda>n. if n = k then Some (concat ds) else if n \<in> set srcs then None else map_of b n))"
    using c those_map [of "map_of b" srcs]
    by (auto simp: gd_control_def gd_compose_def update_conv' deletes_map_of fun_eq_iff
        split: option.splits if_splits)
qed (auto simp: gd_storage_def gd_control_def gd_write_def gd_delete_def gd_ok_def update_conv'
    delete_conv' fun_eq_iff distinct_update distinct_delete)

section \<open>A server\<close>

definition gcs_demo_store :: "bucket gcs_store" where
  "gcs_demo_store = \<lparr>gs_storage = gd_storage, gs_control = gd_control,
                      gs_bucket = ''projects/_/buckets/b'', gs_prefix = ''up/''\<rparr>"

lemma gcs_demo_sel [simp]:
  "gs_storage gcs_demo_store = gd_storage" "gs_control gcs_demo_store = gd_control"
  "gs_prefix gcs_demo_store = ''up/''"
  by (simp_all add: gcs_demo_store_def)

definition gcs_server :: "(bucket, held_set) tus_handler" where
  "gcs_server = tus_handler_new (gcs_ops demo_codec gcs_demo_store) (Some memory_locker_ops) demo_config"

definition gcs_world :: "(bucket, held_set) world" where
  "gcs_world = \<lparr>w_store = demo_bucket, w_lock = {}, w_events = []\<rparr>"

section \<open>Properties\<close>

text \<open>
  C18. A download from a server on Google Cloud Storage after any session of PATCH requests with
  bytes, each answered 204, on an upload that had received nothing: a GET answered 200 streams the
  bodies of those requests, all of them, in order, also when there are more than 32 of them and they
  are composed in two rounds.
\<close>

theorem gcs_downloads_deliver:
  assumes "gcs_service (gs_storage st) (gs_control st) (gs_bucket st) objs ok"
    and "h_store h = gcs_ops js st" and "object_inv (gs_prefix st) js objs ok (w_store w)"
    and "object_info_of (gs_prefix st) js objs (w_store w) i = Some y" and "\<not> is_complete y"
    and "object_parts (gs_prefix st) objs (w_store w) i []"
    and "list_all (chunk_request i) rs" and "length rs < 2 ^ 32"
    and "handle_all x h rs w = (resps, w')" and "list_all (\<lambda>r. resp_status r = 204) resps"
    and "req_method req = GET" and "request_id req = Inr i"
    and "handle x h e req w' = (resp, w'')" and "resp_status resp = 200"
  shows "\<exists>rd. resp_body resp = Body_Reader rd
    \<and> read_to_end rd = Inr (concat (map (body_bytes \<circ> snd) rs))"
proof -
  have "object_inv (gs_prefix st) js objs (gcs_up st objs ok) (w_store w)"
    using assms(1,3) by (auto simp: object_inv_def)
  from gcs_uploads.session_download [OF assms(2) [unfolded gcs_ops_eq] this assms(4-14)]
  show ?thesis .
qed

theorem gcs_downloads_deliver_witness:
  "\<exists>rd. resp_body (fst (handle demo_externals gcs_server (fst (demo_plain GET ''a'')) (snd (demo_plain GET ''a''))
          (snd (handle_all demo_externals gcs_server
             [demo_patch ''a'' ''0'' ''abc'', demo_patch ''a'' ''3'' ''de''] gcs_world))))
        = Body_Reader rd \<and> read_to_end rd = Inr ''abcde''"
proof -
  define w where "w = gcs_world"
  define rs where "rs = [demo_patch ''a'' ''0'' ''abc'', demo_patch ''a'' ''3'' ''de'']"
  define res where "res = handle_all demo_externals gcs_server rs w"
  define out where "out = handle demo_externals gcs_server (fst (demo_plain GET ''a''))
    (snd (demo_plain GET ''a'')) (snd res)"
  have objs: "map_of (w_store w) = map_of demo_bucket" by (simp add: w_def gcs_world_def)
  have ok: "gd_ok (w_store w)" by (simp add: w_def gcs_world_def gd_ok_def demo_bucket_def)
  have bodies: "concat (map (body_bytes \<circ> snd) rs) = ''abcde''" unfolding rs_def by code_simp
  have "\<exists>rd. resp_body (fst out) = Body_Reader rd
      \<and> read_to_end rd = Inr (concat (map (body_bytes \<circ> snd) rs))"
  proof (rule gcs_downloads_deliver)
    show "gcs_service (gs_storage gcs_demo_store) (gs_control gcs_demo_store) (gs_bucket gcs_demo_store) map_of gd_ok"
      by (simp add: gd_service)
    show "h_store gcs_server = gcs_ops demo_codec gcs_demo_store"
      by (simp add: gcs_server_def tus_handler_new_def)
    show "object_inv (gs_prefix gcs_demo_store) demo_codec map_of gd_ok (w_store w)"
      using demo_bucket_inv [of map_of "w_store w" gd_ok, OF objs ok] by simp
    show "object_info_of (gs_prefix gcs_demo_store) demo_codec map_of (w_store w) (UploadId ''a'')
        = Some (upload_info_new (UploadId ''a'') (Some 5))"
      using demo_bucket_info [of map_of "w_store w", OF objs] by simp
    show "\<not> is_complete (upload_info_new (UploadId ''a'') (Some 5))" by code_simp
    show "object_parts (gs_prefix gcs_demo_store) map_of (w_store w) (UploadId ''a'') []"
      using demo_bucket_parts [of map_of "w_store w", OF objs] by simp
    show "list_all (chunk_request (UploadId ''a'')) rs" "length rs < 2 ^ 32"
      unfolding rs_def by code_simp+
    show "handle_all demo_externals gcs_server rs w = (fst res, snd res)" by (simp add: res_def)
    show "list_all (\<lambda>r. resp_status r = 204) (fst res)"
      unfolding res_def rs_def w_def by code_simp
    show "resp_status (fst out) = 200"
      unfolding out_def res_def rs_def w_def by code_simp
    show "req_method (snd (demo_plain GET ''a'')) = GET"
      "request_id (snd (demo_plain GET ''a'')) = Inr (UploadId ''a'')" by code_simp+
    show "handle demo_externals gcs_server (fst (demo_plain GET ''a'')) (snd (demo_plain GET ''a'')) (snd res)
        = (fst out, snd out)" by (simp add: out_def)
  qed
  then have "\<exists>rd. resp_body (fst out) = Body_Reader rd \<and> read_to_end rd = Inr ''abcde''"
    by (simp only: bodies)
  then show ?thesis by (simp only: out_def res_def rs_def w_def)
qed

text \<open>
  C23. On Google Cloud Storage more than 1024 parts are never assembled: they make more than 32
  groups, and the one further composition of the groups exceeds the 32 sources the service takes.
\<close>

theorem gcs_too_many_parts:
  assumes "gcs_service (gs_storage st) (gs_control st) (gs_bucket st) objs ok" and "ok b"
    and "1024 < length srcs"
  shows "fst (compose_all st i dest srcs b) \<noteq> Inr u"
  using compose_all_too_many [of st objs ok b srcs i dest u] assms by blast

theorem gcs_too_many_parts_witness:
  "fst (compose_all gcs_demo_store (UploadId ''a'') ''up/a''
     (map (\<lambda>k. ''up/a_part_'' @ dec k) [0 ..< 1025]) []) \<noteq> Inr ()"
proof (rule gcs_too_many_parts)
  show "gcs_service (gs_storage gcs_demo_store) (gs_control gcs_demo_store) (gs_bucket gcs_demo_store) map_of gd_ok"
    by (simp add: gd_service)
  show "gd_ok []" by (simp add: gd_ok_def)
  show "1024 < length (map (\<lambda>k. ''up/a_part_'' @ dec k) [0 ..< 1025])" by simp
qed

end
