(* ===== verification/Azure_Store.thy ===== *)
theory Azure_Store
  imports Object_Store
begin

text \<open>
  \<open>fileloft-store-azure/src/store.rs\<close> and \<open>error.rs\<close>. The container client of the Azure SDK is
  third-party code: a record of the requests the store sends, each on the state \<open>'b\<close> of the service.
  A blob is assembled by staging its sources as blocks and committing the list of blocks, in rounds of
  at most 32.
\<close>

section \<open>The client\<close>

record azure_error =
  ae_http :: "nat option"
  ae_text :: string

text \<open>A listing is the stream of its pages.\<close>

record 'b azure_client =
  az_put_block_blob :: "string \<Rightarrow> bytes \<Rightarrow> 'b \<Rightarrow> (azure_error + unit) \<times> 'b"
  az_get_content :: "string \<Rightarrow> 'b \<Rightarrow> azure_error + bytes"
  az_list_blobs :: "string \<Rightarrow> 'b \<Rightarrow> (azure_error + string list) list"
  az_delete_blob :: "string \<Rightarrow> 'b \<Rightarrow> (azure_error + unit) \<times> 'b"
  az_put_block :: "string \<Rightarrow> bytes \<Rightarrow> bytes \<Rightarrow> 'b \<Rightarrow> (azure_error + unit) \<times> 'b"
  az_put_block_list :: "string \<Rightarrow> bytes list \<Rightarrow> 'b \<Rightarrow> (azure_error + unit) \<times> 'b"

definition azure_is_not_found :: "azure_error \<Rightarrow> bool" where
  "azure_is_not_found e \<longleftrightarrow> (case ae_http e of Some h \<Rightarrow> h = 404 | None \<Rightarrow> False)"

definition azure_err :: "upload_id \<Rightarrow> string \<Rightarrow> azure_error \<Rightarrow> tus_error" where
  "azure_err i op e =
     (if azure_is_not_found e then NotFound (as_str i)
      else Internal (''Azure '' @ op @ '': '' @ ae_text e))"

definition azure_send :: "upload_id \<Rightarrow> string \<Rightarrow> ('b \<Rightarrow> (azure_error + 'a) \<times> 'b) \<Rightarrow> ('b, 'a) op" where
  "azure_send i op m b = (case m b of (r, b') \<Rightarrow> (map_sum (azure_err i op) id r, b'))"

section \<open>The store and its builder\<close>

record 'b azure_store =
  az_container :: "'b azure_client"
  az_prefix :: string

datatype azure_store_error = Azure_ContainerEmpty | Azure_AccountMissing | Azure_ClientInit string

text \<open>A service client gives the client of a container.\<close>

record 'b azure_builder =
  ab_container :: string
  ab_prefix :: string
  ab_service :: "(string \<Rightarrow> 'b azure_client) option"
  ab_connection_string :: "string option"
  ab_account :: "string option"

definition azure_store_builder :: "string \<Rightarrow> 'b azure_builder" where
  "azure_store_builder container =
     \<lparr>ab_container = container, ab_prefix = [], ab_service = None, ab_connection_string = None,
      ab_account = None\<rparr>"

definition azure_builder_prefix :: "string \<Rightarrow> 'b azure_builder \<Rightarrow> 'b azure_builder" where
  "azure_builder_prefix p b = b\<lparr>ab_prefix := p\<rparr>"

definition azure_builder_with_service ::
  "(string \<Rightarrow> 'b azure_client) \<Rightarrow> 'b azure_builder \<Rightarrow> 'b azure_builder" where
  "azure_builder_with_service s b = b\<lparr>ab_service := Some s\<rparr>"

definition azure_builder_connection_string :: "string \<Rightarrow> 'b azure_builder \<Rightarrow> 'b azure_builder" where
  "azure_builder_connection_string s b = b\<lparr>ab_connection_string := Some s\<rparr>"

definition azure_builder_account :: "string \<Rightarrow> 'b azure_builder \<Rightarrow> 'b azure_builder" where
  "azure_builder_account a b = b\<lparr>ab_account := Some a\<rparr>"

text \<open>
  What \<open>build\<close> takes from the SDK and the environment: reading a connection string gives its account
  name and its credentials, both of which may be missing; the default credentials; and the service
  client of an account.
\<close>

record ('b, 'k) azure_sdk =
  sdk_connection :: "string \<Rightarrow> string + string option \<times> (string + 'k)"
  sdk_default_credential :: "string + 'k"
  sdk_service :: "string \<Rightarrow> 'k \<Rightarrow> string \<Rightarrow> 'b azure_client"
  sdk_env :: "string \<Rightarrow> string option"

definition azure_service ::
  "('b, 'k) azure_sdk \<Rightarrow> 'b azure_builder \<Rightarrow> azure_store_error + (string \<Rightarrow> 'b azure_client)" where
  "azure_service sdk b =
     (case ab_service b of
        Some s \<Rightarrow> Inr s
      | None \<Rightarrow>
          (case (case ab_connection_string b of
                   Some s \<Rightarrow> Some s | None \<Rightarrow> sdk_env sdk ''AZURE_STORAGE_CONNECTION_STRING'') of
             Some cs \<Rightarrow>
               res_bind (map_sum Azure_ClientInit id (sdk_connection sdk cs)) (\<lambda>(name, creds).
               res_bind (opt_to_res
                   (Azure_ClientInit ''connection string missing AccountName'') name) (\<lambda>account.
               res_bind (map_sum Azure_ClientInit id creds) (\<lambda>k. Inr (sdk_service sdk account k))))
           | None \<Rightarrow>
               (let account = (case ab_account b of
                                 Some a \<Rightarrow> Some a | None \<Rightarrow> sdk_env sdk ''AZURE_STORAGE_ACCOUNT'');
                    account = (case account of
                                 Some a \<Rightarrow> if trim a \<noteq> [] then Some a else None | None \<Rightarrow> None)
                in res_bind (opt_to_res Azure_AccountMissing account) (\<lambda>account.
                   res_bind (map_sum Azure_ClientInit id (sdk_default_credential sdk)) (\<lambda>k.
                   Inr (sdk_service sdk account k))))))"

definition azure_build ::
  "('b, 'k) azure_sdk \<Rightarrow> 'b azure_builder \<Rightarrow> azure_store_error + 'b azure_store" where
  "azure_build sdk b =
     (if trim (ab_container b) = [] then Inl Azure_ContainerEmpty
      else
        (let pre = normal_prefix (ab_prefix b)
         in res_bind (azure_service sdk b) (\<lambda>service.
            Inr \<lparr>az_container = service (ab_container b), az_prefix = pre\<rparr>)))"

section \<open>Records\<close>

definition azure_put :: "'b azure_store \<Rightarrow> upload_id \<Rightarrow> string \<Rightarrow> string \<Rightarrow> bytes \<Rightarrow> ('b, unit) op" where
  "azure_put st i op key d = azure_send i op (az_put_block_blob (az_container st) key d)"

definition azure_get :: "'b azure_store \<Rightarrow> upload_id \<Rightarrow> string \<Rightarrow> string \<Rightarrow> ('b, bytes) op" where
  "azure_get st i op key b = (map_sum (azure_err i op) id (az_get_content (az_container st) key b), b)"

definition azure_write_info ::
  "json_codec \<Rightarrow> 'b azure_store \<Rightarrow> upload_id \<Rightarrow> upload_info \<Rightarrow> ('b, unit) op" where
  "azure_write_info js st i info =
     sm_bind (sm_lift (info_json js info)) (\<lambda>json.
     azure_put st i ''write info'' (info_key (az_prefix st) i) json)"

definition azure_read_info :: "json_codec \<Rightarrow> 'b azure_store \<Rightarrow> upload_id \<Rightarrow> ('b, upload_info) op" where
  "azure_read_info js st i =
     sm_bind (azure_get st i ''read info'' (info_key (az_prefix st) i)) (\<lambda>buf.
     sm_lift (json_info js buf))"

section \<open>Listing\<close>

fun azure_pages ::
  "upload_id \<Rightarrow> (azure_error + string list) list \<Rightarrow> string list \<Rightarrow> tus_error + string list" where
  "azure_pages i [] names = Inr names"
| "azure_pages i (Inl e # r) names = Inl (azure_err i ''list parts'' e)"
| "azure_pages i (Inr blobs # r) names = azure_pages i r (names @ filter (\<lambda>n. n \<noteq> []) blobs)"

definition azure_list_parts :: "'b azure_store \<Rightarrow> upload_id \<Rightarrow> ('b, string list) op" where
  "azure_list_parts st i b =
     (map_sum id (sort_key key_index)
        (azure_pages i (az_list_blobs (az_container st) (part_prefix (az_prefix st) i) b) []), b)"

definition azure_delete_key :: "'b azure_store \<Rightarrow> string \<Rightarrow> 'b \<Rightarrow> 'b" where
  "azure_delete_key st key b = snd (az_delete_blob (az_container st) key b)"

section \<open>Committing\<close>

definition MAX_COMMIT_SOURCES :: nat where "MAX_COMMIT_SOURCES = 32"

text \<open>\<open>i.to_be_bytes()\<close>\<close>

definition block_id_for_index :: "u64 \<Rightarrow> bytes" where
  "block_id_for_index i = map (\<lambda>k. char_of (unat (drop_bit (8 * k) i) mod 256)) [7, 6, 5, 4, 3, 2, 1, 0]"

text \<open>The loop of \<open>commit_blob_names_to_dest\<close>, from source number \<open>n\<close> on: the block list it makes.\<close>

fun stage_blocks ::
  "'b azure_store \<Rightarrow> upload_id \<Rightarrow> string \<Rightarrow> string \<Rightarrow> u64 \<Rightarrow> string list \<Rightarrow> bytes list \<Rightarrow> ('b, bytes list) op"
where
  "stage_blocks st i op dest n [] block_list = sm_return block_list"
| "stage_blocks st i op dest n (src # rest) block_list =
     sm_bind (azure_get st i op src) (\<lambda>data.
     sm_bind (azure_send i op (az_put_block (az_container st) dest (block_id_for_index n) data)) (\<lambda>_.
     stage_blocks st i op dest (n + 1) rest (block_list @ [block_id_for_index n])))"

definition commit_blob_names_to_dest ::
  "'b azure_store \<Rightarrow> upload_id \<Rightarrow> string \<Rightarrow> string \<Rightarrow> string list \<Rightarrow> ('b, unit) op" where
  "commit_blob_names_to_dest st i op dest sources =
     (if sources = [] then sm_return ()
      else
        sm_bind (stage_blocks st i op dest 0 sources []) (\<lambda>block_list.
        azure_send i op (az_put_block_list (az_container st) dest block_list)))"

definition commit_and_delete_sources ::
  "'b azure_store \<Rightarrow> upload_id \<Rightarrow> string \<Rightarrow> string \<Rightarrow> string list \<Rightarrow> ('b, unit) op" where
  "commit_and_delete_sources st i op dest sources =
     sm_bind (commit_blob_names_to_dest st i op dest sources) (\<lambda>_ b.
       (Inr (), fold (azure_delete_key st) sources b))"

definition azure_tmp_key :: "string \<Rightarrow> upload_id \<Rightarrow> u32 \<Rightarrow> string" where
  "azure_tmp_key pre i k = pre @ as_str i @ ''_tmp_'' @ dec (unat k)"

definition saturating_inc :: "u32 \<Rightarrow> u32" where
  "saturating_inc k = (if k = - 1 then k else k + 1)"

text \<open>The values the counter takes for \<open>n\<close> groups; the counter after them is the next one.\<close>

fun counters :: "u32 \<Rightarrow> nat \<Rightarrow> u32 list" where
  "counters k 0 = []"
| "counters k (Suc n) = k # counters (saturating_inc k) n"

text \<open>
  The \<open>while\<close> of \<open>commit_many_blobs\<close>. Each round commits every group to a temporary blob; their names
  depend on the counter only and are the sources of the next round.
\<close>

lemma length_counters [simp]: "length (counters k n) = n"
  by (induction n arbitrary: k) simp_all

function commit_rounds ::
  "'b azure_store \<Rightarrow> upload_id \<Rightarrow> string \<Rightarrow> string \<Rightarrow> u32 \<Rightarrow> string list \<Rightarrow> ('b, unit) op" where
  "commit_rounds st i op dest tmp_counter sources =
     (if length sources \<le> MAX_COMMIT_SOURCES
      then commit_and_delete_sources st i op dest sources
      else
        (let groups = chunks MAX_COMMIT_SOURCES sources;
             nxt = map (azure_tmp_key (az_prefix st) i) (counters tmp_counter (length groups))
         in sm_bind (sm_for (zip nxt groups) (\<lambda>(tmp, group).
                       commit_and_delete_sources st i op tmp group)) (\<lambda>_.
            commit_rounds st i op dest ((saturating_inc ^^ length groups) tmp_counter) nxt)))"
  by pat_completeness auto
termination
proof (relation "measure (\<lambda>(st, i, op, dest, k, sources). length sources)", goal_cases)
  case (2 st i op dest k sources groups nxt u)
  then show ?case
    using length_chunks [of 32 sources] by (simp add: MAX_COMMIT_SOURCES_def)
qed simp

declare commit_rounds.simps [simp del]

definition commit_many_blobs ::
  "'b azure_store \<Rightarrow> upload_id \<Rightarrow> string \<Rightarrow> string list \<Rightarrow> string \<Rightarrow> ('b, unit) op" where
  "commit_many_blobs st i dest sources op =
     (if sources = [] then sm_return () else commit_rounds st i op dest 0 sources)"

section \<open>The operations\<close>

definition azure_put_part :: "'b azure_store \<Rightarrow> upload_id \<Rightarrow> string \<Rightarrow> bytes \<Rightarrow> ('b, unit) op" where
  "azure_put_part st i key d = azure_put st i ''write part'' key d"

definition azure_put_empty :: "'b azure_store \<Rightarrow> upload_id \<Rightarrow> string \<Rightarrow> ('b, unit) op" where
  "azure_put_empty st i key = azure_put st i ''write empty final'' key []"

definition azure_download :: "'b azure_store \<Rightarrow> upload_id \<Rightarrow> string \<Rightarrow> ('b, reader) op" where
  "azure_download st i key =
     sm_bind (azure_get st i ''read download'' key) (\<lambda>buf. sm_return [Chunk buf])"

lemmas azure_call_defs = azure_put_part_def azure_put_empty_def azure_download_def

definition azure_calls :: "json_codec \<Rightarrow> 'b azure_store \<Rightarrow> 'b object_calls" where
  "azure_calls js st =
     \<lparr>oc_read_info = azure_read_info js st, oc_write_info = azure_write_info js st,
      oc_list_parts = azure_list_parts st, oc_put_part = azure_put_part st,
      oc_put_empty = azure_put_empty st, oc_get_data = azure_download st,
      oc_assemble = commit_many_blobs st, oc_delete = azure_delete_key st\<rparr>"

definition azure_create_upload :: "json_codec \<Rightarrow> 'b azure_store \<Rightarrow> upload_info \<Rightarrow> ('b, upload_id) op" where
  "azure_create_upload js st = object_create_upload (azure_calls js st)"

definition azure_get_upload :: "json_codec \<Rightarrow> 'b azure_store \<Rightarrow> upload_id \<Rightarrow> ('b, upload_id) op" where
  "azure_get_upload js st = object_get_upload (azure_calls js st)"

definition azure_write_chunk ::
  "json_codec \<Rightarrow> 'b azure_store \<Rightarrow> upload_id \<Rightarrow> u64 \<Rightarrow> reader \<Rightarrow> ('b, u64) op" where
  "azure_write_chunk js st = object_write_chunk (az_prefix st) (azure_calls js st)"

definition azure_read_content :: "json_codec \<Rightarrow> 'b azure_store \<Rightarrow> upload_id \<Rightarrow> ('b, reader) op" where
  "azure_read_content js st = object_read_content (az_prefix st) (azure_calls js st)"

definition azure_finalize :: "json_codec \<Rightarrow> 'b azure_store \<Rightarrow> upload_id \<Rightarrow> ('b, unit) op" where
  "azure_finalize js st = object_finalize (az_prefix st) (azure_calls js st)"

definition azure_delete :: "json_codec \<Rightarrow> 'b azure_store \<Rightarrow> upload_id \<Rightarrow> ('b, unit) op" where
  "azure_delete js st = object_delete (az_prefix st) (azure_calls js st)"

definition azure_declare_length ::
  "json_codec \<Rightarrow> 'b azure_store \<Rightarrow> upload_id \<Rightarrow> u64 \<Rightarrow> ('b, unit) op" where
  "azure_declare_length js st = object_declare_length (azure_calls js st)"

definition azure_concatenate ::
  "json_codec \<Rightarrow> 'b azure_store \<Rightarrow> upload_id \<Rightarrow> upload_info list \<Rightarrow> ('b, unit) op" where
  "azure_concatenate js st = object_concatenate (az_prefix st) (azure_calls js st)"

definition azure_ops :: "json_codec \<Rightarrow> 'b azure_store \<Rightarrow> 'b datastore" where
  "azure_ops js st =
     \<lparr>ds_create_upload = azure_create_upload js st, ds_get_upload = azure_get_upload js st,
      up_write_chunk = azure_write_chunk js st, up_get_info = azure_read_info js st,
      up_finalize = azure_finalize js st, up_delete = azure_delete js st,
      up_declare_length = azure_declare_length js st, up_concatenate = azure_concatenate js st,
      up_read_content = azure_read_content js st\<rparr>"

lemma azure_ops_eq: "azure_ops js st = object_ops (az_prefix st) (azure_calls js st)"
  by (simp add: azure_ops_def object_ops_def azure_create_upload_def azure_get_upload_def
      azure_write_chunk_def azure_finalize_def azure_delete_def azure_declare_length_def
      azure_concatenate_def azure_read_content_def azure_calls_def)

end
