(* ===== verification/Azure_Laws.thy ===== *)
theory Azure_Laws
  imports Azure_Store Object_Laws
begin

text \<open>
  The Azure store on a service that behaves as documented: a committed list of staged blocks makes a
  blob of them, one after another. From this committing in rounds of 32 assembles any number of
  sources, and the store meets the contract \<open>object_backend\<close>.
\<close>

section \<open>The service\<close>

text \<open>\<open>bl b k\<close> are the blocks staged for the blob \<open>k\<close>, by block identifier.\<close>

definition azure_service_ok ::
  "'b azure_client \<Rightarrow> ('b \<Rightarrow> string \<Rightarrow> bytes option) \<Rightarrow> ('b \<Rightarrow> string \<Rightarrow> bytes \<Rightarrow> bytes option)
     \<Rightarrow> ('b \<Rightarrow> bool) \<Rightarrow> bool" where
  "azure_service_ok cl objs bl ok \<longleftrightarrow>
     (\<forall>b k d r b'. ok b \<longrightarrow> az_put_block_blob cl k d b = (r, b') \<longrightarrow>
        ok b' \<and> objs b' = (case r of Inr u \<Rightarrow> (objs b)(k \<mapsto> d) | Inl e \<Rightarrow> objs b))
     \<and> (\<forall>b k. ok b \<longrightarrow>
          (case objs b k of
             Some d \<Rightarrow> az_get_content cl k b = Inr d
           | None \<Rightarrow> (\<exists>e. az_get_content cl k b = Inl e \<and> azure_is_not_found e)))
     \<and> (\<forall>b p pages. ok b \<longrightarrow> p \<noteq> [] \<longrightarrow> az_list_blobs cl p b = map Inr pages \<longrightarrow>
          below_prefix objs b p (concat pages))
     \<and> (\<forall>b k r b'. ok b \<longrightarrow> az_delete_blob cl k b = (r, b') \<longrightarrow>
          ok b' \<and> objs b' = (objs b)(k := None))
     \<and> (\<forall>b k n d r b'. ok b \<longrightarrow> az_put_block cl k n d b = (r, b') \<longrightarrow>
          ok b' \<and> objs b' = objs b \<and> (\<forall>u. r = Inr u \<longrightarrow> bl b' k = (bl b k)(n \<mapsto> d)))
     \<and> (\<forall>b k ns r b'. ok b \<longrightarrow> az_put_block_list cl k ns b = (r, b') \<longrightarrow>
          ok b'
          \<and> (case r of
               Inl e \<Rightarrow> objs b' = objs b
             | Inr u \<Rightarrow> (\<exists>ds. map (bl b k) ns = map Some ds \<and> objs b' = (objs b)(k \<mapsto> concat ds))))"

abbreviation azure_up ::
  "'b azure_store \<Rightarrow> ('b \<Rightarrow> string \<Rightarrow> bytes option) \<Rightarrow> ('b \<Rightarrow> string \<Rightarrow> bytes \<Rightarrow> bytes option)
     \<Rightarrow> ('b \<Rightarrow> bool) \<Rightarrow> 'b \<Rightarrow> bool" where
  "azure_up st objs bl ok b \<equiv> azure_service_ok (az_container st) objs bl ok \<and> ok b"

lemma azure_serviceD:
  assumes "azure_up st objs bl ok b"
  shows azure_put_law: "az_put_block_blob (az_container st) k d b = (r, b') \<Longrightarrow>
      ok b' \<and> objs b' = (case r of Inr u \<Rightarrow> (objs b)(k \<mapsto> d) | Inl e \<Rightarrow> objs b)"
    and azure_get_law: "case objs b k of
             Some d \<Rightarrow> az_get_content (az_container st) k b = Inr d
           | None \<Rightarrow> (\<exists>e. az_get_content (az_container st) k b = Inl e \<and> azure_is_not_found e)"
    and azure_list_law: "p \<noteq> [] \<Longrightarrow> az_list_blobs (az_container st) p b = map Inr pages \<Longrightarrow>
      below_prefix objs b p (concat pages)"
    and azure_delete_law: "az_delete_blob (az_container st) k b = (r, b') \<Longrightarrow>
      ok b' \<and> objs b' = (objs b)(k := None)"
    and azure_block_law: "az_put_block (az_container st) k n d b = (r, b') \<Longrightarrow>
      ok b' \<and> objs b' = objs b \<and> (\<forall>u. r = Inr u \<longrightarrow> bl b' k = (bl b k)(n \<mapsto> d))"
    and azure_commit_law: "az_put_block_list (az_container st) k ns b = (r, b') \<Longrightarrow>
      ok b' \<and> (case r of
               Inl e \<Rightarrow> objs b' = objs b
             | Inr u \<Rightarrow> (\<exists>ds. map (bl b k) ns = map Some ds \<and> objs b' = (objs b)(k \<mapsto> concat ds)))"
proof -
  note ok = conjunct2 [OF assms]
  note L = conjunct1 [OF assms, unfolded azure_service_ok_def]
  show "az_put_block_blob (az_container st) k d b = (r, b') \<Longrightarrow>
      ok b' \<and> objs b' = (case r of Inr u \<Rightarrow> (objs b)(k \<mapsto> d) | Inl e \<Rightarrow> objs b)"
    using L [THEN conjunct1] ok by blast
  show "case objs b k of
             Some d \<Rightarrow> az_get_content (az_container st) k b = Inr d
           | None \<Rightarrow> (\<exists>e. az_get_content (az_container st) k b = Inl e \<and> azure_is_not_found e)"
    using L [THEN conjunct2, THEN conjunct1] ok by blast
  show "p \<noteq> [] \<Longrightarrow> az_list_blobs (az_container st) p b = map Inr pages \<Longrightarrow>
      below_prefix objs b p (concat pages)"
    using L [THEN conjunct2, THEN conjunct2, THEN conjunct1] ok by blast
  show "az_delete_blob (az_container st) k b = (r, b') \<Longrightarrow> ok b' \<and> objs b' = (objs b)(k := None)"
    using L [THEN conjunct2, THEN conjunct2, THEN conjunct2, THEN conjunct1] ok by blast
  show "az_put_block (az_container st) k n d b = (r, b') \<Longrightarrow>
      ok b' \<and> objs b' = objs b \<and> (\<forall>u. r = Inr u \<longrightarrow> bl b' k = (bl b k)(n \<mapsto> d))"
    using L [THEN conjunct2, THEN conjunct2, THEN conjunct2, THEN conjunct2, THEN conjunct1] ok by blast
  show "az_put_block_list (az_container st) k ns b = (r, b') \<Longrightarrow>
      ok b' \<and> (case r of
               Inl e \<Rightarrow> objs b' = objs b
             | Inr u \<Rightarrow> (\<exists>ds. map (bl b k) ns = map Some ds \<and> objs b' = (objs b)(k \<mapsto> concat ds)))"
    using L [THEN conjunct2, THEN conjunct2, THEN conjunct2, THEN conjunct2, THEN conjunct2] ok by blast
qed

section \<open>Requests\<close>

lemma azure_put_result:
  assumes "azure_up st objs bl ok b" and "azure_put st i op k d b = (r, b')"
  shows "azure_up st objs bl ok b' \<and> put_result objs k d b r b'"
proof -
  obtain pr b1 where p: "az_put_block_blob (az_container st) k d b = (pr, b1)" by fastforce
  from azure_put_law [OF assms(1) p] p assms show ?thesis
    by (cases pr) (auto simp: azure_put_def azure_send_def put_result_def)
qed

lemma azure_get_some:
  assumes "azure_up st objs bl ok b" and "objs b k = Some d"
  shows "azure_get st i op k b = (Inr d, b)"
  using azure_get_law [OF assms(1), of k] assms(2) by (simp add: azure_get_def)

lemma azure_get_none:
  assumes "azure_up st objs bl ok b" and "objs b k = None"
  shows "azure_get st i op k b = (Inl (NotFound (as_str i)), b)"
  using azure_get_law [OF assms(1), of k] assms(2) by (auto simp: azure_get_def azure_err_def)

lemma azure_delete_effect:
  assumes "azure_up st objs bl ok b"
  shows "azure_up st objs bl ok (azure_delete_key st k b)"
    and "objs (azure_delete_key st k b) = (objs b)(k := None)"
proof -
  obtain r b' where "az_delete_blob (az_container st) k b = (r, b')" by fastforce
  with azure_delete_law [OF assms this] assms
  show "azure_up st objs bl ok (azure_delete_key st k b)" "objs (azure_delete_key st k b) = (objs b)(k := None)"
    by (simp_all add: azure_delete_key_def)
qed

lemma azure_deletes_effect:
  "azure_up st objs bl ok b \<Longrightarrow> azure_up st objs bl ok (fold (azure_delete_key st) ks b)
    \<and> objs (fold (azure_delete_key st) ks b) = (\<lambda>k. if k \<in> set ks then None else objs b k)"
proof (induction ks arbitrary: b)
  case (Cons k ks)
  note d = azure_delete_effect [OF Cons.prems, of k]
  from Cons.IH [OF d(1)] show ?case by (auto simp: d(2) fun_eq_iff)
qed simp

lemma azure_pages_ok:
  "azure_pages i pages names = Inr ks \<Longrightarrow>
     \<exists>ps. pages = map Inr ps \<and> ks = names @ filter (\<lambda>n. n \<noteq> []) (concat ps)"
proof (induction i pages names rule: azure_pages.induct)
  case (1 i names)
  then show ?case by (intro exI [of _ "[]"]) simp
next
  case (3 i blobs r names)
  then obtain ps where "r = map Inr ps" "ks = (names @ filter (\<lambda>n. n \<noteq> []) blobs) @ filter (\<lambda>n. n \<noteq> []) (concat ps)"
    by auto
  then show ?case by (intro exI [of _ "blobs # ps"]) simp
qed simp

lemma azure_list_result:
  assumes "azure_up st objs bl ok b" and "azure_list_parts st i b = (r, b')"
  shows "b' = b \<and> (\<forall>ks. r = Inr ks \<longrightarrow>
    (\<exists>l. below_prefix objs b (part_prefix (az_prefix st) i) l \<and> ks = sort_key key_index l))"
proof -
  let ?p = "part_prefix (az_prefix st) i"
  have ne: "?p \<noteq> []" by (simp add: part_prefix_def)
  have "\<exists>l. below_prefix objs b ?p l \<and> ks = sort_key key_index l" if "r = Inr ks" for ks
  proof -
    from assms(2) that obtain l where l: "azure_pages i (az_list_blobs (az_container st) ?p b) [] = Inr l"
      "ks = sort_key key_index l"
      by (cases "azure_pages i (az_list_blobs (az_container st) ?p b) []") (auto simp: azure_list_parts_def)
    from azure_pages_ok [OF l(1)] obtain ps where ps: "az_list_blobs (az_container st) ?p b = map Inr ps"
      "l = filter (\<lambda>n. n \<noteq> []) (concat ps)" by auto
    note below = azure_list_law [OF assms(1) ne ps(1)]
    then have "\<forall>n \<in> set (concat ps). n \<noteq> []" using ne unfolding below_prefix_def by (metis prefix_bot.extremum_uniqueI)
    then have "l = concat ps" using ps(2) by (simp add: filter_id_conv)
    with below l(2) show ?thesis by blast
  qed
  with assms(2) show ?thesis by (auto simp: azure_list_parts_def)
qed

section \<open>Committing\<close>

lemma block_ids_distinct:
  assumes "n < 2 ^ 8" and "m < 2 ^ 8" and "block_id_for_index (word_of_nat n) = block_id_for_index (word_of_nat m)"
  shows "n = m"
proof -
  have last: "last (block_id_for_index (word_of_nat k)) = char_of k" if "k < 2 ^ 8" for k
  proof -
    have "unat (word_of_nat k :: u64) = k" using that by (simp add: unat_of_nat)
    with that show ?thesis by (simp add: block_id_for_index_def)
  qed
  have "(char_of n :: char) = char_of m" using last [OF assms(1)] last [OF assms(2)] assms(3) by simp
  then have "(of_char (char_of n :: char) :: nat) = of_char (char_of m :: char)" by simp
  with assms(1,2) show ?thesis by (simp add: of_char_of)
qed

lemma stage_blocks_frame:
  "azure_up st objs bl ok b \<Longrightarrow> stage_blocks st i op dest n srcs ids b = (r, b') \<Longrightarrow>
     azure_up st objs bl ok b' \<and> objs b' = objs b"
proof (induction srcs arbitrary: n ids b)
  case Nil
  then show ?case by (simp add: sm_return_def)
next
  case (Cons src rest)
  show ?case
  proof (cases "objs b src")
    case None
    with Cons.prems azure_get_none [OF Cons.prems(1) None] show ?thesis by (simp add: sm_bind_def)
  next
    case (Some d)
    obtain pr b1 where p: "az_put_block (az_container st) dest (block_id_for_index n) d b = (pr, b1)" by fastforce
    note law = azure_block_law [OF Cons.prems(1) p]
    have up1: "azure_up st objs bl ok b1" using law Cons.prems(1) by simp
    show ?thesis
    proof (cases pr)
      case (Inl e)
      with Cons.prems(2) azure_get_some [OF Cons.prems(1) Some] p have "b' = b1"
        by (simp add: sm_bind_def azure_send_def)
      with up1 law show ?thesis by simp
    next
      case (Inr u)
      with Cons.prems(2) azure_get_some [OF Cons.prems(1) Some] p
      have "stage_blocks st i op dest (n + 1) rest (ids @ [block_id_for_index n]) b1 = (r, b')"
        by (simp add: sm_bind_def azure_send_def)
      from Cons.IH [OF up1 this] law show ?thesis by simp
    qed
  qed
qed

lemma stage_blocks_effect:
  "azure_up st objs bl ok b \<Longrightarrow> stage_blocks st i op dest (word_of_nat n) srcs ids b = (r, b') \<Longrightarrow>
     n + length srcs \<le> 2 ^ 8 \<Longrightarrow>
     azure_up st objs bl ok b' \<and> objs b' = objs b
     \<and> (\<forall>out. r = Inr out \<longrightarrow>
          out = ids @ map (\<lambda>k. block_id_for_index (word_of_nat k)) [n ..< n + length srcs]
          \<and> (\<exists>ds. map (objs b) srcs = map Some ds
               \<and> map (bl b' dest) (map (\<lambda>k. block_id_for_index (word_of_nat k)) [n ..< n + length srcs]) = map Some ds)
          \<and> (\<forall>m < n. bl b' dest (block_id_for_index (word_of_nat m)) = bl b dest (block_id_for_index (word_of_nat m))))"
proof (induction srcs arbitrary: n ids b)
  case Nil
  then show ?case by (auto simp: sm_return_def)
next
  case (Cons src rest)
  let ?id = "\<lambda>k. block_id_for_index (word_of_nat k)"
  show ?case
  proof (cases "objs b src")
    case None
    with Cons.prems(2) azure_get_none [OF Cons.prems(1) None] have "r = Inl (NotFound (as_str i))" "b' = b"
      by (simp_all add: sm_bind_def)
    with Cons.prems(1) show ?thesis by simp
  next
    case (Some d)
    obtain pr b1 where p: "az_put_block (az_container st) dest (?id n) d b = (pr, b1)" by fastforce
    note law = azure_block_law [OF Cons.prems(1) p]
    have up1: "azure_up st objs bl ok b1" using law Cons.prems(1) by simp
    have run: "stage_blocks st i op dest (word_of_nat n) (src # rest) ids b =
      (case pr of Inl e \<Rightarrow> (Inl (azure_err i op e), b1)
       | Inr u \<Rightarrow> stage_blocks st i op dest (word_of_nat (Suc n)) rest (ids @ [?id n]) b1)"
      using azure_get_some [OF Cons.prems(1) Some] p
      by (cases pr) (simp_all add: sm_bind_def azure_send_def add.commute)
    show ?thesis
    proof (cases pr)
      case (Inl e)
      with run Cons.prems(2) have "r = Inl (azure_err i op e)" "b' = b1" by simp_all
      with up1 law show ?thesis by simp
    next
      case (Inr u)
      have n: "Suc n + length rest \<le> 2 ^ 8" using Cons.prems(3) by simp
      from Cons.IH [OF up1 _ n, of "ids @ [?id n]"] run Inr Cons.prems(2)
      have ih: "azure_up st objs bl ok b'" "objs b' = objs b1"
        "\<And>out. r = Inr out \<Longrightarrow> out = (ids @ [?id n]) @ map ?id [Suc n ..< Suc n + length rest]
          \<and> (\<exists>ds. map (objs b1) rest = map Some ds
               \<and> map (bl b' dest) (map ?id [Suc n ..< Suc n + length rest]) = map Some ds)
          \<and> (\<forall>m < Suc n. bl b' dest (?id m) = bl b1 dest (?id m))" by auto
      have bl1: "bl b1 dest = (bl b dest)(?id n \<mapsto> d)" using law Inr by blast
      have "out = ids @ map ?id [n ..< n + length (src # rest)]
          \<and> (\<exists>ds. map (objs b) (src # rest) = map Some ds
               \<and> map (bl b' dest) (map ?id [n ..< n + length (src # rest)]) = map Some ds)
          \<and> (\<forall>m < n. bl b' dest (?id m) = bl b dest (?id m))" if "r = Inr out" for out
      proof -
        from ih(3) [OF that] obtain ds where ds: "out = (ids @ [?id n]) @ map ?id [Suc n ..< Suc n + length rest]"
          "map (objs b1) rest = map Some ds"
          "map (bl b' dest) (map ?id [Suc n ..< Suc n + length rest]) = map Some ds"
          "\<And>m. m < Suc n \<Longrightarrow> bl b' dest (?id m) = bl b1 dest (?id m)" by blast
        have up: "[n ..< n + length (src # rest)] = n # [Suc n ..< Suc n + length rest]"
          by (subst upt_conv_Cons) simp_all
        have "bl b' dest (?id n) = Some d" using ds(4) [of n] bl1 by simp
        moreover have "bl b' dest (?id m) = bl b dest (?id m)" if "m < n" for m
          using ds(4) [of m] that bl1 block_ids_distinct [of m n] Cons.prems(3) by auto
        ultimately show ?thesis
          using ds(1-3) Some law unfolding up by (intro conjI exI [of _ "d # ds"]) simp_all
      qed
      with ih(1,2) law show ?thesis by simp
    qed
  qed
qed

lemma commit_effect:
  assumes "azure_up st objs bl ok b" and "commit_and_delete_sources st i op dest srcs b = (r, b')"
  shows "azure_up st objs bl ok b' \<and> (\<forall>k. objs b' k \<noteq> objs b k \<longrightarrow> k = dest \<or> k \<in> set srcs)"
    and "r = Inr () \<Longrightarrow> srcs \<noteq> [] \<Longrightarrow> length srcs \<le> 32 \<Longrightarrow> dest \<notin> set srcs \<Longrightarrow> assembled_from objs dest srcs b b'"
proof -
  have "(azure_up st objs bl ok b' \<and> (\<forall>k. objs b' k \<noteq> objs b k \<longrightarrow> k = dest \<or> k \<in> set srcs))
    \<and> (r = Inr () \<longrightarrow> srcs \<noteq> [] \<longrightarrow> length srcs \<le> 32 \<longrightarrow> dest \<notin> set srcs \<longrightarrow>
         assembled_from objs dest srcs b b')"
  proof (cases "srcs = []")
    case True
    with assms show ?thesis
      by (simp add: commit_and_delete_sources_def commit_blob_names_to_dest_def sm_bind_def sm_return_def)
  next
    case False
    obtain sr b1 where s: "stage_blocks st i op dest 0 srcs [] b = (sr, b1)" by fastforce
    from stage_blocks_effect [OF assms(1), of i op dest 0 srcs "[]" sr b1] s stage_blocks_frame [OF assms(1) s]
    have st: "azure_up st objs bl ok b1" "objs b1 = objs b"
      "\<And>out. sr = Inr out \<Longrightarrow> length srcs \<le> 32 \<Longrightarrow> \<exists>ds. map (objs b) srcs = map Some ds \<and> map (bl b1 dest) out = map Some ds"
      by auto
    show ?thesis
    proof (cases sr)
      case (Inl e)
      with s False assms(2) have "r = Inl e" "b' = b1"
        by (simp_all add: commit_and_delete_sources_def commit_blob_names_to_dest_def sm_bind_def)
      with st show ?thesis by simp
    next
      case (Inr out)
      obtain cr b2 where c: "az_put_block_list (az_container st) dest out b1 = (cr, b2)" by fastforce
      note law = azure_commit_law [OF st(1) c]
      have up2: "azure_up st objs bl ok b2" using law st(1) by simp
      have run: "(r, b') = (case cr of Inl e \<Rightarrow> (Inl (azure_err i op e), b2)
          | Inr u \<Rightarrow> (Inr (), fold (azure_delete_key st) srcs b2))"
        using s Inr c False assms(2)
        by (cases cr) (simp_all add: commit_and_delete_sources_def commit_blob_names_to_dest_def
            sm_bind_def azure_send_def)
      show ?thesis
      proof (cases cr)
        case e: (Inl e)
        with run up2 law st(2) show ?thesis by simp
      next
        case u: (Inr u)
        with law obtain es where es: "map (bl b1 dest) out = map Some es" "objs b2 = (objs b1)(dest \<mapsto> concat es)"
          by auto
        have ds: "map (objs b) srcs = map Some es" if "length srcs \<le> 32" using st(3) [OF Inr that] es(1) by auto
        have objs2: "objs b2 = (objs b)(dest \<mapsto> concat es)" using es(2) st(2) by simp
        have rb: "r = Inr ()" "b' = fold (azure_delete_key st) srcs b2" using run u by simp_all
        show ?thesis
          unfolding rb using azure_deletes_effect [OF up2, of srcs] objs2 ds
          by (auto simp: assembled_from_def)
      qed
    qed
  qed
  then show "azure_up st objs bl ok b' \<and> (\<forall>k. objs b' k \<noteq> objs b k \<longrightarrow> k = dest \<or> k \<in> set srcs)"
    and "r = Inr () \<Longrightarrow> srcs \<noteq> [] \<Longrightarrow> length srcs \<le> 32 \<Longrightarrow> dest \<notin> set srcs \<Longrightarrow>
      assembled_from objs dest srcs b b'"
    by blast+
qed

section \<open>Rounds\<close>

abbreviation tmp_at :: "'b azure_store \<Rightarrow> upload_id \<Rightarrow> nat \<Rightarrow> string" where
  "tmp_at st i k \<equiv> az_prefix st @ tmp_name i k"

lemma azure_tmp_key_eq: "azure_tmp_key (az_prefix st) i c = tmp_at st i (unat c)"
  by (simp add: azure_tmp_key_def tmp_name_def)

lemma tmp_name_inj: "tmp_name i k = tmp_name i l \<Longrightarrow> k = l"
  by (auto simp: tmp_name_def dest: arg_cong [where f = digits_val])

text \<open>As long as the counter does not saturate, the names are those of consecutive numbers.\<close>

lemma counters_run:
  "unat c + n < 2 ^ 32 \<Longrightarrow>
     map unat (counters c n) = [unat c ..< unat c + n] \<and> unat ((saturating_inc ^^ n) c) = unat c + n"
proof (induction n arbitrary: c)
  case (Suc n)
  have "unat (c + 1) = unat c + 1"
    using Suc.prems by (subst unat_add_lem [THEN iffD1]) simp_all
  moreover have "c \<noteq> - 1" using Suc.prems by (auto simp: unsigned_minus_1_eq_mask mask_eq_exp_minus_1)
  ultimately have inc: "unat (saturating_inc c) = unat c + 1" by (simp add: saturating_inc_def)
  from Suc.IH [of "saturating_inc c"] Suc.prems inc
  have ih: "map unat (counters (saturating_inc c) n) = [unat c + 1 ..< unat c + 1 + n]"
    "unat ((saturating_inc ^^ n) (saturating_inc c)) = unat c + 1 + n" by simp_all
  have "[unat c ..< unat c + Suc n] = unat c # [unat c + 1 ..< unat c + 1 + n]"
    by (subst upt_conv_Cons) simp_all
  with ih show ?case by (simp add: funpow_swap1)
qed simp

lemma round_names:
  assumes "unat c + n < 2 ^ 32"
  shows "map (azure_tmp_key (az_prefix st) i) (counters c n) = map (tmp_at st i) [unat c ..< unat c + n]"
proof -
  have "map (azure_tmp_key (az_prefix st) i) (counters c n) = map (tmp_at st i) (map unat (counters c n))"
    by (simp add: azure_tmp_key_eq comp_def)
  then show ?thesis using counters_run [OF assms] by simp
qed

text \<open>One round: every group into its intermediate blob.\<close>

abbreviation commit_group :: "'b azure_store \<Rightarrow> upload_id \<Rightarrow> string \<Rightarrow> string \<times> string list \<Rightarrow> ('b, unit) op" where
  "commit_group st i op \<equiv> (\<lambda>(tmp, group). commit_and_delete_sources st i op tmp group)"

lemma commit_group_frame:
  assumes "azure_up st objs bl ok b" and "commit_group st i op (t, g) b = (r, b')"
  shows "azure_up st objs bl ok b' \<and> (\<forall>k. objs b' k \<noteq> objs b k \<longrightarrow> k = t \<or> k \<in> set g)"
  using commit_effect(1) [OF assms(1), of i op t g r b'] assms(2) by simp

lemma commit_rounds_frame:
  "azure_up st objs bl ok b \<Longrightarrow> commit_rounds st i op dest c srcs b = (r, b') \<Longrightarrow>
     azure_up st objs bl ok b'
     \<and> (\<forall>k. objs b' k \<noteq> objs b k \<longrightarrow> k = dest \<or> k \<in> set srcs \<or> k \<in> range (tmp_at st i))"
proof (induction st i op dest c srcs arbitrary: b rule: commit_rounds.induct)
  case (1 st i op dest c srcs)
  show ?case
  proof (cases "length srcs \<le> MAX_COMMIT_SOURCES")
    case True
    with 1(3) have "commit_and_delete_sources st i op dest srcs b = (r, b')"
      by (simp add: commit_rounds.simps [of st i op dest c srcs])
    from commit_effect(1) [OF 1(2) this] show ?thesis by blast
  next
    case False
    let ?gs = "chunks MAX_COMMIT_SOURCES srcs"
    let ?nxt = "map (azure_tmp_key (az_prefix st) i) (counters c (length ?gs))"
    obtain fr b1 where f: "sm_for (zip ?nxt ?gs) (commit_group st i op) b = (fr, b1)" by fastforce
    have "azure_up st objs bl ok b1 \<and> (\<forall>k. objs b1 k \<noteq> objs b k \<longrightarrow>
        k \<in> set (map fst (zip ?nxt ?gs)) \<or> k \<in> set (concat (map snd (zip ?nxt ?gs))))"
      by (rule for_groups_frame [where svc = "azure_up st objs bl ok" and objs = objs, OF _ 1(2) f])
         (rule commit_group_frame)
    moreover have names: "set ?nxt \<subseteq> range (tmp_at st i)" by (auto simp: azure_tmp_key_eq)
    moreover have "concat ?gs = srcs" by (simp add: concat_chunks MAX_COMMIT_SOURCES_def)
    ultimately have b1: "azure_up st objs bl ok b1"
      "\<And>k. objs b1 k \<noteq> objs b k \<Longrightarrow> k \<in> set srcs \<or> k \<in> range (tmp_at st i)"
      by (auto simp: subset_iff)
    show ?thesis
    proof (cases fr)
      case (Inl e)
      with 1(3) f False have "b' = b1"
        by (simp add: commit_rounds.simps [of st i op dest c srcs] Let_def sm_bind_def)
      with b1 show ?thesis by auto
    next
      case (Inr u)
      with 1(3) f False have rec: "commit_rounds st i op dest ((saturating_inc ^^ length ?gs) c) ?nxt b1 = (r, b')"
        by (simp add: commit_rounds.simps [of st i op dest c srcs] Let_def sm_bind_def)
      from 1(1) [OF False refl refl b1(1) rec] have
        r: "azure_up st objs bl ok b'" "\<And>k. objs b' k \<noteq> objs b1 k \<Longrightarrow>
          k = dest \<or> k \<in> set ?nxt \<or> k \<in> range (tmp_at st i)" by blast+
      have "k = dest \<or> k \<in> set srcs \<or> k \<in> range (tmp_at st i)" if "objs b' k \<noteq> objs b k" for k
        using that r(2) [of k] b1(2) [of k] names by (cases "objs b' k = objs b1 k") auto
      with r(1) show ?thesis by blast
    qed
  qed
qed

text \<open>
  All rounds. The intermediate blobs of a round are numbered from the counter on, above those of the
  rounds before; a round makes at most half as many as it consumes, so the counter stays below its
  start plus the number of sources.
\<close>

lemma commit_rounds_ok:
  "azure_up st objs bl ok b \<Longrightarrow> commit_rounds st i op dest c srcs b = (Inr (), b') \<Longrightarrow>
     srcs \<noteq> [] \<Longrightarrow> distinct srcs \<Longrightarrow> dest \<notin> set srcs \<Longrightarrow> dest \<notin> range (tmp_at st i) \<Longrightarrow>
     (\<And>j. tmp_at st i j \<in> set srcs \<Longrightarrow> j < unat c) \<Longrightarrow> unat c + length srcs < 2 ^ 32 \<Longrightarrow>
     assembled_from objs dest srcs b b'
     \<and> (\<forall>k. objs b' k \<noteq> objs b k \<longrightarrow> k = dest \<or> k \<in> set srcs \<or> (\<exists>j \<ge> unat c. k = tmp_at st i j))"
proof (induction st i op dest c srcs arbitrary: b rule: commit_rounds.induct)
  case (1 st i op dest c srcs)
  show ?case
  proof (cases "length srcs \<le> MAX_COMMIT_SOURCES")
    case True
    with 1(3) have "commit_and_delete_sources st i op dest srcs b = (Inr (), b')"
      by (simp add: commit_rounds.simps [of st i op dest c srcs])
    from commit_effect(2) [OF 1(2) this refl 1(4) _ 1(6)] commit_effect(1) [OF 1(2) this] True
    show ?thesis by (auto simp: MAX_COMMIT_SOURCES_def)
  next
    case False
    let ?gs = "chunks MAX_COMMIT_SOURCES srcs"
    let ?nxt = "map (azure_tmp_key (az_prefix st) i) (counters c (length ?gs))"
    let ?c = "(saturating_inc ^^ length ?gs) c"
    have few: "2 * length ?gs \<le> length srcs" and pos: "?gs \<noteq> []"
      using False length_chunks [of 32 srcs] 1(4)
      by (simp_all add: MAX_COMMIT_SOURCES_def chunks.simps [of 32 srcs])
    have below: "unat c + length ?gs < 2 ^ 32" using few 1(9) by linarith
    note nxt = round_names [OF below, of st i]
    have join: "concat ?gs = srcs" by (simp add: concat_chunks MAX_COMMIT_SOURCES_def)
    have zip: "map fst (zip ?nxt ?gs) = ?nxt" "map snd (zip ?nxt ?gs) = ?gs" by simp_all
    obtain fr b1 where f: "sm_for (zip ?nxt ?gs) (commit_group st i op) b = (fr, b1)" by fastforce
    have "azure_up st objs bl ok b1 \<and> (\<forall>k. objs b1 k \<noteq> objs b k \<longrightarrow>
        k \<in> set (map fst (zip ?nxt ?gs)) \<or> k \<in> set (concat (map snd (zip ?nxt ?gs))))"
      by (rule for_groups_frame [where svc = "azure_up st objs bl ok" and objs = objs, OF _ 1(2) f])
         (rule commit_group_frame)
    then have up1: "azure_up st objs bl ok b1"
      and fr1: "\<And>k. objs b1 k \<noteq> objs b k \<Longrightarrow> k \<in> set ?nxt \<or> k \<in> set srcs"
      unfolding zip join by blast+
    from 1(3) f False have fr: "fr = Inr ()"
      by (cases fr) (simp_all add: commit_rounds.simps [of st i op dest c srcs] Let_def sm_bind_def)
    with 1(3) f False have rec: "commit_rounds st i op dest ?c ?nxt b1 = (Inr (), b')"
      by (simp add: commit_rounds.simps [of st i op dest c srcs] Let_def sm_bind_def)
    have dist: "distinct ?nxt" unfolding nxt by (auto simp: distinct_map inj_on_def dest: tmp_name_inj)
    have new: "set ?nxt \<inter> set srcs = {}" unfolding nxt using 1(8) by fastforce
    have groups: "\<forall>g \<in> set ?gs. g \<noteq> [] \<and> length g \<le> 32"
      using chunks_bounds [of 32 _ srcs] by (auto simp: MAX_COMMIT_SOURCES_def)
    have "(\<exists>ds es. map (objs b) (concat (map snd (zip ?nxt ?gs))) = map Some ds
        \<and> map (objs b1) (map fst (zip ?nxt ?gs)) = map Some es \<and> concat es = concat ds)
      \<and> (\<forall>k \<in> set (concat (map snd (zip ?nxt ?gs))). objs b1 k = None)"
    proof (rule for_groups_ok [where svc = "azure_up st objs bl ok" and f = "commit_group st i op"])
      show "sm_for (zip ?nxt ?gs) (commit_group st i op) b = (Inr (), b1)" using f fr by simp
      show "azure_up st objs bl ok b" by (rule 1(2))
      show "distinct (map fst (zip ?nxt ?gs))" unfolding zip by (rule dist)
      show "distinct (concat (map snd (zip ?nxt ?gs)))" unfolding zip join by (rule 1(5))
      show "\<forall>g \<in> set (map snd (zip ?nxt ?gs)). g \<noteq> [] \<and> length g \<le> 32" unfolding zip by (rule groups)
      show "set (map fst (zip ?nxt ?gs)) \<inter> set (concat (map snd (zip ?nxt ?gs))) = {}"
        unfolding zip join by (rule new)
      show "assembled_from objs t g a a'" if "azure_up st objs bl ok a"
        "commit_group st i op (t, g) a = (Inr (), a')" "g \<noteq> []" "length g \<le> 32" "t \<notin> set g" for t g a a'
        using commit_effect(2) [OF that(1), of i op t g "Inr ()" a'] that by simp
    qed (rule commit_group_frame)
    then obtain ds es where g: "map (objs b) srcs = map Some ds" "map (objs b1) ?nxt = map Some es"
      "concat es = concat ds" "\<And>k. k \<in> set srcs \<Longrightarrow> objs b1 k = None"
      unfolding zip join by blast
    have rest: "assembled_from objs dest ?nxt b1 b'
      \<and> (\<forall>k. objs b' k \<noteq> objs b1 k \<longrightarrow> k = dest \<or> k \<in> set ?nxt \<or> (\<exists>j \<ge> unat ?c. k = tmp_at st i j))"
    proof (rule 1(1) [OF False refl refl up1 rec])
      show "?nxt \<noteq> []" using pos by (metis length_0_conv length_counters length_map)
      show "distinct ?nxt" by (rule dist)
      show "dest \<notin> set ?nxt" unfolding nxt using 1(7) by auto
      show "dest \<notin> range (tmp_at st i)" by (rule 1(7))
      show "j < unat ?c" if "tmp_at st i j \<in> set ?nxt" for j
        using that counters_run [OF below] unfolding nxt by (auto dest: tmp_name_inj)
      show "unat ?c + length ?nxt < 2 ^ 32"
        using counters_run [OF below] few 1(9) by simp
    qed
    have c: "unat c \<le> unat ?c" using counters_run [OF below] by simp
    have "objs b' k = objs b1 k" if "k \<in> set srcs" for k
    proof (rule ccontr)
      assume "objs b' k \<noteq> objs b1 k"
      with rest that new 1(6) obtain j where "unat ?c \<le> j" "k = tmp_at st i j" by blast
      with 1(8) [of j] that c show False by simp
    qed
    then have "assembled_from objs dest srcs b b'"
      using rest by (intro assembled_groups [OF g]) auto
    moreover have "k = dest \<or> k \<in> set srcs \<or> (\<exists>j \<ge> unat c. k = tmp_at st i j)" if "objs b' k \<noteq> objs b k" for k
    proof -
      have nxt_at: "\<exists>j \<ge> unat c. k = tmp_at st i j" if "k \<in> set ?nxt" using that unfolding nxt by auto
      show ?thesis
      proof (cases "objs b' k = objs b1 k")
        case True
        with that fr1 [of k] nxt_at show ?thesis by (metis (no_types))
      next
        case False
        with rest consider "k = dest" | "k \<in> set ?nxt" | j where "unat ?c \<le> j" "k = tmp_at st i j" by blast
        then show ?thesis
        proof cases
          case (3 j)
          with c have "unat c \<le> j" by linarith
          with 3(2) show ?thesis by blast
        qed (use nxt_at in blast)+
      qed
    qed
    ultimately show ?thesis by blast
  qed
qed

section \<open>The contract\<close>

interpretation azure_uploads: object_backend "az_prefix st" js "azure_calls js st" objs "azure_up st objs bl ok"
proof (unfold_locales, goal_cases)
  case (1 b i d)
  from azure_get_some [OF 1] show ?case
    by (simp add: azure_calls_def azure_read_info_def sm_bind_def sm_lift_def)
next
  case (2 b i)
  from azure_get_none [OF 2] show ?case
    by (simp add: azure_calls_def azure_read_info_def sm_bind_def)
next
  case (3 b i x r b')
  then show ?case
    using azure_put_result [OF 3(1)]
    by (cases "to_json js x")
       (auto simp: azure_calls_def azure_write_info_def sm_bind_def sm_lift_def info_json_def)
next
  case (4 b i lres b')
  then have "azure_list_parts st i b = (lres, b')" by (simp add: azure_calls_def)
  from azure_list_result [OF 4(1) this] show ?case .
next
  case (5 b i k d r b')
  then have "azure_put st i ''write part'' k d b = (r, b')" by (simp add: azure_calls_def azure_call_defs)
  from azure_put_result [OF 5(1) this] show ?case .
next
  case (6 b i k r b')
  then have "azure_put st i ''write empty final'' k [] b = (r, b')"
    by (simp add: azure_calls_def azure_call_defs)
  from azure_put_result [OF 6(1) this] show ?case .
next
  case (7 b i k res b')
  show ?case
  proof (cases "objs b k")
    case None
    from azure_get_none [OF 7(1) None] 7(2) show ?thesis
      by (auto simp: azure_calls_def azure_download_def sm_bind_def)
  next
    case (Some d)
    from azure_get_some [OF 7(1) Some] 7(2) Some show ?thesis
      by (auto simp: azure_calls_def azure_download_def sm_bind_def sm_return_def)
  qed
next
  case (8 b i dest srcs opn r b')
  show ?case
  proof (cases "srcs = []")
    case True
    with 8 show ?thesis
      by (auto simp: azure_calls_def commit_many_blobs_def sm_return_def assembly_frame_def)
  next
    case False
    with 8(2) have "commit_rounds st i opn dest 0 srcs b = (r, b')"
      by (simp add: azure_calls_def commit_many_blobs_def)
    from commit_rounds_frame [OF 8(1) this] show ?thesis by (auto simp: assembly_frame_def)
  qed
next
  case (9 b i dest srcs opn u b')
  then have "commit_rounds st i opn dest 0 srcs b = (Inr (), b')"
    by (simp add: azure_calls_def commit_many_blobs_def)
  from commit_rounds_ok [OF 9(1) this 9(3-5)] 9(6,7) show ?case by auto
next
  case (10 b k)
  then show ?case using azure_delete_effect [OF 10] by (simp add: azure_calls_def)
qed

end
