(* ===== verification/Azure_Session.thy ===== *)
theory Azure_Session
  imports Azure_Laws Object_Demo
begin

text \<open>
  What the Azure store guarantees on a service that keeps its contract: committing in rounds
  assembles any number of sources, and a download after a session of uploads streams the bodies. A
  small service that can be evaluated and is proved to keep the contract serves the witnesses.
\<close>

section \<open>A service\<close>

record azure_demo =
  ad_bucket :: bucket
  ad_blocks :: "((string \<times> bytes) \<times> bytes) list"

definition ad_missing :: azure_error where
  "ad_missing = \<lparr>ae_http = Some 404, ae_text = ''BlobNotFound''\<rparr>"

definition ad_put :: "string \<Rightarrow> bytes \<Rightarrow> azure_demo \<Rightarrow> (azure_error + unit) \<times> azure_demo" where
  "ad_put k d b = (Inr (), b\<lparr>ad_bucket := AList.update k d (ad_bucket b)\<rparr>)"

definition ad_get :: "string \<Rightarrow> azure_demo \<Rightarrow> azure_error + bytes" where
  "ad_get k b = (case map_of (ad_bucket b) k of Some d \<Rightarrow> Inr d | None \<Rightarrow> Inl ad_missing)"

text \<open>Every name on a page of its own.\<close>

definition ad_list :: "string \<Rightarrow> azure_demo \<Rightarrow> (azure_error + string list) list" where
  "ad_list p b = map (\<lambda>k. Inr [k]) (bucket_keys p (ad_bucket b))"

definition ad_delete :: "string \<Rightarrow> azure_demo \<Rightarrow> (azure_error + unit) \<times> azure_demo" where
  "ad_delete k b = (Inr (), b\<lparr>ad_bucket := AList.delete k (ad_bucket b)\<rparr>)"

definition ad_block :: "string \<Rightarrow> bytes \<Rightarrow> bytes \<Rightarrow> azure_demo \<Rightarrow> (azure_error + unit) \<times> azure_demo" where
  "ad_block k n d b = (Inr (), b\<lparr>ad_blocks := AList.update (k, n) d (ad_blocks b)\<rparr>)"

definition ad_commit :: "string \<Rightarrow> bytes list \<Rightarrow> azure_demo \<Rightarrow> (azure_error + unit) \<times> azure_demo" where
  "ad_commit k ns b =
     (case those (map (\<lambda>n. map_of (ad_blocks b) (k, n)) ns) of
        Some ds \<Rightarrow> (Inr (), b\<lparr>ad_bucket := AList.update k (concat ds) (ad_bucket b)\<rparr>)
      | None \<Rightarrow> (Inl ad_missing, b))"

definition ad_client :: "azure_demo azure_client" where
  "ad_client =
     \<lparr>az_put_block_blob = ad_put, az_get_content = ad_get, az_list_blobs = ad_list,
      az_delete_blob = ad_delete, az_put_block = ad_block, az_put_block_list = ad_commit\<rparr>"

definition ad_objs :: "azure_demo \<Rightarrow> string \<Rightarrow> bytes option" where
  "ad_objs b = map_of (ad_bucket b)"

definition ad_bl :: "azure_demo \<Rightarrow> string \<Rightarrow> bytes \<Rightarrow> bytes option" where
  "ad_bl b k n = map_of (ad_blocks b) (k, n)"

definition ad_ok :: "azure_demo \<Rightarrow> bool" where
  "ad_ok b \<longleftrightarrow> distinct (map fst (ad_bucket b))"

lemma ad_pages: "map (\<lambda>k. Inr [k] :: azure_error + string list) ks = map Inr pages \<Longrightarrow> concat pages = ks"
  by (induction ks arbitrary: pages) auto

lemma ad_service: "azure_service_ok ad_client ad_objs ad_bl ad_ok"
  unfolding azure_service_ok_def
proof (intro conjI allI impI)
  fix b and p :: string and pages
  assume "ad_ok b" "az_list_blobs ad_client p b = map Inr pages"
  then have "concat pages = bucket_keys p (ad_bucket b)"
    by (intro ad_pages) (simp add: ad_client_def ad_list_def)
  then show "below_prefix ad_objs b p (concat pages)"
    using \<open>ad_ok b\<close> bucket_keys_below [of "ad_bucket b" ad_objs b p] by (simp add: ad_ok_def ad_objs_def)
next
  fix b k ns r b'
  assume ok: "ad_ok b" and c: "az_put_block_list ad_client k ns b = (r, b')"
  from ok c show "ad_ok b'"
    by (auto simp: ad_client_def ad_commit_def ad_ok_def distinct_update split: option.splits)
  have same: "those (map f ns) = Some ds \<Longrightarrow> map f ns = map Some ds" for f :: "bytes \<Rightarrow> bytes option" and ds
  proof (induction ns arbitrary: ds)
    case (Cons n ns)
    then show ?case by (cases "f n"; cases "those (map f ns)") auto
  qed simp
  have bl: "ad_bl b k = (\<lambda>n. map_of (ad_blocks b) (k, n))" by (rule ext) (simp add: ad_bl_def)
  show "case r of Inl e \<Rightarrow> ad_objs b' = ad_objs b
    | Inr u \<Rightarrow> \<exists>ds. map (ad_bl b k) ns = map Some ds \<and> ad_objs b' = (ad_objs b)(k \<mapsto> concat ds)"
    using c same [of "\<lambda>n. map_of (ad_blocks b) (k, n)"]
    by (auto simp: ad_client_def ad_commit_def ad_objs_def bl update_conv' split: option.splits)
qed (auto simp: ad_client_def ad_put_def ad_get_def ad_delete_def ad_block_def ad_missing_def ad_ok_def
    ad_objs_def ad_bl_def azure_is_not_found_def update_conv' delete_conv' fun_eq_iff distinct_update
    distinct_delete split: option.split)

section \<open>A server\<close>

definition azure_demo_store :: "azure_demo azure_store" where
  "azure_demo_store = \<lparr>az_container = ad_client, az_prefix = ''up/''\<rparr>"

lemma azure_demo_sel [simp]:
  "az_container azure_demo_store = ad_client" "az_prefix azure_demo_store = ''up/''"
  by (simp_all add: azure_demo_store_def)

definition azure_server :: "(azure_demo, held_set) tus_handler" where
  "azure_server = tus_handler_new (azure_ops demo_codec azure_demo_store) (Some memory_locker_ops) demo_config"

definition azure_world :: "(azure_demo, held_set) world" where
  "azure_world =
     \<lparr>w_store = \<lparr>ad_bucket = demo_bucket, ad_blocks = []\<rparr>, w_lock = {}, w_events = []\<rparr>"

section \<open>Properties\<close>

text \<open>
  C19. A download from a server on Azure after any session of PATCH requests with bytes, each answered
  204, on an upload that had received nothing: a GET answered 200 streams the bodies of those
  requests, all of them, in order, however many rounds of committing they need.
\<close>

theorem azure_downloads_deliver:
  assumes "azure_service_ok (az_container st) objs bl ok"
    and "h_store h = azure_ops js st" and "object_inv (az_prefix st) js objs ok (w_store w)"
    and "object_info_of (az_prefix st) js objs (w_store w) i = Some y" and "\<not> is_complete y"
    and "object_parts (az_prefix st) objs (w_store w) i []"
    and "list_all (chunk_request i) rs" and "length rs < 2 ^ 32"
    and "handle_all x h rs w = (resps, w')" and "list_all (\<lambda>r. resp_status r = 204) resps"
    and "req_method req = GET" and "request_id req = Inr i"
    and "handle x h e req w' = (resp, w'')" and "resp_status resp = 200"
  shows "\<exists>rd. resp_body resp = Body_Reader rd
    \<and> read_to_end rd = Inr (concat (map (body_bytes \<circ> snd) rs))"
proof -
  have "object_inv (az_prefix st) js objs (azure_up st objs bl ok) (w_store w)"
    using assms(1,3) by (auto simp: object_inv_def)
  from azure_uploads.session_download [OF assms(2) [unfolded azure_ops_eq] this assms(4-14)]
  show ?thesis .
qed

theorem azure_downloads_deliver_witness:
  "\<exists>rd. resp_body (fst (handle demo_externals azure_server (fst (demo_plain GET ''a'')) (snd (demo_plain GET ''a''))
          (snd (handle_all demo_externals azure_server
             [demo_patch ''a'' ''0'' ''abc'', demo_patch ''a'' ''3'' ''de''] azure_world))))
        = Body_Reader rd \<and> read_to_end rd = Inr ''abcde''"
proof -
  define w where "w = azure_world"
  define rs where "rs = [demo_patch ''a'' ''0'' ''abc'', demo_patch ''a'' ''3'' ''de'']"
  define res where "res = handle_all demo_externals azure_server rs w"
  define out where "out = handle demo_externals azure_server (fst (demo_plain GET ''a''))
    (snd (demo_plain GET ''a'')) (snd res)"
  have objs: "ad_objs (w_store w) = map_of demo_bucket" by (simp add: w_def azure_world_def ad_objs_def)
  have ok: "ad_ok (w_store w)" by (simp add: w_def azure_world_def ad_ok_def demo_bucket_def)
  have bodies: "concat (map (body_bytes \<circ> snd) rs) = ''abcde''" unfolding rs_def by code_simp
  have "\<exists>rd. resp_body (fst out) = Body_Reader rd
      \<and> read_to_end rd = Inr (concat (map (body_bytes \<circ> snd) rs))"
  proof (rule azure_downloads_deliver)
    show "azure_service_ok (az_container azure_demo_store) ad_objs ad_bl ad_ok" by (simp add: ad_service)
    show "h_store azure_server = azure_ops demo_codec azure_demo_store"
      by (simp add: azure_server_def tus_handler_new_def)
    show "object_inv (az_prefix azure_demo_store) demo_codec ad_objs ad_ok (w_store w)"
      using demo_bucket_inv [of ad_objs "w_store w" ad_ok, OF objs ok] by simp
    show "object_info_of (az_prefix azure_demo_store) demo_codec ad_objs (w_store w) (UploadId ''a'')
        = Some (upload_info_new (UploadId ''a'') (Some 5))"
      using demo_bucket_info [of ad_objs "w_store w", OF objs] by simp
    show "\<not> is_complete (upload_info_new (UploadId ''a'') (Some 5))" by code_simp
    show "object_parts (az_prefix azure_demo_store) ad_objs (w_store w) (UploadId ''a'') []"
      using demo_bucket_parts [of ad_objs "w_store w", OF objs] by simp
    show "list_all (chunk_request (UploadId ''a'')) rs" "length rs < 2 ^ 32"
      unfolding rs_def by code_simp+
    show "handle_all demo_externals azure_server rs w = (fst res, snd res)" by (simp add: res_def)
    show "list_all (\<lambda>r. resp_status r = 204) (fst res)"
      unfolding res_def rs_def w_def by code_simp
    show "resp_status (fst out) = 200"
      unfolding out_def res_def rs_def w_def by code_simp
    show "req_method (snd (demo_plain GET ''a'')) = GET"
      "request_id (snd (demo_plain GET ''a'')) = Inr (UploadId ''a'')" by code_simp+
    show "handle demo_externals azure_server (fst (demo_plain GET ''a'')) (snd (demo_plain GET ''a'')) (snd res)
        = (fst out, snd out)" by (simp add: out_def)
  qed
  then have "\<exists>rd. resp_body (fst out) = Body_Reader rd \<and> read_to_end rd = Inr ''abcde''"
    by (simp only: bodies)
  then show ?thesis by (simp only: out_def res_def rs_def w_def)
qed

text \<open>
  C22. On Azure an assembly that succeeds, of any number of sources below 2 to the 32, in as many
  rounds of 32 as it takes, leaves exactly the sources one after another in the destination: every
  source was there, the destination holds their concatenation in order, and the sources are gone.
\<close>

theorem azure_rounds_concatenate:
  assumes "azure_service_ok (az_container st) objs bl ok" and "ok b"
    and "commit_many_blobs st i dest srcs op b = (Inr u, b')" and "srcs \<noteq> []" and "distinct srcs"
    and "dest \<notin> set srcs" and "\<And>n. az_prefix st @ as_str i @ ''_tmp_'' @ dec n \<notin> insert dest (set srcs)"
    and "length srcs < 2 ^ 32"
  shows "(\<exists>ds. map (objs b) srcs = map Some ds \<and> objs b' dest = Some (concat ds))
    \<and> (\<forall>k \<in> set srcs. objs b' k = None)"
proof -
  have "commit_rounds st i op dest 0 srcs b = (Inr (), b')"
    using assms(3,4) by (simp add: commit_many_blobs_def)
  moreover have "dest \<notin> range (tmp_at st i)" using assms(7) by (auto simp: tmp_name_def)
  moreover have "tmp_at st i j \<in> set srcs \<Longrightarrow> j < unat (0 :: u32)" for j
    using assms(7) [of j] by (simp add: tmp_name_def)
  ultimately have "assembled_from objs dest srcs b b'"
    using assms(1,2,4-6,8) by (intro conjunct1 [OF commit_rounds_ok [of st objs bl ok b i op dest 0]]) auto
  then show ?thesis by (simp add: assembled_from_def)
qed

theorem azure_rounds_concatenate_witness:
  "ad_objs (snd (commit_many_blobs azure_demo_store (UploadId ''a'') ''up/a'' [''up/y'', ''up/x''] ''finalize''
      \<lparr>ad_bucket = [(''up/x'', ''cd''), (''up/y'', ''ab'')], ad_blocks = []\<rparr>)) ''up/a'' = Some ''abcd''"
proof -
  define b where "b = \<lparr>ad_bucket = [(''up/x'', ''cd''), (''up/y'', ''ab'')], ad_blocks = []\<rparr>"
  define srcs where "srcs = [''up/y'', ''up/x'']"
  define res where "res = commit_many_blobs azure_demo_store (UploadId ''a'') ''up/a'' srcs ''finalize'' b"
  have "isl (fst res) = False" unfolding res_def srcs_def b_def by code_simp
  then have r: "res = (Inr (), snd res)" by (cases res; cases "fst res") auto
  have "(\<exists>ds. map (ad_objs b) srcs = map Some ds \<and> ad_objs (snd res) ''up/a'' = Some (concat ds))
      \<and> (\<forall>k \<in> set srcs. ad_objs (snd res) k = None)"
  proof (rule azure_rounds_concatenate)
    show "azure_service_ok (az_container azure_demo_store) ad_objs ad_bl ad_ok" by (simp add: ad_service)
    show "ad_ok b" unfolding b_def by code_simp
    show "commit_many_blobs azure_demo_store (UploadId ''a'') ''up/a'' srcs ''finalize'' b = (Inr (), snd res)"
      using r by (simp add: res_def)
  qed (auto simp: srcs_def)
  moreover have "map (ad_objs b) srcs = map Some [''ab'', ''cd'']" unfolding srcs_def b_def by code_simp
  ultimately have "ad_objs (snd res) ''up/a'' = Some (concat [''ab'', ''cd''])"
    by (auto simp: inj_map_eq_map inj_on_def)
  then show ?thesis by (simp add: res_def srcs_def b_def)
qed

end
