(* ===== verification/Adapters.thy ===== *)
theory Adapters
  imports Protocol_Laws
begin

text \<open>
  The framework adapters: \<open>fileloft-axum/src/router.rs\<close>, \<open>fileloft-actix/src/scope.rs\<close> and
  \<open>fileloft-rocket/src/routes.rs\<close>. Each turns the framework's request into a \<open>TusRequest\<close>, runs the
  handler and turns its answer into the framework's response. Routing, the frameworks' own types and
  the conversions of the \<open>http\<close> crate are third-party code; the conversions are the record
  \<open>http_crate\<close>. The body stream of a request is the list of its items, chunks or the texts of errors.
\<close>

section \<open>Requests and responses of a framework\<close>

text \<open>
  \<open>Method::from_bytes\<close>, \<open>str::parse::<Uri>\<close>, \<open>HeaderName::from_bytes\<close> and \<open>HeaderValue::from_bytes\<close>.
  \<open>hc_name\<close> gives the header among those the handlers look at.
\<close>

record http_crate =
  hc_method :: "string \<Rightarrow> http_method option"
  hc_uri :: "string \<Rightarrow> string option"
  hc_name :: "string \<Rightarrow> header_name option"
  hc_value :: "bytes \<Rightarrow> header_value option"

record framework_request =
  fr_method :: string
  fr_uri :: string
  fr_path :: string
  fr_headers :: "(string \<times> bytes) list"
  fr_payload :: "(string + bytes) list"

record framework_response =
  fw_status :: nat
  fw_headers :: response_headers
  fw_body :: tus_body

text \<open>The methods whose body is not read.\<close>

definition bodyless :: "http_method \<Rightarrow> bool" where
  "bodyless m \<longleftrightarrow> m = HEAD \<or> m = DELETE \<or> m = OPTIONS \<or> m = GET"

definition bodyless_name :: "string \<Rightarrow> bool" where
  "bodyless_name m \<longleftrightarrow> m = ''HEAD'' \<or> m = ''DELETE'' \<or> m = ''OPTIONS'' \<or> m = ''GET''"

text \<open>An item of the body stream, with the error the adapters make of a failure.\<close>

definition payload_item :: "string + bytes \<Rightarrow> io_error + bytes" where
  "payload_item item =
     map_sum (\<lambda>e. Io_Error IoInvalidData (''failed to read request body: '' @ e)) id item"

fun item_event :: "io_error + bytes \<Rightarrow> read_event" where
  "item_event (Inl e) = Fault e"
| "item_event (Inr b) = Chunk b"

definition payload_reader :: "(string + bytes) list \<Rightarrow> reader" where
  "payload_reader items = map (item_event \<circ> payload_item) items"

section \<open>axum\<close>

text \<open>
  axum's request has the types of the \<open>http\<close> crate already. A request on \<open>/{id}\<close> has the segment of its
  path, percent-decoded by the framework, which refuses what does not decode (\<open>None\<close>).
\<close>

definition axum_request ::
  "http_method \<Rightarrow> string \<Rightarrow> header_map \<Rightarrow> (string + bytes) list \<Rightarrow> string option \<Rightarrow> tus_request" where
  "axum_request method uri headers stream upload_id =
     (let body = (if bodyless method then None else Some (payload_reader stream))
      in \<lparr>req_method = method, req_uri = uri, req_upload_id = upload_id, req_headers = headers,
          req_body = body\<rparr>)"

definition axum_response :: "tus_response \<Rightarrow> framework_response" where
  "axum_response tus =
     \<lparr>fw_status = resp_status tus, fw_headers = resp_headers tus, fw_body = resp_body tus\<rparr>"

definition handle_axum ::
  "externals \<Rightarrow> ('s, 'l) tus_handler \<Rightarrow> req_env \<Rightarrow> http_method \<Rightarrow> string \<Rightarrow> header_map
     \<Rightarrow> (string + bytes) list \<Rightarrow> string option \<Rightarrow> ('s, 'l) world
     \<Rightarrow> framework_response \<times> ('s, 'l) world" where
  "handle_axum x h e method uri headers stream upload_id w =
     map_prod axum_response id (handle x h e (axum_request method uri headers stream upload_id) w)"

text \<open>The two routes; \<open>segment\<close> is the raw segment after the mount, if there is one.\<close>

definition tus_router ::
  "(string \<Rightarrow> string option) \<Rightarrow> externals \<Rightarrow> ('s, 'l) tus_handler \<Rightarrow> req_env \<Rightarrow> http_method \<Rightarrow> string
     \<Rightarrow> header_map \<Rightarrow> (string + bytes) list \<Rightarrow> string option \<Rightarrow> ('s, 'l) world
     \<Rightarrow> framework_response option \<times> ('s, 'l) world" where
  "tus_router decode x h e method uri headers stream segment w =
     (case segment of
        None \<Rightarrow> map_prod Some id (handle_axum x h e method uri headers stream None w)
      | Some s \<Rightarrow>
          (case decode s of
             None \<Rightarrow> (None, w)
           | Some i \<Rightarrow> map_prod Some id (handle_axum x h e method uri headers stream (Some i) w)))"

section \<open>actix\<close>

text \<open>
  \<open>ChannelReader\<close>. What \<open>poll_recv\<close> yields is a list: \<open>None\<close> where it is pending, otherwise the next
  item; after the last one the channel is closed. \<open>cap\<close> is the room left in the caller's buffer.
\<close>

record channel_reader =
  ch_rx :: "(io_error + bytes) option list"
  ch_current :: "bytes option"

definition channel_reader_new :: "(io_error + bytes) option list \<Rightarrow> channel_reader" where
  "channel_reader_new rx = \<lparr>ch_rx = rx, ch_current = None\<rparr>"

text \<open>The branch of the loop with a current chunk: what is put into the buffer, and what is left.\<close>

definition serve_current ::
  "nat \<Rightarrow> bytes \<Rightarrow> (io_error + bytes) option list \<Rightarrow> (io_error + bytes) poll \<times> channel_reader" where
  "serve_current cap current rx =
     (let n = min (length current) cap
      in if n = 0 then (Ready (Inr []), \<lparr>ch_rx = rx, ch_current = Some current\<rparr>)
         else (Ready (Inr (take n current)),
               \<lparr>ch_rx = rx,
                ch_current = (if drop n current = [] then None else Some (drop n current))\<rparr>))"

fun recv_loop ::
  "nat \<Rightarrow> (io_error + bytes) option list \<Rightarrow> (io_error + bytes) poll \<times> channel_reader" where
  "recv_loop cap [] = (Ready (Inr []), \<lparr>ch_rx = [], ch_current = None\<rparr>)"
| "recv_loop cap (None # rx) = (Pending, \<lparr>ch_rx = rx, ch_current = None\<rparr>)"
| "recv_loop cap (Some (Inl err) # rx) = (Ready (Inl err), \<lparr>ch_rx = rx, ch_current = None\<rparr>)"
| "recv_loop cap (Some (Inr bytes) # rx) =
     (if bytes \<noteq> [] then serve_current cap bytes rx else recv_loop cap rx)"

definition channel_poll_read :: "nat \<Rightarrow> channel_reader \<Rightarrow> (io_error + bytes) poll \<times> channel_reader" where
  "channel_poll_read cap me =
     (case ch_current me of
        Some current \<Rightarrow> serve_current cap current (ch_rx me)
      | None \<Rightarrow> recv_loop cap (ch_rx me))"

fun append_value :: "http_crate \<Rightarrow> string \<times> bytes \<Rightarrow> (header_name \<times> header_value) list" where
  "append_value p (name, v) =
     (case (hc_name p name, hc_value p v) of (Some n, Some val) \<Rightarrow> [(n, val)] | _ \<Rightarrow> [])"

text \<open>Values are appended; the handlers look at the first value of a header.\<close>

definition headers_to_http :: "http_crate \<Rightarrow> (string \<times> bytes) list \<Rightarrow> header_map" where
  "headers_to_http p hs = map_of (concat (map (append_value p) hs))"

definition to_http_method :: "http_crate \<Rightarrow> string \<Rightarrow> http_method" where
  "to_http_method p m = (case hc_method p m of Some m' \<Rightarrow> m' | None \<Rightarrow> GET)"

definition to_http_uri :: "http_crate \<Rightarrow> string \<Rightarrow> string" where
  "to_http_uri p u = (case hc_uri p u of Some u' \<Rightarrow> u' | None \<Rightarrow> ''/'')"

text \<open>The reader of the body is the channel reader on the forwarded items.\<close>

definition actix_request :: "http_crate \<Rightarrow> framework_request \<Rightarrow> string option \<Rightarrow> tus_request" where
  "actix_request p r upload_id =
     (let method = to_http_method p (fr_method r);
          uri = to_http_uri p (fr_uri r);
          headers = headers_to_http p (fr_headers r);
          body = (if bodyless_name (fr_method r) then None else Some (payload_reader (fr_payload r)))
      in \<lparr>req_method = method, req_uri = uri, req_upload_id = upload_id, req_headers = headers,
          req_body = body\<rparr>)"

definition actix_response :: "tus_response \<Rightarrow> framework_response" where
  "actix_response tus =
     \<lparr>fw_status = (if 100 \<le> resp_status tus \<and> resp_status tus < 1000 then resp_status tus else 500),
      fw_headers = resp_headers tus, fw_body = resp_body tus\<rparr>"

definition handle_actix ::
  "http_crate \<Rightarrow> externals \<Rightarrow> ('s, 'l) tus_handler \<Rightarrow> req_env \<Rightarrow> framework_request \<Rightarrow> string option
     \<Rightarrow> ('s, 'l) world \<Rightarrow> framework_response \<times> ('s, 'l) world" where
  "handle_actix p x h e r upload_id w =
     map_prod actix_response id (handle x h e (actix_request p r upload_id) w)"

definition tus_scope ::
  "(string \<Rightarrow> string option) \<Rightarrow> http_crate \<Rightarrow> externals \<Rightarrow> ('s, 'l) tus_handler \<Rightarrow> req_env
     \<Rightarrow> framework_request \<Rightarrow> string option \<Rightarrow> ('s, 'l) world
     \<Rightarrow> framework_response option \<times> ('s, 'l) world" where
  "tus_scope decode p x h e r segment w =
     (case segment of
        None \<Rightarrow> map_prod Some id (handle_actix p x h e r None w)
      | Some s \<Rightarrow>
          (case decode s of
             None \<Rightarrow> (None, w) | Some i \<Rightarrow> map_prod Some id (handle_actix p x h e r (Some i) w)))"

section \<open>Rocket\<close>

definition DEFAULT_BODY_LIMIT_BYTES :: u64 where
  "DEFAULT_BODY_LIMIT_BYTES = 512 * 1024 * 1024"

text \<open>The last segment of a path of exactly two, as it stands in the path.\<close>

definition rocket_upload_id :: "string \<Rightarrow> string option" where
  "rocket_upload_id path =
     (case filter (\<lambda>s. s \<noteq> []) (split_on (CHR ''/'') path) of
        [a, i] \<Rightarrow> Some i
      | _ \<Rightarrow> None)"

definition rocket_limit :: "('s, 'l) tus_handler \<Rightarrow> u64" where
  "rocket_limit h =
     (if handler_max_size h = 0 then DEFAULT_BODY_LIMIT_BYTES else handler_max_size h)"

text \<open>
  The body: \<open>Data::open\<close> with a limit gives a stream, which is read to its end. A failure is answered
  by the framework's own page.
\<close>

definition rocket_body ::
  "('s, 'l) tus_handler \<Rightarrow> framework_request \<Rightarrow> (u64 \<Rightarrow> reader) \<Rightarrow> nat + reader option" where
  "rocket_body h r data_open =
     (if bodyless_name (fr_method r) then Inr None
      else case read_to_end (data_open (rocket_limit h)) of
             Inl e \<Rightarrow> Inl 500
           | Inr buf \<Rightarrow> Inr (Some [Chunk buf]))"

definition rocket_to_http_method :: "http_crate \<Rightarrow> string \<Rightarrow> http_method" where
  "rocket_to_http_method p m = (case hc_method p m of Some m' \<Rightarrow> m' | None \<Rightarrow> GET)"

definition rocket_to_http_uri :: "http_crate \<Rightarrow> string \<Rightarrow> string" where
  "rocket_to_http_uri p u = (case hc_uri p u of Some u' \<Rightarrow> u' | None \<Rightarrow> ''/'')"

definition rocket_headers_to_http :: "http_crate \<Rightarrow> (string \<times> bytes) list \<Rightarrow> header_map" where
  "rocket_headers_to_http p hs = map_of (concat (map (append_value p) hs))"

lemma rocket_conversions:
  "rocket_to_http_method = to_http_method" "rocket_to_http_uri = to_http_uri"
  "rocket_headers_to_http = headers_to_http"
  by (intro ext, simp add: rocket_to_http_method_def to_http_method_def rocket_to_http_uri_def
      to_http_uri_def rocket_headers_to_http_def headers_to_http_def)+

definition rocket_request :: "http_crate \<Rightarrow> framework_request \<Rightarrow> reader option \<Rightarrow> tus_request" where
  "rocket_request p r body =
     \<lparr>req_method = rocket_to_http_method p (fr_method r), req_uri = rocket_to_http_uri p (fr_uri r),
      req_upload_id = rocket_upload_id (fr_path r),
      req_headers = rocket_headers_to_http p (fr_headers r),
      req_body = body\<rparr>"

definition rocket_response :: "tus_response \<Rightarrow> framework_response" where
  "rocket_response tus =
     \<lparr>fw_status = (if 100 \<le> resp_status tus \<and> resp_status tus < 600 then resp_status tus else 500),
      fw_headers = resp_headers tus, fw_body = resp_body tus\<rparr>"

definition handle_rocket ::
  "http_crate \<Rightarrow> externals \<Rightarrow> ('s, 'l) tus_handler \<Rightarrow> req_env \<Rightarrow> framework_request \<Rightarrow> (u64 \<Rightarrow> reader)
     \<Rightarrow> ('s, 'l) world \<Rightarrow> (nat + framework_response) \<times> ('s, 'l) world" where
  "handle_rocket p x h e r data_open w =
     (case rocket_body h r data_open of
        Inl status \<Rightarrow> (Inl status, w)
      | Inr body \<Rightarrow>
          map_prod (Inr \<circ> rocket_response) id (handle x h e (rocket_request p r body) w))"

section \<open>Reading through the channel\<close>

text \<open>
  \<open>read_to_end\<close> on a channel reader: poll after poll, the \<open>k\<close>-th one with room for \<open>caps k\<close> bytes,
  until a poll fills nothing.
\<close>

fun item_size :: "(io_error + bytes) option \<Rightarrow> nat" where
  "item_size (Some (Inr b)) = Suc (length b)"
| "item_size i = 1"

definition channel_size :: "channel_reader \<Rightarrow> nat" where
  "channel_size me =
     sum_list (map item_size (ch_rx me))
     + (case ch_current me of Some c \<Rightarrow> length c | None \<Rightarrow> 0)"

lemma serve_current_size:
  "serve_current cap c rx = (Ready (Inr b), me') \<Longrightarrow> b \<noteq> [] \<Longrightarrow>
     channel_size me' < channel_size \<lparr>ch_rx = rx, ch_current = Some c\<rparr>"
  by (auto simp: serve_current_def channel_size_def Let_def split: if_splits)

lemma recv_loop_size:
  "recv_loop cap rx = (q, me') \<Longrightarrow> q = Pending \<or> (\<exists>b. q = Ready (Inr b) \<and> b \<noteq> []) \<Longrightarrow>
     channel_size me' < channel_size \<lparr>ch_rx = rx, ch_current = None\<rparr>"
proof (induction cap rx rule: recv_loop.induct)
  case (4 cap bytes rx)
  then show ?case
    by (auto simp: channel_size_def serve_current_def Let_def split: if_splits)
qed (auto simp: channel_size_def)

lemma channel_poll_size:
  assumes "channel_poll_read cap me = (q, me')" and "q = Pending \<or> (\<exists>b. q = Ready (Inr b) \<and> b \<noteq> [])"
  shows "channel_size me' < channel_size me"
proof (cases "ch_current me")
  case None
  with recv_loop_size [of cap "ch_rx me" q me'] assms show ?thesis
    by (cases me) (simp add: channel_poll_read_def)
next
  case (Some c)
  with assms have "q \<noteq> Pending" by (auto simp: channel_poll_read_def serve_current_def Let_def split: if_splits)
  with Some serve_current_size [of cap c "ch_rx me" _ me'] assms show ?thesis
    by (cases me) (auto simp: channel_poll_read_def)
qed

function channel_read_to_end :: "(nat \<Rightarrow> nat) \<Rightarrow> nat \<Rightarrow> channel_reader \<Rightarrow> io_error + bytes" where
  "channel_read_to_end caps k me =
     (case channel_poll_read (caps k) me of
        (Pending, me') \<Rightarrow> channel_read_to_end caps (Suc k) me'
      | (Ready (Inl e), me') \<Rightarrow> Inl e
      | (Ready (Inr b), me') \<Rightarrow>
          if b = [] then Inr []
          else (case channel_read_to_end caps (Suc k) me' of
                  Inl e \<Rightarrow> Inl e | Inr bs \<Rightarrow> Inr (b @ bs)))"
  by pat_completeness auto
termination
  by (relation "measure (\<lambda>(caps, k, me). channel_size me)")
     (auto dest: channel_poll_size [OF sym])

declare channel_read_to_end.simps [simp del]

text \<open>The items the receiver yields, without the polls that are pending.\<close>

fun forwarded :: "'a option list \<Rightarrow> 'a list" where
  "forwarded [] = []"
| "forwarded (None # rx) = forwarded rx"
| "forwarded (Some i # rx) = i # forwarded rx"

text \<open>What is left to read of a channel reader.\<close>

definition channel_rest :: "channel_reader \<Rightarrow> reader" where
  "channel_rest me =
     (case ch_current me of Some c \<Rightarrow> [Chunk c] | None \<Rightarrow> [])
     @ map item_event (forwarded (ch_rx me))"

definition current_ok :: "channel_reader \<Rightarrow> bool" where
  "current_ok me \<longleftrightarrow> ch_current me \<noteq> Some []"

lemma serve_current_reads:
  assumes "0 < cap" and "c \<noteq> []"
  obtains b me' where "serve_current cap c rx = (Ready (Inr b), me')" and "b \<noteq> []" and "current_ok me'"
    and "read_to_end (channel_rest \<lparr>ch_rx = rx, ch_current = Some c\<rparr>)
           = read_to_end (Chunk b # channel_rest me')"
proof -
  let ?n = "min (length c) cap"
  let ?me = "\<lparr>ch_rx = rx, ch_current = (if drop ?n c = [] then None else Some (drop ?n c))\<rparr>"
  have "0 < ?n" using assms by simp
  then have eq: "serve_current cap c rx = (Ready (Inr (take ?n c)), ?me)"
    and ne: "take ?n c \<noteq> []"
    using assms by (simp_all add: serve_current_def Let_def)
  have ok: "current_ok ?me" by (simp add: current_ok_def)
  have "read_to_end (channel_rest \<lparr>ch_rx = rx, ch_current = Some c\<rparr>)
          = read_to_end (Chunk (take ?n c) # channel_rest ?me)"
    by (auto simp: channel_rest_def split: sum.split)
  from that [OF eq ne ok this] show thesis .
qed

lemma recv_loop_reads:
  assumes "0 < cap" and "recv_loop cap rx = (q, me')"
  shows "current_ok me'
    \<and> read_to_end (map item_event (forwarded rx))
        = (case q of
             Pending \<Rightarrow> read_to_end (channel_rest me')
           | Ready (Inl e) \<Rightarrow> Inl e
           | Ready (Inr b) \<Rightarrow> if b = [] then Inr [] else read_to_end (Chunk b # channel_rest me'))"
  using assms
proof (induction cap rx rule: recv_loop.induct)
  case (4 cap bs rx)
  show ?case
  proof (cases "bs = []")
    case True
    with 4 show ?thesis by (auto split: poll.splits sum.splits)
  next
    case False
    with 4 obtain b where "serve_current cap bs rx = (Ready (Inr b), me')" "b \<noteq> []" "current_ok me'"
      "read_to_end (channel_rest \<lparr>ch_rx = rx, ch_current = Some bs\<rparr>)
         = read_to_end (Chunk b # channel_rest me')"
      using serve_current_reads [of cap bs rx] by (metis Pair_inject poll.inject recv_loop.simps(4))
    with 4 False show ?thesis by (auto simp: channel_rest_def)
  qed
qed (auto simp: current_ok_def channel_rest_def)

lemma channel_poll_reads:
  assumes "0 < cap" and "current_ok me" and "channel_poll_read cap me = (q, me')"
  shows "current_ok me'
    \<and> read_to_end (channel_rest me)
        = (case q of
             Pending \<Rightarrow> read_to_end (channel_rest me')
           | Ready (Inl e) \<Rightarrow> Inl e
           | Ready (Inr b) \<Rightarrow> if b = [] then Inr [] else read_to_end (Chunk b # channel_rest me'))"
proof (cases "ch_current me")
  case None
  with assms recv_loop_reads [of cap "ch_rx me" q me'] show ?thesis
    by (simp add: channel_poll_read_def channel_rest_def)
next
  case (Some c)
  with assms(2) have "c \<noteq> []" by (auto simp: current_ok_def)
  then obtain b me2 where "serve_current cap c (ch_rx me) = (Ready (Inr b), me2)" "b \<noteq> []" "current_ok me2"
    "read_to_end (channel_rest \<lparr>ch_rx = ch_rx me, ch_current = Some c\<rparr>)
       = read_to_end (Chunk b # channel_rest me2)"
    using serve_current_reads [OF assms(1), of c "ch_rx me"] by metis
  moreover have "\<lparr>ch_rx = ch_rx me, ch_current = Some c\<rparr> = me" using Some by (cases me) simp
  ultimately show ?thesis using assms(3) Some by (auto simp: channel_poll_read_def)
qed

lemma channel_read_to_end_reads:
  assumes "\<And>k. 0 < caps k" and "current_ok me"
  shows "channel_read_to_end caps k me = read_to_end (channel_rest me)"
  using assms
proof (induction caps k me rule: channel_read_to_end.induct)
  case (1 caps k me)
  obtain q me' where p: "channel_poll_read (caps k) me = (q, me')" by fastforce
  note facts = channel_poll_reads [OF 1(3) 1(4) p]
  show ?case
  proof (cases q)
    case Pending
    with facts p 1 show ?thesis by (simp add: channel_read_to_end.simps [of caps k me])
  next
    case (Ready r)
    with facts p 1 show ?thesis
      by (cases r) (auto simp: channel_read_to_end.simps [of caps k me])
  qed
qed

end
