(* ===== verification/Process_Locker.thy ===== *)
theory Process_Locker
  imports Lock_Facts
begin

text \<open>
  The locker of the cloud backends, \<open>ProcessLocker\<close> of \<open>fileloft-server/src/main.rs\<close>: one mutex for each
  identifier ever asked for. It meets the contract of a handler's locker, and in every interleaving of
  tasks it is exclusive and can always grant a free lock.
\<close>

section \<open>The locker\<close>

text \<open>
  \<open>ProcessLocker\<close>: the map from identifiers to mutexes, which are addresses, and the set of the
  mutexes that are locked. \<open>entry_mutex\<close> is \<open>entry(id).or_insert_with(..).clone()\<close>, done while the map's own
  mutex is held and without another await, so in one step.
\<close>

record process_locks =
  pl_locks :: "string \<rightharpoonup> nat"
  pl_next :: nat
  pl_locked :: "nat set"

definition process_locker_default :: process_locks where
  "process_locker_default = \<lparr>pl_locks = Map.empty, pl_next = 0, pl_locked = {}\<rparr>"

definition entry_mutex :: "upload_id \<Rightarrow> process_locks \<Rightarrow> nat \<times> process_locks" where
  "entry_mutex i s =
     (case pl_locks s (as_str i) of
        Some m \<Rightarrow> (m, s)
      | None \<Rightarrow>
          (pl_next s, s\<lparr>pl_locks := (pl_locks s)(as_str i \<mapsto> pl_next s), pl_next := Suc (pl_next s)\<rparr>))"

text \<open>\<open>lock_owned\<close> when the mutex is free, and the drop of the guard, which is also its release.\<close>

definition mutex_lock :: "nat \<Rightarrow> process_locks \<Rightarrow> process_locks option" where
  "mutex_lock m s = (if m \<in> pl_locked s then None else Some (s\<lparr>pl_locked := insert m (pl_locked s)\<rparr>))"

definition guard_drop :: "nat \<Rightarrow> process_locks \<Rightarrow> process_locks" where
  "guard_drop m s = s\<lparr>pl_locked := pl_locked s - {m}\<rparr>"

text \<open>
  The locker as a handler uses it when no other task runs meanwhile: a mutex that is locked stays so
  until the handler's timer has elapsed.
\<close>

definition process_acquire :: "upload_id \<Rightarrow> process_locks \<Rightarrow> acquire_outcome \<times> process_locks" where
  "process_acquire i s =
     (let (m, s1) = entry_mutex i s
      in case mutex_lock m s1 of Some s2 \<Rightarrow> (Acquired, s2) | None \<Rightarrow> (Elapsed, s1))"

definition process_drop :: "upload_id \<Rightarrow> process_locks \<Rightarrow> process_locks" where
  "process_drop i s = (case pl_locks s (as_str i) of Some m \<Rightarrow> guard_drop m s | None \<Rightarrow> s)"

definition process_locker_ops :: "process_locks locker_ops" where
  "process_locker_ops = \<lparr>lk_acquire = process_acquire, lk_drop = process_drop\<rparr>"

section \<open>The contract of a handler's locker\<close>

text \<open>The mutex map: addresses below the next one, one for each identifier.\<close>

definition mutexes_ok :: "process_locks \<Rightarrow> bool" where
  "mutexes_ok l \<longleftrightarrow>
     (\<forall>j m. pl_locks l j = Some m \<longrightarrow> m < pl_next l)
     \<and> (\<forall>j k m. pl_locks l j = Some m \<longrightarrow> pl_locks l k = Some m \<longrightarrow> j = k)"

lemma mutexes_ok_default: "mutexes_ok process_locker_default"
  by (simp add: mutexes_ok_def process_locker_default_def)

lemma entry_mutex_ok:
  assumes "mutexes_ok l" and "entry_mutex i l = (m, l')"
  shows "mutexes_ok l'" and "pl_locks l' (as_str i) = Some m" and "pl_locked l' = pl_locked l"
    and "pl_locks l \<subseteq>\<^sub>m pl_locks l'"
  using assms
  by (fastforce simp: entry_mutex_def mutexes_ok_def map_le_def less_Suc_eq split: option.splits if_splits)+

lemma mutex_lock_Some:
  "mutex_lock m l = Some l' \<longleftrightarrow> m \<notin> pl_locked l \<and> l' = l\<lparr>pl_locked := insert m (pl_locked l)\<rparr>"
  by (auto simp: mutex_lock_def)

lemma guard_drop_sel [simp]:
  "pl_locks (guard_drop m l) = pl_locks l" "pl_next (guard_drop m l) = pl_next l"
  "pl_locked (guard_drop m l) = pl_locked l - {m}"
  by (simp_all add: guard_drop_def)

text \<open>
  What can be seen: the identifiers whose mutex is locked. The map itself is not given back: it keeps
  an entry for every identifier asked for.
\<close>

definition locked_ids :: "process_locks \<Rightarrow> string set" where
  "locked_ids l = {j. \<exists>m. pl_locks l j = Some m \<and> m \<in> pl_locked l}"

definition process_locks_ok :: "process_locks \<Rightarrow> bool" where
  "process_locks_ok l \<longleftrightarrow> mutexes_ok l \<and> (\<forall>m \<in> pl_locked l. m < pl_next l)"

lemma process_locks_ok_default: "process_locks_ok process_locker_default"
  by (simp add: process_locks_ok_def mutexes_ok_default) (simp add: process_locker_default_def)

lemma entry_mutex_locked_ids:
  assumes "process_locks_ok l" and "entry_mutex i l = (m, l')"
  shows "process_locks_ok l'" and "locked_ids l' = locked_ids l"
proof -
  have ok: "mutexes_ok l" and below: "\<forall>m \<in> pl_locked l. m < pl_next l"
    using assms(1) by (simp_all add: process_locks_ok_def)
  note e = entry_mutex_ok [OF ok assms(2)]
  show "process_locks_ok l'"
    using e(1,3) below assms(2)
    by (auto simp: process_locks_ok_def entry_mutex_def split: option.splits)
  show "locked_ids l' = locked_ids l"
    using assms(2) below
    by (auto simp: locked_ids_def entry_mutex_def split: option.splits if_splits)
qed

lemma process_acquire_cases:
  assumes "process_locks_ok l" and "process_acquire i l = (out, l')"
  shows "process_locks_ok l'"
    and "out = Acquired \<Longrightarrow> locked_ids l' = insert (as_str i) (locked_ids l) \<and> as_str i \<notin> locked_ids l"
    and "out \<noteq> Acquired \<Longrightarrow> locked_ids l' = locked_ids l"
proof -
  obtain m l1 where e: "entry_mutex i l = (m, l1)" by fastforce
  note l1 = entry_mutex_locked_ids [OF assms(1) e]
  have ok: "mutexes_ok l" using assms(1) by (simp add: process_locks_ok_def)
  note em = entry_mutex_ok [OF ok e]
  have mine: "pl_locks l1 j = Some m \<longleftrightarrow> j = as_str i" for j
    using em(1,2) unfolding mutexes_ok_def by blast
  have out: "(out, l') = (case mutex_lock m l1 of Some s2 \<Rightarrow> (Acquired, s2) | None \<Rightarrow> (Elapsed, l1))"
    using assms(2) e by (simp add: process_acquire_def)
  have "m < pl_next l1" using em(1,2) by (auto simp: mutexes_ok_def)
  then show "process_locks_ok l'"
    using out l1(1) by (auto simp: mutex_lock_def process_locks_ok_def mutexes_ok_def split: if_splits)
  show "locked_ids l' = insert (as_str i) (locked_ids l) \<and> as_str i \<notin> locked_ids l"
    if "out = Acquired"
  proof -
    have free: "m \<notin> pl_locked l1" and l': "l' = l1\<lparr>pl_locked := insert m (pl_locked l1)\<rparr>"
      using that out by (auto simp: mutex_lock_def split: if_splits)
    have "as_str i \<notin> locked_ids l1" using em(2) free by (simp add: locked_ids_def)
    moreover have "locked_ids l' = insert (as_str i) (locked_ids l1)"
      using mine by (auto simp: locked_ids_def l')
    ultimately show ?thesis by (simp add: l1(2))
  qed
  show "locked_ids l' = locked_ids l" if "out \<noteq> Acquired"
    using that out l1(2) by (auto simp: mutex_lock_def split: if_splits)
qed

lemma process_drop_locked_ids:
  assumes "process_locks_ok l"
  shows "process_locks_ok (process_drop i l)"
    and "locked_ids (process_drop i l) = locked_ids l - {as_str i}"
  using assms
  by (auto simp: process_drop_def locked_ids_def process_locks_ok_def mutexes_ok_def split: option.splits)

definition process_left :: "upload_id \<Rightarrow> process_locks \<Rightarrow> process_locks \<Rightarrow> bool" where
  "process_left i l l' \<longleftrightarrow> (process_locks_ok l \<longrightarrow> process_locks_ok l' \<and> locked_ids l' = locked_ids l)"

interpretation process_locker: locker_contract process_locker_ops process_left
proof (unfold_locales, goal_cases)
  case (1 i l l')
  then have a: "process_acquire i l = (Acquired, l')" by (simp add: process_locker_ops_def)
  show ?case
    using process_acquire_cases [OF _ a] process_drop_locked_ids [of l' i]
    by (simp add: process_left_def process_locker_ops_def)
next
  case (2 i l out l')
  then have a: "process_acquire i l = (out, l')" by (simp add: process_locker_ops_def)
  with process_acquire_cases [OF _ a] 2(2) show ?case by (simp add: process_left_def)
qed

text \<open>So a handler with this locker leaves no mutex locked that was free, and frees none.\<close>

lemma process_locks_given_back:
  assumes "h_locker h = Some process_locker_ops" and "process_locks_ok (w_lock w)"
    and "handle x h e req w = (resp, w')"
  shows "locked_ids (w_lock w') = locked_ids (w_lock w)"
  using process_locker.handle_left [OF assms(1,3)] assms(2) by (auto simp: process_left_def)

section \<open>Interleaving\<close>

text \<open>
  A task asks for the mutex of an upload, waits for it, holds it and drops it; it may also give up
  waiting, when the handler's timer has elapsed. Any task may move at any time.
\<close>

datatype proc_task = P_Idle | P_Waiting upload_id nat | P_Holding upload_id nat

record proc_state =
  ps_locks :: process_locks
  ps_tasks :: "nat \<Rightarrow> proc_task"

definition proc_start :: proc_state where
  "proc_start = \<lparr>ps_locks = process_locker_default, ps_tasks = (\<lambda>t. P_Idle)\<rparr>"

inductive proc_step :: "proc_state \<Rightarrow> proc_state \<Rightarrow> bool" where
  ask: "ps_tasks s t = P_Idle \<Longrightarrow> entry_mutex i (ps_locks s) = (m, l) \<Longrightarrow>
     proc_step s \<lparr>ps_locks = l, ps_tasks = (ps_tasks s)(t := P_Waiting i m)\<rparr>"
| grant: "ps_tasks s t = P_Waiting i m \<Longrightarrow> mutex_lock m (ps_locks s) = Some l \<Longrightarrow>
     proc_step s \<lparr>ps_locks = l, ps_tasks = (ps_tasks s)(t := P_Holding i m)\<rparr>"
| give_up: "ps_tasks s t = P_Waiting i m \<Longrightarrow>
     proc_step s \<lparr>ps_locks = ps_locks s, ps_tasks = (ps_tasks s)(t := P_Idle)\<rparr>"
| drop_guard: "ps_tasks s t = P_Holding i m \<Longrightarrow>
     proc_step s \<lparr>ps_locks = guard_drop m (ps_locks s), ps_tasks = (ps_tasks s)(t := P_Idle)\<rparr>"

abbreviation proc_reach :: "proc_state \<Rightarrow> proc_state \<Rightarrow> bool" where
  "proc_reach \<equiv> rtranclp proc_step"

text \<open>
  The invariant: tasks wait for and hold the mutex of their upload, and the locked mutexes are those
  held, each by one task.
\<close>

definition holder :: "proc_state \<Rightarrow> nat \<Rightarrow> nat \<Rightarrow> bool" where
  "holder s m t \<longleftrightarrow> (\<exists>i. ps_tasks s t = P_Holding i m)"

definition tasks_ok :: "proc_state \<Rightarrow> bool" where
  "tasks_ok s \<longleftrightarrow>
     (\<forall>t i m. ps_tasks s t = P_Waiting i m \<or> ps_tasks s t = P_Holding i m \<longrightarrow>
        pl_locks (ps_locks s) (as_str i) = Some m)"

definition guards_ok :: "proc_state \<Rightarrow> bool" where
  "guards_ok s \<longleftrightarrow>
     (\<forall>m. m \<in> pl_locked (ps_locks s) \<longleftrightarrow> (\<exists>t. holder s m t))
     \<and> (\<forall>t u m. holder s m t \<longrightarrow> holder s m u \<longrightarrow> t = u)"

definition proc_inv :: "proc_state \<Rightarrow> bool" where
  "proc_inv s \<longleftrightarrow> mutexes_ok (ps_locks s) \<and> tasks_ok s \<and> guards_ok s"

lemma proc_inv_start: "proc_inv proc_start"
  by (simp add: proc_inv_def tasks_ok_def guards_ok_def holder_def proc_start_def mutexes_ok_default)
     (simp add: process_locker_default_def)

lemma holder_update:
  "holder \<lparr>ps_locks = l, ps_tasks = (ps_tasks s)(t := k)\<rparr> m u \<longleftrightarrow>
     (if u = t then \<exists>i. k = P_Holding i m else holder s m u)"
  by (simp add: holder_def)

lemma tasks_ok_update:
  assumes "tasks_ok s" and "pl_locks (ps_locks s) \<subseteq>\<^sub>m pl_locks l"
    and "\<And>i m. k = P_Waiting i m \<or> k = P_Holding i m \<Longrightarrow> pl_locks l (as_str i) = Some m"
  shows "tasks_ok \<lparr>ps_locks = l, ps_tasks = (ps_tasks s)(t := k)\<rparr>"
proof -
  have "pl_locks l (as_str i) = Some m"
    if "ps_tasks s u = P_Waiting i m \<or> ps_tasks s u = P_Holding i m" for u i m
    using assms(1,2) that unfolding tasks_ok_def map_le_def by (metis domI)
  with assms(3) show ?thesis unfolding tasks_ok_def by simp blast
qed

lemma proc_inv_step: "proc_step s s' \<Longrightarrow> proc_inv s \<Longrightarrow> proc_inv s'"
proof (induction rule: proc_step.induct)
  case (ask s t i m l)
  then have inv: "mutexes_ok (ps_locks s)" "tasks_ok s" "guards_ok s" by (simp_all add: proc_inv_def)
  note e = entry_mutex_ok [OF inv(1) ask(2)]
  have "holder \<lparr>ps_locks = l, ps_tasks = (ps_tasks s)(t := P_Waiting i m)\<rparr> m' u = holder s m' u" for m' u
    using ask(1) by (simp add: holder_def)
  then have "guards_ok \<lparr>ps_locks = l, ps_tasks = (ps_tasks s)(t := P_Waiting i m)\<rparr>"
    using inv(3) e(3) by (simp add: guards_ok_def)
  moreover have "tasks_ok \<lparr>ps_locks = l, ps_tasks = (ps_tasks s)(t := P_Waiting i m)\<rparr>"
    by (rule tasks_ok_update [OF inv(2) e(4)]) (auto simp: e(2))
  ultimately show ?case using e(1) by (simp add: proc_inv_def)
next
  case (grant s t i m l)
  then have inv: "mutexes_ok (ps_locks s)" "tasks_ok s" "guards_ok s" by (simp_all add: proc_inv_def)
  have l: "m \<notin> pl_locked (ps_locks s)" "l = (ps_locks s)\<lparr>pl_locked := insert m (pl_locked (ps_locks s))\<rparr>"
    using grant(2) by (simp_all add: mutex_lock_Some)
  have "holder \<lparr>ps_locks = l, ps_tasks = (ps_tasks s)(t := P_Holding i m)\<rparr> m' u
          \<longleftrightarrow> (u = t \<and> m' = m) \<or> holder s m' u" for m' u
    using grant(1) by (auto simp: holder_def)
  moreover have "\<not> holder s m u" for u using inv(3) l(1) by (auto simp: guards_ok_def)
  ultimately have "guards_ok \<lparr>ps_locks = l, ps_tasks = (ps_tasks s)(t := P_Holding i m)\<rparr>"
    using inv(3) by (auto simp: guards_ok_def l(2))
  moreover have "tasks_ok \<lparr>ps_locks = l, ps_tasks = (ps_tasks s)(t := P_Holding i m)\<rparr>"
    by (rule tasks_ok_update [OF inv(2)]) (use inv(2) grant(1) in \<open>auto simp: l(2) tasks_ok_def\<close>)
  ultimately show ?case using inv(1) by (simp add: proc_inv_def l(2) mutexes_ok_def)
next
  case (give_up s t i m)
  then have inv: "mutexes_ok (ps_locks s)" "tasks_ok s" "guards_ok s" by (simp_all add: proc_inv_def)
  let ?s' = "\<lparr>ps_locks = ps_locks s, ps_tasks = (ps_tasks s)(t := P_Idle)\<rparr>"
  have "holder ?s' m' u = holder s m' u" for m' u using give_up(1) by (simp add: holder_def)
  then have "guards_ok ?s'" using inv(3) by (simp add: guards_ok_def)
  moreover have "tasks_ok ?s'" by (rule tasks_ok_update [OF inv(2)]) auto
  ultimately show ?case using inv(1) by (simp add: proc_inv_def)
next
  case (drop_guard s t i m)
  then have inv: "mutexes_ok (ps_locks s)" "tasks_ok s" "guards_ok s" by (simp_all add: proc_inv_def)
  have h: "holder s m' t \<longleftrightarrow> m' = m" for m' using drop_guard(1) by (auto simp: holder_def)
  let ?s' = "\<lparr>ps_locks = guard_drop m (ps_locks s), ps_tasks = (ps_tasks s)(t := P_Idle)\<rparr>"
  have h': "holder ?s' m' u \<longleftrightarrow> u \<noteq> t \<and> holder s m' u" for m' u by (simp add: holder_update)
  have one: "u = t" if "holder s m u" for u
    using inv(3) that h unfolding guards_ok_def by blast
  have "(\<exists>u. holder ?s' m' u) \<longleftrightarrow> m' \<noteq> m \<and> (\<exists>u. holder s m' u)" for m'
  proof (cases "m' = m")
    case True
    with one show ?thesis by (auto simp: h')
  next
    case False
    then have "holder ?s' m' u \<longleftrightarrow> holder s m' u" for u using h [of m'] h' [of m' u] by auto
    with False show ?thesis by simp
  qed
  then have "guards_ok ?s'"
    using inv(3) unfolding guards_ok_def h' by auto
  moreover have "tasks_ok ?s'" by (rule tasks_ok_update [OF inv(2)]) auto
  ultimately show ?case using inv(1) by (simp add: proc_inv_def mutexes_ok_def)
qed

lemma proc_inv_reach: "proc_reach s s' \<Longrightarrow> proc_inv s \<Longrightarrow> proc_inv s'"
  by (induction rule: rtranclp_induct) (auto intro: proc_inv_step)

lemma process_locks_kept: "proc_step s s' \<Longrightarrow> pl_locks (ps_locks s) \<subseteq>\<^sub>m pl_locks (ps_locks s')"
  by (induction rule: proc_step.induct)
     (auto simp: entry_mutex_def mutex_lock_Some map_le_def split: option.splits)

text \<open>
  An entry of the map is never removed: the memory of the locker grows with every identifier asked
  for, of uploads that do not exist or are long gone too.
\<close>

lemma process_locks_never_shrink:
  "proc_reach s s' \<Longrightarrow> dom (pl_locks (ps_locks s)) \<subseteq> dom (pl_locks (ps_locks s'))"
proof (induction rule: rtranclp_induct)
  case (step y z)
  then show ?case using map_le_implies_dom_le [OF process_locks_kept [OF step(2)]] by blast
qed simp

text \<open>Asking and then being granted, with no other task in between, is the handler's acquisition.\<close>

lemma process_acquire_steps:
  assumes "ps_tasks s t = P_Idle" and "process_acquire i (ps_locks s) = (Acquired, l)"
  obtains m where "proc_reach s \<lparr>ps_locks = l, ps_tasks = (ps_tasks s)(t := P_Holding i m)\<rparr>"
proof -
  obtain m l1 where e: "entry_mutex i (ps_locks s) = (m, l1)" by fastforce
  with assms(2) have g: "mutex_lock m l1 = Some l"
    by (auto simp: process_acquire_def split: option.splits)
  let ?s1 = "\<lparr>ps_locks = l1, ps_tasks = (ps_tasks s)(t := P_Waiting i m)\<rparr>"
  have "proc_step s ?s1" by (rule proc_step.ask [where i = i, OF assms(1) e])
  moreover have "proc_step ?s1 \<lparr>ps_locks = l, ps_tasks = (ps_tasks s)(t := P_Holding i m)\<rparr>"
    using proc_step.grant [of ?s1 t i m l] g by simp
  ultimately show thesis
    by (intro that [of m] rtranclp.rtrancl_into_rtrancl [OF r_into_rtranclp])
qed

text \<open>
  C39. The locker of the cloud backends, in every interleaving of any number of tasks that ask for
  locks, are granted them, give up and drop them: no two tasks hold the lock of one upload; and no lock
  is lost, since a task waiting for an upload that nobody holds can be granted it at once.
\<close>

theorem process_locker_exclusive:
  assumes "proc_reach proc_start s"
  shows "(\<forall>t u i m n. ps_tasks s t = P_Holding i m \<longrightarrow> ps_tasks s u = P_Holding i n \<longrightarrow> t = u)
    \<and> (\<forall>t i m. ps_tasks s t = P_Waiting i m \<longrightarrow> (\<forall>u n. ps_tasks s u \<noteq> P_Holding i n) \<longrightarrow>
         (\<exists>s'. proc_step s s' \<and> ps_tasks s' t = P_Holding i m))"
proof (intro conjI allI impI)
  have "proc_inv s" using proc_inv_reach [OF assms proc_inv_start] .
  then have inv: "mutexes_ok (ps_locks s)" "tasks_ok s" "guards_ok s" by (simp_all add: proc_inv_def)
  have mutex: "pl_locks (ps_locks s) (as_str i) = Some m"
    if "ps_tasks s t = P_Waiting i m \<or> ps_tasks s t = P_Holding i m" for t i m
    using inv(2) that unfolding tasks_ok_def by blast
  {
    fix t u i m n
    assume h: "ps_tasks s t = P_Holding i m" "ps_tasks s u = P_Holding i n"
    with mutex have "m = n" by (metis option.inject)
    with h have "holder s m t" "holder s m u" by (auto simp: holder_def)
    then show "t = u" using inv(3) unfolding guards_ok_def by blast
  next
    fix t i m
    assume w: "ps_tasks s t = P_Waiting i m" and free: "\<forall>u n. ps_tasks s u \<noteq> P_Holding i n"
    have "\<not> holder s m u" for u
    proof
      assume "holder s m u"
      then obtain k where k: "ps_tasks s u = P_Holding k m" by (auto simp: holder_def)
      with mutex w have "as_str k = as_str i" using inv(1) unfolding mutexes_ok_def by blast
      with k free show False by (metis upload_id.expand)
    qed
    then have "m \<notin> pl_locked (ps_locks s)" using inv(3) by (auto simp: guards_ok_def)
    then obtain l where "mutex_lock m (ps_locks s) = Some l" by (simp add: mutex_lock_def)
    from proc_step.grant [OF w this]
    show "\<exists>s'. proc_step s s' \<and> ps_tasks s' t = P_Holding i m" by force
  }
qed

theorem process_locker_exclusive_witness:
  "\<exists>s s'. ps_tasks s 1 = P_Holding (UploadId ''a'') 0 \<and> ps_tasks s 2 = P_Waiting (UploadId ''b'') 1
     \<and> proc_step s s' \<and> ps_tasks s' 2 = P_Holding (UploadId ''b'') 1"
proof -
  define l1 where "l1 = \<lparr>pl_locks = [''a'' \<mapsto> 0], pl_next = 1, pl_locked = {0}\<rparr>"
  define l2 where "l2 = \<lparr>pl_locks = [''a'' \<mapsto> 0, ''b'' \<mapsto> 1], pl_next = 2, pl_locked = {0}\<rparr>"
  define s1 where "s1 = \<lparr>ps_locks = l1, ps_tasks = (ps_tasks proc_start)(1 := P_Holding (UploadId ''a'') 0)\<rparr>"
  define s2 where "s2 = \<lparr>ps_locks = l2, ps_tasks = (ps_tasks s1)(2 := P_Waiting (UploadId ''b'') 1)\<rparr>"
  obtain l0 where l0: "entry_mutex (UploadId ''a'') (ps_locks proc_start) = (0, l0)"
    "mutex_lock 0 l0 = Some l1"
    by (simp add: entry_mutex_def mutex_lock_def proc_start_def process_locker_default_def l1_def)
  let ?s0 = "\<lparr>ps_locks = l0, ps_tasks = (ps_tasks proc_start)(1 := P_Waiting (UploadId ''a'') 0)\<rparr>"
  have "proc_step proc_start ?s0"
    by (rule proc_step.ask [OF _ l0(1)]) (simp add: proc_start_def)
  moreover have "proc_step ?s0 s1"
    using proc_step.grant [of ?s0 1 "UploadId ''a''" 0 l1] l0(2) by (simp add: s1_def)
  moreover have "proc_step s1 s2"
    unfolding s2_def
    by (rule proc_step.ask) (simp_all add: s1_def proc_start_def entry_mutex_def l1_def l2_def)
  ultimately have "proc_reach proc_start s2"
    by (intro rtranclp.rtrancl_into_rtrancl [OF rtranclp.rtrancl_into_rtrancl [OF r_into_rtranclp]])
  moreover have s2: "ps_tasks s2 1 = P_Holding (UploadId ''a'') 0"
    "ps_tasks s2 2 = P_Waiting (UploadId ''b'') 1"
    "\<forall>u n. ps_tasks s2 u \<noteq> P_Holding (UploadId ''b'') n"
    by (simp_all add: s2_def s1_def proc_start_def)
  ultimately have "\<exists>s'. proc_step s2 s' \<and> ps_tasks s' 2 = P_Holding (UploadId ''b'') 1"
    using process_locker_exclusive [of s2] by blast
  with s2 show ?thesis by blast
qed

end
