(* ===== verification/Server_Main.thy ===== *)
theory Server_Main
  imports Process_Locker File_Locker File_Store S3_Store GCS_Store Azure_Store
begin

text \<open>
  The standalone server, \<open>fileloft-server/src/main.rs\<close>: the configuration read from the environment,
  the start of each backend and the choice of what to listen on. The environment is a function of the variable's name. Sockets, TLS and the running of the
  router are the operating system's and third-party code: the record \<open>os_net\<close> says what they answer.
  Of the log, the warnings about the configuration are modelled.
\<close>

section \<open>Environment variables\<close>

type_synonym environment = "string \<Rightarrow> string option"

definition env_or :: "environment \<Rightarrow> string \<Rightarrow> string \<Rightarrow> string" where
  "env_or env name dflt = (case env name of Some v \<Rightarrow> v | None \<Rightarrow> dflt)"

definition env_opt :: "environment \<Rightarrow> string \<Rightarrow> string option" where
  "env_opt env name =
     (case env name of Some s \<Rightarrow> if trim s \<noteq> [] then Some s else None | None \<Rightarrow> None)"

definition truthy :: "string \<Rightarrow> bool" where
  "truthy v \<longleftrightarrow> v = ''1'' \<or> map lower v = ''true''"

definition env_truthy :: "environment \<Rightarrow> string \<Rightarrow> bool" where
  "env_truthy env name = (case env_opt env name of Some v \<Rightarrow> truthy v | None \<Rightarrow> False)"

definition parse_comma_headers :: "string option \<Rightarrow> string list" where
  "parse_comma_headers raw =
     (case raw of
        Some s \<Rightarrow> filter (\<lambda>x. x \<noteq> []) (map trim (split_on (CHR '','') s))
      | None \<Rightarrow> [])"

text \<open>\<open>env_opt(name).and_then(|s| s.parse().ok()).unwrap_or(default)\<close>\<close>

definition env_number :: "environment \<Rightarrow> string \<Rightarrow> u64 \<Rightarrow> u64" where
  "env_number env name dflt =
     (case env_opt env name of
        Some s \<Rightarrow> (case parse_u64 s of Some n \<Rightarrow> n | None \<Rightarrow> dflt)
      | None \<Rightarrow> dflt)"

section \<open>The configuration\<close>

definition env_extensions :: "environment \<Rightarrow> string + extensions" where
  "env_extensions env =
     (let x = extensions_default;
          x = (if env_truthy env ''FILELOFT_DISABLE_TERMINATION'' then x\<lparr>ext_termination := False\<rparr> else x);
          x = (if env_truthy env ''FILELOFT_ENABLE_CONCATENATION'' then x\<lparr>ext_concatenation := True\<rparr> else x);
          x = (if env_truthy env ''FILELOFT_ENABLE_CLEANUP_CONCAT_PARTIALS''
               then x\<lparr>ext_cleanup_concat_partials := True\<rparr> else x);
          x = (if env_truthy env ''FILELOFT_ENABLE_EXPIRATION'' then x\<lparr>ext_expiration := True\<rparr> else x)
      in res_bind (case env_opt env ''FILELOFT_EXPIRATION_TTL'' of
                     None \<Rightarrow> Inr x
                   | Some s \<Rightarrow>
                       (case parse_u64 s of
                          None \<Rightarrow> Inl ''invalid FILELOFT_EXPIRATION_TTL (expect seconds as u64)''
                        | Some secs \<Rightarrow> Inr (x\<lparr>ext_expiration_ttl := Some (unat secs * 1000000000)\<rparr>)))
           (\<lambda>x.
         (let x = (if env_truthy env ''FILELOFT_DISABLE_CHECKSUM'' then x\<lparr>ext_checksum := False\<rparr> else x);
              x = (if env_truthy env ''FILELOFT_DISABLE_CREATION'' then x\<lparr>ext_creation := False\<rparr> else x);
              x = (if env_truthy env ''FILELOFT_DISABLE_CREATION_WITH_UPLOAD''
                   then x\<lparr>ext_creation_with_upload := False\<rparr> else x);
              x = (if env_truthy env ''FILELOFT_DISABLE_DEFER_LENGTH''
                   then x\<lparr>ext_creation_defer_length := False\<rparr> else x)
          in Inr x)))"

definition env_cors :: "environment \<Rightarrow> cors_config" where
  "env_cors env =
     \<lparr>cors_enabled = (\<not> env_truthy env ''FILELOFT_DISABLE_CORS''),
      cors_allow_origin = env_or env ''FILELOFT_CORS_ALLOW_ORIGIN'' ''*'',
      cors_allow_credentials = env_truthy env ''FILELOFT_CORS_ALLOW_CREDENTIALS'',
      cors_extra_allow_headers = parse_comma_headers (env_opt env ''FILELOFT_CORS_ALLOW_HEADERS''),
      cors_extra_expose_headers = parse_comma_headers (env_opt env ''FILELOFT_CORS_EXPOSE_HEADERS''),
      cors_max_age = env_number env ''FILELOFT_CORS_MAX_AGE'' 86400\<rparr>"

definition build_config :: "environment \<Rightarrow> string + config" where
  "build_config env =
     (let base_path = env_or env ''FILELOFT_BASE_PATH'' ''/files/'';
          max_size = env_number env ''FILELOFT_MAX_SIZE'' 0
      in res_bind (env_extensions env) (\<lambda>extensions.
         (let lock_timeout_secs = env_number env ''FILELOFT_LOCK_TIMEOUT'' 20
          in Inr \<lparr>cfg_base_path = base_path, cfg_base_url = env_opt env ''FILELOFT_BASE_URL'',
                  cfg_max_size = max_size, cfg_extensions = extensions,
                  cfg_lock_timeout = unat lock_timeout_secs, cfg_cors = env_cors env,
                  cfg_trust_forwarded_headers = env_truthy env ''FILELOFT_BEHIND_PROXY'',
                  cfg_hooks = hook_config_default,
                  cfg_enable_download = env_truthy env ''FILELOFT_ENABLE_DOWNLOAD''\<rparr>)))"

text \<open>The warnings about a configuration.\<close>

datatype config_warning =
    Warn_Uncapped | Warn_Any_Origin | Warn_Credentials_Any_Origin | Warn_Forwarded | Info_H2C

definition config_warnings :: "environment \<Rightarrow> u64 \<Rightarrow> cors_config \<Rightarrow> config_warning list" where
  "config_warnings env max_size cors =
     (if max_size = 0 then [Warn_Uncapped] else [])
     @ (if cors_enabled cors \<and> cors_allow_origin cors = ''*'' then [Warn_Any_Origin] else [])
     @ (if cors_enabled cors \<and> cors_allow_credentials cors \<and> cors_allow_origin cors = ''*''
        then [Warn_Credentials_Any_Origin] else [])
     @ (if env_truthy env ''FILELOFT_BEHIND_PROXY'' \<and> env_opt env ''FILELOFT_BASE_URL'' = None
        then [Warn_Forwarded] else [])
     @ (if env_truthy env ''FILELOFT_ENABLE_H2C'' then [Info_H2C] else [])"

text \<open>\<open>str::parse::<SocketAddr>\<close> is a parameter.\<close>

definition bind_addr :: "(string \<Rightarrow> string + 'a) \<Rightarrow> environment \<Rightarrow> string + 'a" where
  "bind_addr parse_addr env =
     (let raw = env_or env ''FILELOFT_BIND'' ''0.0.0.0:8080''
      in map_sum (\<lambda>e. ''invalid FILELOFT_BIND '' @ [CHR 0x27] @ raw @ [CHR 0x27] @ '': '' @ e) id (parse_addr raw))"

section \<open>Listening\<close>

text \<open>The application: the adapter's router nested under a path.\<close>

record 'h router =
  rt_base :: string
  rt_handler :: 'h

definition build_router :: "'h \<Rightarrow> string \<Rightarrow> 'h router" where
  "build_router handler base_path = \<lparr>rt_base = base_path, rt_handler = handler\<rparr>"

text \<open>What the server asks of the system, in order.\<close>

datatype ('a, 'h) net_action =
    Remove_File string
  | Bind_Unix string
  | Load_Pem string string
  | Bind_Tcp 'a
  | Serve_Unix string "'h router"
  | Serve_Tls 'a string string u64 "'h router"
  | Serve_Tcp 'a "'h router"

record ('a, 'h) os_net =
  os_bind_unix :: "string \<Rightarrow> string + unit"
  os_load_pem :: "string \<Rightarrow> string \<Rightarrow> string + unit"
  os_bind_tcp :: "'a \<Rightarrow> string + unit"
  os_serve :: "('a, 'h) net_action \<Rightarrow> string + unit"

type_synonym ('a, 'h, 'r) net = "(('a, 'h) net_action list, string, 'r) sm"

definition asks :: "('a, 'h) net_action \<Rightarrow> string + unit \<Rightarrow> ('a, 'h, unit) net" where
  "asks act answer asked = (answer, asked @ [act])"

text \<open>The outcome of removing a stale socket is ignored.\<close>

definition serve_unix ::
  "('a, 'h) os_net \<Rightarrow> string \<Rightarrow> 'h router \<Rightarrow> ('a, 'h, unit) net" where
  "serve_unix os path app =
     sm_bind (asks (Remove_File path) (Inr ())) (\<lambda>_.
     sm_bind (asks (Bind_Unix path)
                (map_sum (\<lambda>e. ''bind unix socket '' @ path @ '': '' @ e) id (os_bind_unix os path))) (\<lambda>_.
     asks (Serve_Unix path app) (os_serve os (Serve_Unix path app))))"

text \<open>\<open>bind_rustls\<close> binds the address when it starts to serve.\<close>

definition serve_tls ::
  "('a, 'h) os_net \<Rightarrow> environment \<Rightarrow> 'a \<Rightarrow> string \<Rightarrow> string \<Rightarrow> 'h router \<Rightarrow> ('a, 'h, unit) net" where
  "serve_tls os env addr cert key app =
     sm_bind (asks (Load_Pem cert key) (map_sum (\<lambda>e. ''TLS: '' @ e) id (os_load_pem os cert key))) (\<lambda>_.
     (let shutdown_secs = env_number env ''FILELOFT_SHUTDOWN_TIMEOUT'' 10;
          act = Serve_Tls addr cert key shutdown_secs app
      in asks act (map_sum (\<lambda>e. ''server: '' @ e) id (os_serve os act))))"

text \<open>\<open>serve\<close>, on a Unix system.\<close>

definition serve ::
  "('a, 'h) os_net \<Rightarrow> (string \<Rightarrow> string + 'a) \<Rightarrow> environment \<Rightarrow> 'h \<Rightarrow> config \<Rightarrow> ('a, 'h, unit) net" where
  "serve os parse_addr env handler config =
     (let base_path = trim_end_matches (CHR ''/'') (cfg_base_path config);
          app = build_router handler base_path
      in if env_opt env ''FILELOFT_UNIX_SOCKET'' \<noteq> None
            \<and> (env_opt env ''FILELOFT_TLS_CERT'' \<noteq> None \<or> env_opt env ''FILELOFT_TLS_KEY'' \<noteq> None)
         then sm_fail
           ''FILELOFT_UNIX_SOCKET cannot be used together with FILELOFT_TLS_CERT / FILELOFT_TLS_KEY''
         else
           case env_opt env ''FILELOFT_UNIX_SOCKET'' of
             Some sock_path \<Rightarrow> serve_unix os sock_path app
           | None \<Rightarrow>
               (case (env_opt env ''FILELOFT_TLS_CERT'', env_opt env ''FILELOFT_TLS_KEY'') of
                  (Some cert, Some key) \<Rightarrow>
                    sm_bind (sm_lift (bind_addr parse_addr env)) (\<lambda>addr.
                    serve_tls os env addr cert key app)
                | _ \<Rightarrow>
                    sm_bind (sm_lift (bind_addr parse_addr env)) (\<lambda>addr.
                    sm_bind (asks (Bind_Tcp addr) (os_bind_tcp os addr)) (\<lambda>_.
                    asks (Serve_Tcp addr app) (os_serve os (Serve_Tcp addr app))))))"

section \<open>Starting a backend\<close>

text \<open>
  \<open>run\<close> with the file-system backend: directories, store, locker, configuration, then \<open>serve\<close>. \<open>to_path\<close>
  splits a path into its segments, and \<open>lk_ops\<close> is the file locker as a handler sees it.
\<close>

definition run_fs ::
  "(string \<Rightarrow> path) \<Rightarrow> json_codec \<Rightarrow> (file_locker \<Rightarrow> 'l locker_ops)
     \<Rightarrow> ('a, (file_system, 'l) tus_handler) os_net \<Rightarrow> (string \<Rightarrow> string + 'a) \<Rightarrow> environment
     \<Rightarrow> file_system \<Rightarrow> ('a, (file_system, 'l) tus_handler) net_action list
     \<Rightarrow> (string + unit) \<times> file_system \<times> ('a, (file_system, 'l) tus_handler) net_action list" where
  "run_fs to_path js lk_ops os parse_addr env fs asked =
     (let data_dir = env_or env ''FILELOFT_DATA_DIR'' ''/var/lib/fileloft'';
          lock_dir = data_dir @ ''/locks''
      in case fs_create_dir_all (to_path data_dir) fs of
           (Inl e, fs1) \<Rightarrow> (Inl (io_text e), fs1, asked)
         | (Inr _, fs1) \<Rightarrow>
             (case fs_create_dir_all (to_path lock_dir) fs1 of
                (Inl e, fs2) \<Rightarrow> (Inl (io_text e), fs2, asked)
              | (Inr _, fs2) \<Rightarrow>
                  (let store = file_store_new (to_path data_dir);
                       locker = file_locker_new (to_path lock_dir)
                   in case build_config env of
                        Inl e \<Rightarrow> (Inl e, fs2, asked)
                      | Inr config \<Rightarrow>
                          (let handler = tus_handler_new (file_ops js store) (Some (lk_ops locker)) config;
                               (r, asked') = serve os parse_addr env handler config asked
                           in (r, fs2, asked')))))"

fun s3_store_error_text :: "s3_store_error \<Rightarrow> string" where
  "s3_store_error_text S3_BucketEmpty = ''S3 bucket name is empty''"
| "s3_store_error_text (S3_ClientInit e) = ''failed to build S3 client: '' @ e"

fun gcs_store_error_text :: "gcs_store_error \<Rightarrow> string" where
  "gcs_store_error_text GCS_BucketEmpty = ''GCS bucket name is empty''"
| "gcs_store_error_text (GCS_ClientInit e) = ''failed to build GCS client: '' @ e"

fun azure_store_error_text :: "azure_store_error \<Rightarrow> string" where
  "azure_store_error_text Azure_ContainerEmpty = ''Azure Blob container name is empty''"
| "azure_store_error_text Azure_AccountMissing =
     ''storage account name is missing (set it on the builder or AZURE_STORAGE_ACCOUNT)''"
| "azure_store_error_text (Azure_ClientInit e) = ''failed to build Azure Blob Storage client: '' @ e"

text \<open>\<open>if let Some(v) = opt { builder = f(builder, v) }\<close>\<close>

definition with_opt :: "('v \<Rightarrow> 'b \<Rightarrow> 'b) \<Rightarrow> 'v option \<Rightarrow> 'b \<Rightarrow> 'b" where
  "with_opt f opt b = (case opt of Some v \<Rightarrow> f v b | None \<Rightarrow> b)"

definition run_s3 ::
  "(string option \<Rightarrow> bool \<Rightarrow> string option \<Rightarrow> 'b s3_client) \<Rightarrow> json_codec
     \<Rightarrow> ('a, ('b, process_locks) tus_handler) os_net \<Rightarrow> (string \<Rightarrow> string + 'a) \<Rightarrow> environment
     \<Rightarrow> ('a, ('b, process_locks) tus_handler, unit) net" where
  "run_s3 load js os parse_addr env =
     sm_bind (sm_lift (opt_to_res ''FILELOFT_S3_BUCKET is required for the S3 backend''
                         (env_opt env ''FILELOFT_S3_BUCKET''))) (\<lambda>bucket.
     (let builder = s3_store_builder bucket;
          builder = with_opt s3_builder_prefix (env_opt env ''FILELOFT_S3_PREFIX'') builder;
          builder = with_opt s3_builder_endpoint_url (env_opt env ''FILELOFT_S3_ENDPOINT'') builder;
          builder = with_opt s3_builder_region (env_opt env ''FILELOFT_S3_REGION'') builder;
          builder = (if env_truthy env ''FILELOFT_S3_FORCE_PATH_STYLE''
                     then s3_builder_force_path_style True builder else builder)
      in sm_bind (sm_lift (map_sum s3_store_error_text id (s3_build load builder))) (\<lambda>store.
         sm_bind (sm_lift (build_config env)) (\<lambda>config.
         serve os parse_addr env
           (tus_handler_new (s3_ops js store) (Some process_locker_ops) config) config))))"

definition run_gcs ::
  "(string + 'b gcs_storage) \<Rightarrow> (string + 'b gcs_control) \<Rightarrow> json_codec
     \<Rightarrow> ('a, ('b, process_locks) tus_handler) os_net \<Rightarrow> (string \<Rightarrow> string + 'a) \<Rightarrow> environment
     \<Rightarrow> ('a, ('b, process_locks) tus_handler, unit) net" where
  "run_gcs new_storage new_control js os parse_addr env =
     sm_bind (sm_lift (opt_to_res ''FILELOFT_GCS_BUCKET is required for the GCS backend''
                         (env_opt env ''FILELOFT_GCS_BUCKET''))) (\<lambda>bucket.
     (let builder = gcs_store_builder bucket;
          builder = with_opt gcs_builder_prefix (env_opt env ''FILELOFT_GCS_PREFIX'') builder
      in sm_bind (sm_lift (map_sum gcs_store_error_text id (gcs_build new_storage new_control builder)))
           (\<lambda>store.
         sm_bind (sm_lift (build_config env)) (\<lambda>config.
         serve os parse_addr env
           (tus_handler_new (gcs_ops js store) (Some process_locker_ops) config) config))))"

definition run_azure ::
  "('b, 'k) azure_sdk \<Rightarrow> json_codec
     \<Rightarrow> ('a, ('b, process_locks) tus_handler) os_net \<Rightarrow> (string \<Rightarrow> string + 'a) \<Rightarrow> environment
     \<Rightarrow> ('a, ('b, process_locks) tus_handler, unit) net" where
  "run_azure sdk js os parse_addr env =
     sm_bind (sm_lift (opt_to_res ''FILELOFT_AZURE_CONTAINER is required for the Azure backend''
                         (env_opt env ''FILELOFT_AZURE_CONTAINER''))) (\<lambda>container.
     (let builder = azure_store_builder container;
          builder = with_opt azure_builder_prefix (env_opt env ''FILELOFT_AZURE_PREFIX'') builder;
          builder = with_opt azure_builder_connection_string
                      (env_opt env ''FILELOFT_AZURE_CONNECTION_STRING'') builder;
          builder = with_opt azure_builder_account (env_opt env ''FILELOFT_AZURE_ACCOUNT'') builder
      in sm_bind (sm_lift (map_sum azure_store_error_text id (azure_build sdk builder))) (\<lambda>store.
         sm_bind (sm_lift (build_config env)) (\<lambda>config.
         serve os parse_addr env
           (tus_handler_new (azure_ops js store) (Some process_locker_ops) config) config))))"

text \<open>The exit code of \<open>main\<close>.\<close>

definition exit_code :: "string + unit \<Rightarrow> nat" where
  "exit_code r = (case r of Inl e \<Rightarrow> 1 | Inr _ \<Rightarrow> 0)"

end
