(* ===== verification/Server_Start.thy ===== *)
theory Server_Start
  imports Server_Main File_Store_Facts
begin

text \<open>
  Laws of the standalone server: what it listens on, and what the configuration makes of the
  environment.
\<close>

section \<open>What the server listens on\<close>

fun serves :: "('a, 'h) net_action \<Rightarrow> 'h router option" where
  "serves (Serve_Unix path app) = Some app"
| "serves (Serve_Tls addr cert key n app) = Some app"
| "serves (Serve_Tcp addr app) = Some app"
| "serves _ = None"

text \<open>What must hold of the environment and the system for the server to come to serve.\<close>

fun justified ::
  "('a, 'h) os_net \<Rightarrow> (string \<Rightarrow> string + 'a) \<Rightarrow> environment \<Rightarrow> ('a, 'h) net_action \<Rightarrow> bool" where
  "justified os parse_addr env (Serve_Unix path app) \<longleftrightarrow>
     env_opt env ''FILELOFT_UNIX_SOCKET'' = Some path
     \<and> env_opt env ''FILELOFT_TLS_CERT'' = None \<and> env_opt env ''FILELOFT_TLS_KEY'' = None
     \<and> os_bind_unix os path = Inr ()"
| "justified os parse_addr env (Serve_Tls addr cert key n app) \<longleftrightarrow>
     env_opt env ''FILELOFT_UNIX_SOCKET'' = None
     \<and> env_opt env ''FILELOFT_TLS_CERT'' = Some cert \<and> env_opt env ''FILELOFT_TLS_KEY'' = Some key
     \<and> os_load_pem os cert key = Inr () \<and> bind_addr parse_addr env = Inr addr"
| "justified os parse_addr env (Serve_Tcp addr app) \<longleftrightarrow>
     env_opt env ''FILELOFT_UNIX_SOCKET'' = None
     \<and> (env_opt env ''FILELOFT_TLS_CERT'' = None \<or> env_opt env ''FILELOFT_TLS_KEY'' = None)
     \<and> bind_addr parse_addr env = Inr addr \<and> os_bind_tcp os addr = Inr ()"
| "justified os parse_addr env _ \<longleftrightarrow> True"

definition listens_well ::
  "('a, 'h) os_net \<Rightarrow> (string \<Rightarrow> string + 'a) \<Rightarrow> environment \<Rightarrow> 'h router
     \<Rightarrow> (string + unit) \<times> ('a, 'h) net_action list \<Rightarrow> bool" where
  "listens_well os parse_addr env app out \<longleftrightarrow>
     (let served = filter (\<lambda>act. serves act \<noteq> None) (snd out)
      in (\<forall>act \<in> set served. serves act = Some app \<and> justified os parse_addr env act)
         \<and> length served \<le> 1 \<and> (fst out = Inr () \<longrightarrow> length served = 1))"

lemma map_sum_Inr_iff: "map_sum f id r = Inr y \<longleftrightarrow> r = Inr y"
  by (cases r) auto

lemma map_sum_Inl_iff: "map_sum f id r = Inl e \<longleftrightarrow> (\<exists>e'. r = Inl e' \<and> e = f e')"
  by (cases r) auto

lemmas net_simps = asks_def sm_bind_def sm_lift_def sm_fail_def listens_well_def Let_def

lemma serve_unix_listens:
  assumes "env_opt env ''FILELOFT_UNIX_SOCKET'' = Some path"
    and "env_opt env ''FILELOFT_TLS_CERT'' = None" and "env_opt env ''FILELOFT_TLS_KEY'' = None"
  shows "listens_well os parse_addr env app (serve_unix os path app [])"
  using assms by (cases "os_bind_unix os path") (simp_all add: serve_unix_def net_simps)

lemma serve_tls_listens:
  assumes "env_opt env ''FILELOFT_UNIX_SOCKET'' = None"
    and "env_opt env ''FILELOFT_TLS_CERT'' = Some cert" and "env_opt env ''FILELOFT_TLS_KEY'' = Some key"
    and "bind_addr parse_addr env = Inr addr"
  shows "listens_well os parse_addr env app (serve_tls os env addr cert key app [])"
  using assms by (cases "os_load_pem os cert key") (simp_all add: serve_tls_def net_simps)

lemma serve_tcp_listens:
  assumes "env_opt env ''FILELOFT_UNIX_SOCKET'' = None"
    and "env_opt env ''FILELOFT_TLS_CERT'' = None \<or> env_opt env ''FILELOFT_TLS_KEY'' = None"
    and "bind_addr parse_addr env = Inr addr"
  shows "listens_well os parse_addr env app
    (sm_bind (asks (Bind_Tcp addr) (os_bind_tcp os addr)) (\<lambda>_.
       asks (Serve_Tcp addr app) (os_serve os (Serve_Tcp addr app))) [])"
  using assms by (cases "os_bind_tcp os addr") (simp_all add: net_simps)

lemma serve_listens:
  "listens_well os parse_addr env
     (build_router handler (trim_end_matches (CHR ''/'') (cfg_base_path config)))
     (serve os parse_addr env handler config [])"
proof (cases "env_opt env ''FILELOFT_UNIX_SOCKET''")
  case (Some path)
  show ?thesis
  proof (cases "env_opt env ''FILELOFT_TLS_CERT'' = None \<and> env_opt env ''FILELOFT_TLS_KEY'' = None")
    case True
    with Some serve_unix_listens [OF Some] show ?thesis by (simp add: serve_def Let_def)
  next
    case False
    with Some show ?thesis by (auto simp: serve_def net_simps)
  qed
next
  case None
  show ?thesis
  proof (cases "bind_addr parse_addr env")
    case (Inl e)
    with None show ?thesis by (auto simp: serve_def net_simps split: option.splits)
  next
    case (Inr addr)
    have lift: "sm_bind (sm_lift (bind_addr parse_addr env)) k = k addr" for k
      using Inr by (simp add: sm_bind_def sm_lift_def)
    show ?thesis
      using None serve_tls_listens [OF None _ _ Inr] serve_tcp_listens [OF None _ Inr]
      by (auto simp: serve_def Let_def lift split: option.splits)
  qed
qed

text \<open>
  C40. What the server comes to listen on: it serves at most once, exactly once when it ends without an
  error, always the handler under the configured path, and only where it was told to and what it needs
  was given by the system. With a certificate and a key it never serves in the clear and a socket file is
  never combined with them; but one of the two alone does not stop it: it then serves in the clear.
\<close>

theorem server_listens:
  assumes "serve os parse_addr env handler config [] = (r, asked)"
  shows "(\<forall>act app. act \<in> set asked \<and> serves act = Some app \<longrightarrow>
            app = build_router handler (trim_end_matches (CHR ''/'') (cfg_base_path config))
            \<and> justified os parse_addr env act)
    \<and> length (filter (\<lambda>act. serves act \<noteq> None) asked) \<le> 1
    \<and> (r = Inr () \<longrightarrow> length (filter (\<lambda>act. serves act \<noteq> None) asked) = 1)
    \<and> (env_opt env ''FILELOFT_TLS_CERT'' \<noteq> None \<and> env_opt env ''FILELOFT_TLS_KEY'' \<noteq> None \<longrightarrow>
         (\<forall>addr app. Serve_Tcp addr app \<notin> set asked))"
proof -
  let ?app = "build_router handler (trim_end_matches (CHR ''/'') (cfg_base_path config))"
  have "listens_well os parse_addr env ?app (r, asked)"
    using serve_listens [of os parse_addr env handler config] assms by simp
  then have all: "\<forall>act \<in> set asked. \<forall>app. serves act = Some app \<longrightarrow> app = ?app \<and> justified os parse_addr env act"
    and rest: "length (filter (\<lambda>act. serves act \<noteq> None) asked) \<le> 1"
      "r = Inr () \<longrightarrow> length (filter (\<lambda>act. serves act \<noteq> None) asked) = 1"
    by (auto simp: listens_well_def Let_def)
  from all have "Serve_Tcp addr app \<notin> set asked"
    if "env_opt env ''FILELOFT_TLS_CERT'' \<noteq> None \<and> env_opt env ''FILELOFT_TLS_KEY'' \<noteq> None" for addr app
    using that by fastforce
  with all rest show ?thesis by blast
qed

definition demo_os :: "(string, nat) os_net" where
  "demo_os =
     \<lparr>os_bind_unix = (\<lambda>p. Inr ()), os_load_pem = (\<lambda>c k. Inr ()), os_bind_tcp = (\<lambda>a. Inr ()),
      os_serve = (\<lambda>act. Inr ())\<rparr>"

definition half_tls :: environment where
  "half_tls = [''FILELOFT_TLS_CERT'' \<mapsto> ''cert.pem'']"

definition full_tls :: environment where
  "full_tls = half_tls(''FILELOFT_TLS_KEY'' \<mapsto> ''key.pem'')"

theorem server_listens_witness:
  "serve demo_os Inr half_tls (7::nat) config_default []
      = (Inr (), [Bind_Tcp ''0.0.0.0:8080'', Serve_Tcp ''0.0.0.0:8080'' (build_router 7 ''/files'')])
   \<and> (\<forall>addr app. Serve_Tcp addr app \<notin> set (snd (serve demo_os Inr full_tls (7::nat) config_default [])))"
proof -
  have "serve demo_os Inr half_tls (7::nat) config_default []
      = (Inr (), [Bind_Tcp ''0.0.0.0:8080'', Serve_Tcp ''0.0.0.0:8080'' (build_router 7 ''/files'')])"
    by code_simp
  moreover have "env_opt full_tls ''FILELOFT_TLS_CERT'' \<noteq> None"
    "env_opt full_tls ''FILELOFT_TLS_KEY'' \<noteq> None"
    by code_simp+
  ultimately show ?thesis
    using server_listens [of demo_os Inr full_tls "7::nat" config_default
        "fst (serve demo_os Inr full_tls (7::nat) config_default [])"
        "snd (serve demo_os Inr full_tls (7::nat) config_default [])"]
    by simp
qed

section \<open>What a backend serves\<close>

lemma sm_bind_lift_outcome:
  assumes "sm_bind (sm_lift v) k s = (r, s')" and "s' \<noteq> s"
  obtains x where "v = Inr x" and "k x s = (r, s')"
  using assms by (cases v) (simp_all add: sm_bind_def sm_lift_def)

lemma serve_app:
  assumes "serve os parse_addr env handler config [] = (r, asked)"
    and "act \<in> set asked" and "serves act = Some app"
  shows "app = build_router handler (trim_end_matches (CHR ''/'') (cfg_base_path config))"
  using serve_listens [of os parse_addr env handler config] assms
  by (auto simp: listens_well_def Let_def)

text \<open>
  The program on the S3 backend comes to serve only the handler on the S3 store it has built, with the
  per-process locker and the configuration of the environment.
\<close>

lemma run_s3_serves:
  assumes "run_s3 load js os parse_addr env [] = (r, asked)"
    and "act \<in> set asked" and "serves act = Some app"
  obtains st config where "build_config env = Inr config" and "s3_bucket st \<noteq> []"
    and "env_opt env ''FILELOFT_S3_BUCKET'' = Some (s3_bucket st)"
    and "app = build_router (tus_handler_new (s3_ops js st) (Some process_locker_ops) config)
                 (trim_end_matches (CHR ''/'') (cfg_base_path config))"
proof -
  have ne: "asked \<noteq> []" using assms(2) by auto
  obtain bucket where b: "env_opt env ''FILELOFT_S3_BUCKET'' = Some bucket"
    using assms(1) ne unfolding run_s3_def
    by (elim sm_bind_lift_outcome) (auto simp: opt_to_res_def split: option.splits)
  let ?b = "with_opt s3_builder_region (env_opt env ''FILELOFT_S3_REGION'')
              (with_opt s3_builder_endpoint_url (env_opt env ''FILELOFT_S3_ENDPOINT'')
                (with_opt s3_builder_prefix (env_opt env ''FILELOFT_S3_PREFIX'') (s3_store_builder bucket)))"
  let ?c = "if env_truthy env ''FILELOFT_S3_FORCE_PATH_STYLE'' then s3_builder_force_path_style True ?b else ?b"
  have bucket: "sb_bucket ?c = bucket"
    by (simp add: with_opt_def s3_builder_region_def s3_builder_endpoint_url_def s3_builder_prefix_def
        s3_builder_force_path_style_def s3_store_builder_def split: option.split)
  have "sm_bind (sm_lift (map_sum s3_store_error_text id (s3_build load ?c))) (\<lambda>store.
          sm_bind (sm_lift (build_config env)) (\<lambda>config.
          serve os parse_addr env
            (tus_handler_new (s3_ops js store) (Some process_locker_ops) config) config)) []
        = (r, asked)"
    using assms(1) by (simp add: run_s3_def b opt_to_res_def sm_bind_def sm_lift_def Let_def)
  then obtain st where st: "map_sum s3_store_error_text id (s3_build load ?c) = Inr st"
    and "sm_bind (sm_lift (build_config env)) (\<lambda>config. serve os parse_addr env
            (tus_handler_new (s3_ops js st) (Some process_locker_ops) config) config) [] = (r, asked)"
    using sm_bind_lift_outcome [OF _ ne] by blast
  then obtain config where config: "build_config env = Inr config"
    and served: "serve os parse_addr env
       (tus_handler_new (s3_ops js st) (Some process_locker_ops) config) config [] = (r, asked)"
    using sm_bind_lift_outcome [OF _ ne] by blast
  from st have "s3_build load ?c = Inr st" by (simp only: map_sum_Inr_iff)
  with bucket have "s3_bucket st = bucket" "bucket \<noteq> []"
    by (auto simp: s3_build_def Let_def split: if_splits)
  then show thesis
    using that [OF config] b serve_app [OF served assms(2,3)] by blast
qed

section \<open>The configuration\<close>

text \<open>An empty environment gives the library's defaults, but with CORS on.\<close>

lemma build_config_empty:
  "build_config Map.empty = Inr (config_default\<lparr>cfg_cors := cors_config_default\<lparr>cors_enabled := True\<rparr>\<rparr>)"
  by (simp add: build_config_def env_extensions_def env_cors_def env_number_def env_truthy_def env_opt_def
      env_or_def parse_comma_headers_def config_default_def extensions_default_def cors_config_default_def)

text \<open>The only value that stops the server is the time to live.\<close>

lemma build_config_fails_iff:
  "(\<exists>e. build_config env = Inl e)
     \<longleftrightarrow> (\<exists>s. env_opt env ''FILELOFT_EXPIRATION_TTL'' = Some s \<and> parse_u64 s = None)"
  by (auto simp: build_config_def env_extensions_def Let_def split: option.splits)

text \<open>A maximal size that is not a number is no maximal size.\<close>

lemma build_config_max_size:
  assumes "build_config env = Inr config" and "env_opt env ''FILELOFT_MAX_SIZE'' = Some s"
    and "parse_u64 s = None"
  shows "cfg_max_size config = 0"
  using assms by (auto simp: build_config_def env_number_def Let_def res_bind_Inr_iff)

text \<open>But it is warned of, as an uncapped server.\<close>

lemma uncapped_warned:
  "build_config env = Inr config \<Longrightarrow>
     Warn_Uncapped \<in> set (config_warnings env (cfg_max_size config) (cfg_cors config))
       \<longleftrightarrow> cfg_max_size config = 0"
  by (auto simp: config_warnings_def)

section \<open>The directories of the file-system server\<close>

text \<open>
  The laws of the file-system store are about disks in the state \<open>fs_inv\<close>. The server's start brings them
  there: it makes the directory of the store and in it the one of the lock files, on a new disk and on one
  an earlier run left behind.
\<close>

lemma create_dir_all_child:
  assumes "fs_faults s = []" and "is_dir s p" and "\<And>b. lookup s (p @ [n]) \<noteq> Some (File b)"
  shows "fs_create_dir_all (p @ [n]) s =
    (Inr (), if lookup s (p @ [n]) = None then set_node (p @ [n]) Dir s else s)"
proof -
  have there: "\<forall>q \<in> set (ancestors p @ [p]). lookup s q = Some Dir"
    using assms(2) by (simp only: is_dir_def list_all_iff)
  have "dropWhile (\<lambda>q. lookup s q = Some Dir) ((ancestors p @ [p]) @ [p @ [n]])
      = dropWhile (\<lambda>q. lookup s q = Some Dir) [p @ [n]]"
    by (rule dropWhile_append2) (use there in blast)
  moreover have "lookup s (p @ [n]) = None \<or> lookup s (p @ [n]) = Some Dir"
    using assms(3) by (metis node.exhaust option.exhaust)
  ultimately show ?thesis
    by (auto simp: fs_create_dir_all_def syscall_healthy assms(1) ancestors_snoc)
qed

lemma store_dir_new: "store_dir (file_store_new root) = root"
  by (simp add: store_dir_def key_to_path_def file_store_new_def)

text \<open>A new disk: the directory of the store is not there, the one it is to be made in is.\<close>

lemma data_dir_made:
  assumes "codec_ok js" and "fs_faults s = []" and "distinct (map fst (fs_nodes s))"
    and "is_dir s up" and "lookup s (up @ [d]) = None" and "\<And>n. lookup s (up @ [d, n]) = None"
  shows "fs_create_dir_all (up @ [d]) s = (Inr (), set_node (up @ [d]) Dir s)"
    and "fs_inv js (file_store_new (up @ [d])) (set_node (up @ [d]) Dir s)"
proof -
  show "fs_create_dir_all (up @ [d]) s = (Inr (), set_node (up @ [d]) Dir s)"
    using create_dir_all_child [OF assms(2,4), of d] assms(5) by simp
  have "is_dir (set_node (up @ [d]) Dir s) (up @ [d])"
    using is_dir_set_file [OF assms(4), of d Dir]
    by (simp add: is_dir_def ancestors_snoc lookup_set_node)
  then show "fs_inv js (file_store_new (up @ [d])) (set_node (up @ [d]) Dir s)"
    using assms by (simp add: fs_inv_def store_dir_new prefix_ok_new distinct_set_node lookup_set_node)
qed

text \<open>The start itself, on a disk whose store is in order: it stays so, with the directory \<open>locks\<close> in it.\<close>

lemma run_fs_layout:
  assumes "to_path (env_or env ''FILELOFT_DATA_DIR'' ''/var/lib/fileloft'') = root"
    and "to_path (env_or env ''FILELOFT_DATA_DIR'' ''/var/lib/fileloft'' @ ''/locks'') = root @ [''locks'']"
    and "fs_inv js (file_store_new root) fs" and "\<And>b. lookup fs (root @ [''locks'']) \<noteq> Some (File b)"
    and "run_fs to_path js lk_ops os parse_addr env fs asked = (r, fs', asked')"
  shows "fs_inv js (file_store_new root) fs'" and "lookup fs' (root @ [''locks'']) = Some Dir"
    and "fs_info_of js (file_store_new root) fs' = fs_info_of js (file_store_new root) fs"
proof -
  let ?st = "file_store_new root"
  have inv: "fs_faults fs = []" "is_dir fs root"
    using fs_invD(2,3) [OF assms(3)] by (simp_all add: store_dir_new)
  let ?fs = "if lookup fs (root @ [''locks'']) = None then set_node (root @ [''locks'']) Dir fs else fs"
  have "fs' = ?fs"
    using assms(1,2,5) fs_create_dir_all_there [OF inv] create_dir_all_child [OF inv assms(4)]
    by (auto simp: run_fs_def Let_def split: sum.splits prod.splits if_splits)
  moreover have "lookup fs (root @ [''locks'']) = None \<or> lookup fs (root @ [''locks'']) = Some Dir"
    using assms(4) by (metis node.exhaust option.exhaust)
  moreover have "fs_inv js ?st (set_node (root @ [''locks'']) Dir fs)"
    and "lookup fs (root @ [''locks'']) = None \<Longrightarrow>
      fs_info_of js ?st (set_node (root @ [''locks'']) Dir fs) = fs_info_of js ?st fs"
    using set_dir_inv [OF assms(3), of "''locks''"] locks_name_free by (simp_all add: store_dir_new)
  ultimately show "fs_inv js ?st fs'" and "lookup fs' (root @ [''locks'']) = Some Dir"
    and "fs_info_of js ?st fs' = fs_info_of js ?st fs"
    using assms(3) by (auto simp: lookup_set_node)
qed

end
