(* ===== verification/Spec2Isabelle.thy ===== *)
theory Spec2Isabelle
  imports Server_Laws File_Final Memory_Locker_Steps File_Locker Protocol_Laws Round_Trips Memory_Laws
    Event_Laws S3_Session GCS_Session Azure_Session Adapter_Laws Process_Locker Server_Start
begin

text \<open>
  \<^bold>\<open>A verification development for fileloft\<close>, a server of the tus resumable-upload protocol in Rust.

  A client creates an upload with POST, appends to it with PATCH at the offset it knows from HEAD, may
  join partial uploads into a final one, may read it with GET and remove it with DELETE. The crate
  \<open>fileloft-core\<close> turns each request into calls of a store and a locker; four crates provide stores,
  three crates adapt the handler to a web framework, and \<open>fileloft-server\<close> is a program built of these.
  The development follows that structure: a theory for a source file or for a group of small ones, the
  operations in the order of the code, and the laws of a part in theories after it.

  \<^bold>\<open>How the code is modelled.\<close> A \<open>char\<close> is a byte and a string is its UTF-8 bytes; \<open>u64\<close> and \<open>u32\<close> are words, so
  sums wrap as they do in a release build, and \<open>usize\<close> is taken as 64 bits wide. A function that may fail and
  works on state is a state transformer with a sum (\<open>sm\<close> in \<open>Tus_Prelude\<close>); an error does not undo what was
  done before it. A reader is the list of the chunks and errors it yields. The clock and the fresh
  identifier are inputs of each request (\<open>req_env\<close>); base64, digests, dates and header-value checks are the
  record \<open>externals\<close>; the JSON of a record is a \<open>json_codec\<close>, used under the hypothesis \<open>codec_ok\<close> that it reads
  back what it writes.

  \<^bold>\<open>Components.\<close>

  \<^item> \<open>Tus_Prelude\<close>, \<open>Rust_Str\<close>: the shared combinators and their rules (collections \<open>sm_simps\<close>, \<open>valid_rules\<close>), and
    the functions of the Rust string library.
  \<^item> \<open>Tus_Proto\<close> (\<open>proto.rs\<close>), \<open>Tus_Error\<close> (\<open>error.rs\<close>), \<open>Upload_Info\<close> (\<open>info.rs\<close>), \<open>Tus_Config\<close> (\<open>config.rs\<close>, \<open>hooks.rs\<close>),
    \<open>Tus_Util\<close> (\<open>util.rs\<close>), \<open>Tus_Checksum\<close> (\<open>checksum.rs\<close>): the data and the parsers of \<open>fileloft-core\<close>.
  \<^item> \<open>Tus_Store\<close> (\<open>store.rs\<close>) and \<open>Tus_Lock\<close> (\<open>lock.rs\<close>, \<open>fileloft-store-memory/src/locker.rs\<close>): the interfaces, with their
    contracts as locales: \<open>opened_store\<close>, \<open>upload_store\<close> (what every operation does to the records), \<open>content_store\<close>
    (and to the bytes) and \<open>balanced_locker\<close>.
  \<^item> \<open>Tus_Handler\<close>, \<open>Handler_Read\<close>, \<open>Handler_Patch\<close>, \<open>Handler_Post\<close>, \<open>Tus_Dispatch\<close>: the handlers under \<open>handler/\<close>, every
    branch, on the \<open>world\<close>: the store's state, the locker's state and the events sent.
  \<^item> \<open>Memory_Store\<close> (\<open>fileloft-store-memory/src/store.rs\<close>) interprets \<open>content_store\<close>.
  \<^item> \<open>File_System\<close>, \<open>File_Store\<close> (\<open>fileloft-store-fs/src/store.rs\<close>): the store on a model of the calls of \<open>std::fs\<close> it
    makes, with a queue of failures. \<open>File_Contract\<close> interprets \<open>upload_store\<close> and \<open>File_Laws\<close> interprets \<open>parted_store\<close>.
  \<^item> \<open>File_Locker\<close> (\<open>fileloft-store-fs/src/locker.rs\<close>), \<open>Memory_Locker_Steps\<close> and \<open>Process_Locker\<close> (\<open>ProcessLocker\<close> of
    \<open>fileloft-server/src/main.rs\<close>): the three lockers as transition systems of tasks that may interleave at every
    call; \<open>Process_Locker\<close> also interprets \<open>balanced_locker\<close>.
  \<^item> \<open>Object_Store\<close>, \<open>S3_Store\<close>, \<open>GCS_Store\<close>, \<open>Azure_Store\<close> (\<open>fileloft-store-s3\<close>, \<open>-gcs\<close>, \<open>-azure\<close>): the three stores on object
    services. What they share is stated over the record \<open>object_calls\<close> of the calls that differ.
  \<^item> \<open>Adapters\<close>: \<open>fileloft-axum/src/router.rs\<close>, \<open>fileloft-actix/src/scope.rs\<close>, \<open>fileloft-rocket/src/routes.rs\<close>.
  \<^item> \<open>Server_Main\<close>: \<open>fileloft-server/src/main.rs\<close>.

  \<^bold>\<open>What is proved.\<close>

  \<^item> \<open>Tus_Spec\<close> is the abstract protocol: a step relation on the map from identifiers to records and bytes,
    labelled with events, with its invariant. \<open>Handler_Facts\<close>, \<open>Handler_Refinement\<close>, \<open>Post_Refinement\<close> and
    \<open>Tus_Refinement\<close> prove, inside the contracts, that every request on any store that keeps \<open>content_store\<close>
    is a sequence of its steps. \<open>Memory_Server\<close> draws from it what clients rely on: a PATCH answered 204
    appends its body, sessions neither lose nor repeat nor reorder bytes, reachable stores are well formed.
  \<^item> \<open>Server_Laws\<close>, \<open>Memory_Laws\<close>: single requests and pairs of requests, resumption, refusals without effect, isolation,
    creation, deletion, expiry, concatenation, and two defects. \<open>Lock_Facts\<close> proves once for every balanced locker that
    a request gives back the lock it takes; \<open>Event_Laws\<close> that the events follow the answers.
  \<^item> \<open>Protocol_Laws\<close>, \<open>Round_Trips\<close>: what holds on every store and locker, and what is printed and parsed back.
  \<^item> \<open>Parted_Store\<close> is the contract of a store that keeps each chunk as a part and assembles the parts when
    the upload is complete, and what the handlers make of it, proved once: after a session of PATCH
    requests a download streams their bodies. The file-system store keeps it (\<open>File_Names\<close>, \<open>File_Store_Facts\<close>,
    \<open>File_Parts\<close>, \<open>File_Laws\<close>; \<open>File_Final\<close> adds concatenation), and so does every \<open>object_backend\<close> (\<open>Object_Contract\<close>,
    \<open>Object_Laws\<close>, by a sublocale). \<open>S3_Laws\<close>, \<open>GCS_Laws\<close> and \<open>Azure_Laws\<close> interpret \<open>object_backend\<close> on the three
    stores, for any service that behaves as documented (\<open>s3_service\<close>, \<open>gcs_service\<close>, \<open>azure_service_ok\<close>); the theories \<open>_Session\<close>
    hold their properties and, for the witnesses, a small service proved to behave so.
  \<^item> \<open>Adapter_Laws\<close>: the three frameworks give one request the same answer, up to Rocket's limit on the body,
    and actix's channel reader delivers what was sent through it. \<open>Server_Start\<close>: what the program listens on and what
    its configuration is.

  \<^bold>\<open>Loops.\<close> Loops over lists are structural recursion; the channel reader's loop has a measure, the bytes and items left.
  The listing loops of the object stores follow tokens the service chooses, so they are
  \<open>partial_function (option)\<close>, and are proved to end on a service whose pages are finitely many. The acquisition
  loop of \<open>MemoryLocker\<close> takes the list of what other tasks do between its rounds. No other fuel is used.

  \<^bold>\<open>Hypotheses.\<close> An object service keeps its contract when a successful write is seen by later reads and listings,
  a failed write has no effect, deletes succeed, reads change nothing, and no stored identifier's part keys are
  prefixed by another's; the refinement on disk assumes a disk without failures, while the model
  itself has them. Bodies are shorter than \<open>2 ^ 63\<close> bytes (\<open>fits_vec\<close>), the most a \<open>Vec\<close> can hold.

  \<^bold>\<open>Not modelled.\<close> Routing, the web frameworks, the AWS, Google and Azure client libraries, the JSON format,
  UUIDs, digests and TLS are third-party code and parameters. The wait for a signal and log messages have no
  effect on uploads. Subscribing to the event channel is not modelled, the events sent are. Identity wrappers that
  only forward between \<open>Send\<close> and non-\<open>Send\<close> traits, \<open>Debug\<close> and \<open>Clone\<close> instances are left out. \<open>fileloft-e2e-uppy\<close> is a
  browser test page around the axum adapter and the file-system store.
\<close>

end
